(* ===== verification/Aviron_Prelude.thy ===== *)
theory Aviron_Prelude
  imports Complex_Main "HOL-Library.AList" "HOL-Library.Multiset"
begin

text \<open>
  Shared vocabulary of the development: the type names of the program (identifiers, points in
  time, durations, float64 values), Go's error values, Go maps as association lists with distinct
  keys, buffered channels with the non-blocking send of \<^verbatim>\<open>select { case c <- v: default: }\<close>,
  the signed 64-bit \<^verbatim>\<open>int\<close>, truncating division, and the few functions of Go's
  \<^verbatim>\<open>strings\<close> package the code calls. The lemmas on them are in the simpset or in the
  collections declared here.
\<close>

section \<open>Collections of facts\<close>

named_theorems room_frame \<open>fields of a room actor an operation leaves alone\<close>
named_theorems inv_intro \<open>preservation of component invariants\<close>

section \<open>Type names\<close>

type_synonym user_id = string
type_synonym race_id = string
type_synonym time = int \<comment> \<open>nanoseconds since a fixed epoch, as Go's monotonic clock counts\<close>
type_synonym duration = int \<comment> \<open>nanoseconds, as \<^verbatim>\<open>time.Duration\<close>\<close>
type_synonym float64 = rat \<comment> \<open>a finite float64 by the rational it denotes\<close>

abbreviation millisecond :: duration where
  "millisecond \<equiv> 1000000"

abbreviation second :: duration where
  "second \<equiv> 1000000000"

section \<open>Errors\<close>

text \<open>
  The sentinel errors that the handlers tell apart with \<^verbatim>\<open>errors.Is\<close>
  (\<^verbatim>\<open>internal/race/race.go\<close>, \<^verbatim>\<open>internal/auth/user.go\<close>,
  \<^verbatim>\<open>internal/consumer/consumer.go\<close>), and every other error by its text. A Go
  \<^verbatim>\<open>error\<close> result is an option: \<open>None\<close> is \<^verbatim>\<open>nil\<close>.
\<close>

datatype go_error =
    ErrRaceNotFound | ErrAlreadyJoined | ErrRaceNotPending | ErrNotCreator
  | ErrPromptNotReady | ErrRaceFull | ErrNotParticipant
  | ErrEmailTaken | ErrUserNotFound | ErrInvalidCredentials
  | ErrPermanentWrite
  | ErrOther string

section \<open>Integers\<close>

text \<open>Go's \<^verbatim>\<open>int\<close> on the 64-bit targets of the build: two's complement wrap-around.\<close>

definition int64 :: "int \<Rightarrow> int" where
  "int64 x = (x + 2 ^ 63) mod 2 ^ 64 - 2 ^ 63"

lemma int64_id: "- (2 ^ 63) \<le> x \<Longrightarrow> x < 2 ^ 63 \<Longrightarrow> int64 x = x"
  by (simp add: int64_def)

lemma int64_range: "- (2 ^ 63) \<le> int64 x" "int64 x < 2 ^ 63"
  by (simp_all add: int64_def)

text \<open>Division of Go integers truncates towards zero.\<close>

definition go_quot :: "int \<Rightarrow> int \<Rightarrow> int" where
  "go_quot a b = sgn a * sgn b * (\<bar>a\<bar> div \<bar>b\<bar>)"

lemma go_quot_nonneg: "0 \<le> a \<Longrightarrow> 0 < b \<Longrightarrow> go_quot a b = a div b"
  by (cases "a = 0") (auto simp: go_quot_def)

section \<open>Go maps\<close>

text \<open>
  A Go map is an association list with distinct keys. Its iteration order is not fixed by the
  language, so code that ranges over a map goes through a permutation supplied by the run-time
  (\<open>MapIter\<close> of the room's environment), never through the list's own order.
\<close>

abbreviation mget :: "('k \<times> 'v) list \<Rightarrow> 'k \<Rightarrow> 'v option" where
  "mget m k \<equiv> map_of m k"

abbreviation mput :: "'k \<Rightarrow> 'v \<Rightarrow> ('k \<times> 'v) list \<Rightarrow> ('k \<times> 'v) list" where
  "mput \<equiv> AList.update"

abbreviation mdel :: "'k \<Rightarrow> ('k \<times> 'v) list \<Rightarrow> ('k \<times> 'v) list" where
  "mdel \<equiv> AList.delete"

abbreviation mkeys :: "('k \<times> 'v) list \<Rightarrow> 'k list" where
  "mkeys m \<equiv> map fst m"

lemma mget_mput [simp]: "mget (mput k v m) k' = (if k' = k then Some v else mget m k')"
  by (simp add: AList.update_conv')

lemma mget_mdel [simp]: "mget (mdel k m) k' = (if k' = k then None else mget m k')"
  by (simp add: AList.delete_conv')

lemma dom_mput: "dom (mget (mput k v m)) = insert k (dom (mget m))"
  by (auto simp: dom_def)

lemma dom_mdel: "dom (mget (mdel k m)) = dom (mget m) - {k}"
  by (auto simp: dom_def)

lemma set_mput: "distinct (mkeys m) \<Longrightarrow> set (mput k v m) = insert (k, v) (set (mdel k m))"
  by (induction m) (auto simp: AList.delete_eq image_iff split: prod.splits)

lemma set_mput_subset: "set (mput k v m) \<subseteq> insert (k, v) (set m)"
  by (induction m) auto

lemma set_mdel: "set (mdel k m) = {kv \<in> set m. fst kv \<noteq> k}"
  by (auto simp: AList.delete_eq)

lemma mget_in_set: "mget m k = Some v \<Longrightarrow> (k, v) \<in> set m"
  by (rule map_of_SomeD)

lemma mget_set_iff: "distinct (mkeys m) \<Longrightarrow> (k, v) \<in> set m \<longleftrightarrow> mget m k = Some v"
  by auto

lemma mget_values: "distinct (mkeys m) \<Longrightarrow> v \<in> snd ` set m \<longleftrightarrow> (\<exists>k. mget m k = Some v)"
  by force

text \<open>How many entries of a map satisfy a predicate, and how the count moves with the map.\<close>

definition mcount :: "('v \<Rightarrow> bool) \<Rightarrow> ('k \<times> 'v) list \<Rightarrow> nat" where
  "mcount P m = length (filter (P \<circ> snd) m)"

lemma mcount_mdel_notin: "k \<notin> set (mkeys m) \<Longrightarrow> mcount P (mdel k m) = mcount P m"
  by (simp add: AList.delete_idem mcount_def)

lemma mcount_mdel:
  "distinct (mkeys m) \<Longrightarrow> mget m k = Some v \<Longrightarrow>
   mcount P m = mcount P (mdel k m) + (if P v then 1 else 0)"
proof (induction m)
  case (Cons kv m)
  show ?case
  proof (cases "fst kv = k")
    case True
    with Cons.prems have "kv = (k, v)" and "k \<notin> set (mkeys m)" by (auto simp: prod_eq_iff)
    then show ?thesis
      using mcount_mdel_notin [of k m P] by (simp add: mcount_def)
  next
    case False
    with Cons show ?thesis by (cases kv) (auto simp: mcount_def)
  qed
qed simp

lemma mcount_mput_new: "mget m k = None \<Longrightarrow> mcount P (mput k v m) = mcount P m + (if P v then 1 else 0)"
  by (induction m) (auto simp: mcount_def map_of_eq_None_iff)

lemma mcount_mput:
  "distinct (mkeys m) \<Longrightarrow> mcount P (mput k v m) = mcount P (mdel k m) + (if P v then 1 else 0)"
  by (induction m) (auto simp: mcount_def AList.delete_eq filter_id_conv image_iff
      intro!: arg_cong [where f = length] filter_cong)

lemma mcount_zero: "mcount P m = 0 \<longleftrightarrow> (\<forall>(k, v) \<in> set m. \<not> P v)"
  by (force simp: mcount_def filter_empty_conv)

lemma mcount_pos: "(k, v) \<in> set m \<Longrightarrow> P v \<Longrightarrow> 0 < mcount P m"
  using mcount_zero [of P m] by (auto intro: gr0I)

section \<open>Injective partial functions\<close>

definition inj_map :: "('a \<Rightarrow> 'b option) \<Rightarrow> bool" where
  "inj_map f \<longleftrightarrow> (\<forall>x y n. f x = Some n \<and> f y = Some n \<longrightarrow> x = y)"

lemma inj_mapD: "inj_map f \<Longrightarrow> f x = Some n \<Longrightarrow> f y = Some n \<Longrightarrow> x = y"
  by (auto simp: inj_map_def)

lemma inj_map_drop: "inj_map f \<Longrightarrow> inj_map (f(x := None))"
  by (auto simp: inj_map_def)

lemma inj_map_fresh: "inj_map f \<Longrightarrow> (\<And>y. f y \<noteq> Some n) \<Longrightarrow> inj_map (f(x := Some n))"
  by (auto simp: inj_map_def)

text \<open>Moving the value of one point to another.\<close>

lemma inj_map_move: "inj_map f \<Longrightarrow> x \<noteq> y \<Longrightarrow> inj_map (f(x := None, y := f x))"
  unfolding inj_map_def by (metis fun_upd_apply option.distinct(1))

section \<open>Buffered channels\<close>

text \<open>
  A channel of capacity \<open>cap\<close> is the list of its queued values. The send of a
  \<^verbatim>\<open>select\<close> with a \<^verbatim>\<open>default\<close> branch queues the value, or drops it when
  the buffer is full.
\<close>

definition chan_try_send :: "nat \<Rightarrow> 'a \<Rightarrow> 'a list \<Rightarrow> 'a list" where
  "chan_try_send cap x c = (if length c < cap then c @ [x] else c)"

lemma chan_try_send_bound: "length c \<le> cap \<Longrightarrow> length (chan_try_send cap x c) \<le> cap"
  by (simp add: chan_try_send_def)

lemma chan_try_send_prefix: "\<exists>ys. chan_try_send cap x c = c @ ys"
  by (simp add: chan_try_send_def)

section \<open>Strings\<close>

definition go_HasPrefix :: "string \<Rightarrow> string \<Rightarrow> bool" where
  "go_HasPrefix s p = (take (length p) s = p)"

definition go_TrimPrefix :: "string \<Rightarrow> string \<Rightarrow> string" where
  "go_TrimPrefix s p = (if go_HasPrefix s p then drop (length p) s else s)"

text \<open>\<^verbatim>\<open>strings.Cut\<close> at a one-character separator: the part before its first occurrence.\<close>

definition go_CutBefore :: "string \<Rightarrow> char \<Rightarrow> string" where
  "go_CutBefore s c = takeWhile (\<lambda>x. x \<noteq> c) s"

text \<open>The ASCII part of Go's white space (tab, line feed, vertical tab, form feed, return, space).\<close>

definition go_is_space :: "char \<Rightarrow> bool" where
  "go_is_space c = (let n = of_char c :: nat in n \<in> {9, 10, 11, 12, 13, 32})"

definition go_TrimSpace :: "string \<Rightarrow> string" where
  "go_TrimSpace s = rev (dropWhile go_is_space (rev (dropWhile go_is_space s)))"

lemma takeWhile_at_space: "c \<notin> set u \<Longrightarrow> takeWhile (\<lambda>x. x \<noteq> c) (u @ c # v) = u"
  by (induction u) auto

lemma dropWhile_at_space: "c \<notin> set u \<Longrightarrow> dropWhile (\<lambda>x. x \<noteq> c) (u @ c # v) = c # v"
  by (induction u) auto

lemma go_TrimPrefix_append: "go_TrimPrefix (p @ s) p = s"
  by (simp add: go_TrimPrefix_def go_HasPrefix_def)

lemma go_TrimSpace_length: "length (go_TrimSpace s) \<le> length s"
  unfolding go_TrimSpace_def by (metis length_dropWhile_le length_rev order_trans)

end
