(* ===== verification/Room_Actor.thy ===== *)
theory Room_Actor
  imports Aviron_Prelude
begin

text \<open>
  The room actor of \<^verbatim>\<open>internal/room\<close>: the single-writer state of one race
  (\<^verbatim>\<open>RoomActor\<close>, \<^verbatim>\<open>ParticipantState\<close>), the closed set of events its inbox
  accepts (\<^verbatim>\<open>events.go\<close>, \<^verbatim>\<open>lifecycle.go\<close>), and one definition per method of
  \<^verbatim>\<open>room.go\<close>. The collaborators the actor calls through Go interfaces
  (\<^verbatim>\<open>RaceFinisher\<close>, \<^verbatim>\<open>RaceLeaver\<close>, \<^verbatim>\<open>RaceCanceller\<close>,
  \<^verbatim>\<open>EventPublisher\<close>, \<^verbatim>\<open>EvictionRecorder\<close>), the wall clock and the iteration
  order of Go maps are the fields of \<open>room_deps\<close>: state-passing functions on an outside world
  \<open>'w\<close>. The theories that model the collaborators supply the fields.
\<close>

section \<open>Data\<close>

text \<open>\<^verbatim>\<open>events.go\<close>, and the unexported events of \<^verbatim>\<open>room.go\<close> and
  \<^verbatim>\<open>lifecycle.go\<close>. The reply channel of an eviction query is named by a number.\<close>

datatype room_event =
    ParticipantJoined user_id string
  | TelemetryReceived user_id int int float64
  | ParticipantDisconnected user_id
  | ParticipantEvicted user_id
  | ParticipantLeft user_id
  | evictionQuery user_id nat
  | noShowTimeout
  | activated string
  | pendingExpired

record participant =
  UserID :: user_id
  DisplayName :: string
  WordsCorrect :: int
  LastSeq :: int
  PaceWatt :: float64
  ConnectedAt :: time
  DisconnectedAt :: "time option"
  DisconnectedCount :: int
  graceTimer :: "nat option"
  FinishedAt :: "time option"
  FinishRank :: "int option"

record participant_result =
  pr_UserID :: user_id
  pr_FinishRank :: "int option"
  pr_FinishTimeMs :: "int option"
  pr_AvgPaceWatt :: float64
  pr_DisconnectedCount :: int

text \<open>The messages on the wire: \<^verbatim>\<open>ParticipantStateJSON\<close>,
  \<^verbatim>\<open>RaceResultJSON\<close> and the four message types. A value here stands for the body that
  \<^verbatim>\<open>json.Marshal\<close> makes of it.\<close>

record participant_state_json =
  sj_UserID :: user_id
  sj_DistanceM :: float64
  sj_Rank :: nat

record race_result_json =
  rj_UserID :: user_id
  rj_FinishRank :: "int option"
  rj_FinishTimeMs :: "int option"
  rj_AvgPaceWatt :: float64

datatype room_msg =
    RaceStateMessage int "participant_state_json list"
  | RaceStartedMessage string
  | RaceFinishedMessage "race_result_json list"
  | RaceExpiredMessage

text \<open>A timer of the Go run-time that has not fired: its identity, the instant it fires at and the
  event its function sends to the inbox.\<close>

record room_timer =
  tm_id :: nat
  tm_at :: time
  tm_event :: room_event

record room_actor =
  room_id :: race_id
  participants :: "(user_id \<times> participant) list"
  evicted :: "user_id set"
  departedParticipants :: "(user_id \<times> participant) list"
  totalParticipants :: int
  distanceMeters :: int
  active :: bool
  tickCount :: int
  inbox :: "room_event list"
  broadcast_cap :: nat
  broadcast :: "room_msg list"
  cancelled :: bool
  startedAt :: time
  finished :: bool
  finishedCount :: int
  timers :: "room_timer list"
  next_timer :: nat
  replies :: "(nat \<times> bool) list"

record 'w room_deps =
  FinishRace :: "bool \<Rightarrow> race_id \<Rightarrow> int \<Rightarrow> participant_result list \<Rightarrow> 'w \<Rightarrow> go_error option \<times> 'w"
  LeaveRace :: "bool \<Rightarrow> race_id \<Rightarrow> user_id \<Rightarrow> 'w \<Rightarrow> go_error option \<times> 'w"
  CancelRace :: "bool \<Rightarrow> race_id \<Rightarrow> 'w \<Rightarrow> go_error option \<times> 'w"
  PublishWorkoutSample ::
    "bool \<Rightarrow> race_id \<Rightarrow> user_id \<Rightarrow> time \<Rightarrow> int \<Rightarrow> float64 \<Rightarrow> 'w \<Rightarrow> go_error option \<times> 'w"
  PublishRaceFinished :: "bool \<Rightarrow> race_id \<Rightarrow> participant_result list \<Rightarrow> 'w \<Rightarrow> go_error option \<times> 'w"
  MarkEvicted :: "bool \<Rightarrow> race_id \<Rightarrow> user_id \<Rightarrow> 'w \<Rightarrow> go_error option \<times> 'w"
  Now :: "'w \<Rightarrow> time \<times> 'w"
  MapIter :: "(user_id \<times> participant) list \<Rightarrow> 'w \<Rightarrow> (user_id \<times> participant) list \<times> 'w"

text \<open>The Boolean first argument of a call is the state of the context it is passed
  (\<open>True\<close>: \<^verbatim>\<open>r.ctx\<close> is cancelled).\<close>

section \<open>Constants and construction\<close>

definition gracePeriodDuration :: duration where
  "gracePeriodDuration = 30 * second"

definition noShowTimeoutDuration :: duration where
  "noShowTimeoutDuration = 30 * second"

definition PendingTimeoutDuration :: duration where
  "PendingTimeoutDuration = 300 * second"

definition inboxCapacity :: nat where
  "inboxCapacity = 64"

text \<open>\<^verbatim>\<open>time.AfterFunc(dur, func() { r.Send(ev) })\<close>: returns the new timer's identity.\<close>

definition AfterFunc ::
  "'w room_deps \<Rightarrow> duration \<Rightarrow> room_event \<Rightarrow> room_actor \<times> 'w \<Rightarrow> nat \<times> room_actor \<times> 'w" where
  "AfterFunc d dur ev = (\<lambda>(r, w).
     let (t, w') = Now d w in
     (next_timer r,
      r\<lparr>timers := timers r @ [\<lparr>tm_id = next_timer r, tm_at = t + dur, tm_event = ev\<rparr>],
        next_timer := Suc (next_timer r)\<rparr>, w'))"

definition StopTimer :: "nat option \<Rightarrow> room_actor \<Rightarrow> room_actor" where
  "StopTimer t r = (case t of None \<Rightarrow> r
     | Some i \<Rightarrow> r\<lparr>timers := filter (\<lambda>x. tm_id x \<noteq> i) (timers r)\<rparr>)"

definition NewRoomActor ::
  "'w room_deps \<Rightarrow> race_id \<Rightarrow> int \<Rightarrow> nat \<Rightarrow> 'w \<Rightarrow> room_actor \<times> 'w" where
  "NewRoomActor d i distance cap w =
     (let (t, w1) = Now d w;
          r = \<lparr>room_id = i, participants = [], evicted = {}, departedParticipants = [],
               totalParticipants = 0, distanceMeters = distance, active = False, tickCount = 0,
               inbox = [], broadcast_cap = cap, broadcast = [], cancelled = False,
               startedAt = t, finished = False, finishedCount = 0,
               timers = [], next_timer = 0, replies = []\<rparr>;
          (_, r1, w2) = AfterFunc d noShowTimeoutDuration noShowTimeout (r, w1);
          (_, r2, w3) = AfterFunc d PendingTimeoutDuration pendingExpired (r1, w2)
      in (r2, w3))"

section \<open>Broadcasts\<close>

definition sendBroadcast :: "room_msg \<Rightarrow> room_actor \<Rightarrow> room_actor" where
  "sendBroadcast m r = r\<lparr>broadcast := chan_try_send (broadcast_cap r) m (broadcast r)\<rparr>"

definition rank_participants :: "(user_id \<times> participant) list \<Rightarrow> participant_state_json list" where
  "rank_participants kvs =
     (let ranked = sort_key (\<lambda>p. - WordsCorrect p) (map snd kvs)
      in map (\<lambda>(i, p). \<lparr>sj_UserID = UserID p, sj_DistanceM = of_int (WordsCorrect p), sj_Rank = i + 1\<rparr>)
           (enumerate 0 ranked))"

definition broadcastSnapshot :: "'w room_deps \<Rightarrow> room_actor \<times> 'w \<Rightarrow> room_actor \<times> 'w" where
  "broadcastSnapshot d = (\<lambda>(r, w).
     let (kvs, w') = MapIter d (participants r) w;
         tick = tickCount r + 1;
         r' = r\<lparr>tickCount := tick\<rparr>
     in (sendBroadcast (RaceStateMessage tick (rank_participants kvs)) r', w'))"

definition broadcastRaceStarted :: "string \<Rightarrow> room_actor \<Rightarrow> room_actor" where
  "broadcastRaceStarted prompt r = sendBroadcast (RaceStartedMessage prompt) r"

definition broadcastRaceExpired :: "room_actor \<Rightarrow> room_actor" where
  "broadcastRaceExpired r = sendBroadcast RaceExpiredMessage r"

section \<open>Ending a room\<close>

definition expirePendingRoom :: "'w room_deps \<Rightarrow> room_actor \<times> 'w \<Rightarrow> room_actor \<times> 'w" where
  "expirePendingRoom d = (\<lambda>(r, w).
     case CancelRace d (cancelled r) (room_id r) w of
       (Some _, w') \<Rightarrow> (r, w')
     | (None, w') \<Rightarrow> ((broadcastRaceExpired r)\<lparr>finished := True, cancelled := True\<rparr>, w'))"

definition buildParticipantResult :: "room_actor \<Rightarrow> participant \<Rightarrow> participant_result" where
  "buildParticipantResult r p =
     \<lparr>pr_UserID = UserID p,
      pr_FinishRank = (case FinishRank p of None \<Rightarrow> Some (totalParticipants r) | Some n \<Rightarrow> Some n),
      pr_FinishTimeMs = (case FinishedAt p of None \<Rightarrow> None
        | Some t \<Rightarrow> Some (go_quot (t - startedAt r) millisecond)),
      pr_AvgPaceWatt = PaceWatt p,
      pr_DisconnectedCount = DisconnectedCount p\<rparr>"

definition toRaceResultJSON :: "participant_result \<Rightarrow> race_result_json" where
  "toRaceResultJSON res =
     \<lparr>rj_UserID = pr_UserID res, rj_FinishRank = pr_FinishRank res,
      rj_FinishTimeMs = pr_FinishTimeMs res, rj_AvgPaceWatt = pr_AvgPaceWatt res\<rparr>"

definition finishRace ::
  "'w room_deps \<Rightarrow> participant_result list \<Rightarrow> room_actor \<times> 'w \<Rightarrow> room_actor \<times> 'w" where
  "finishRace d results s =
     (let (r, w) = broadcastSnapshot d s in
      case FinishRace d (cancelled r) (room_id r) (distanceMeters r) results w of
        (Some _, w1) \<Rightarrow> (r, w1)
      | (None, w1) \<Rightarrow>
          let r1 = r\<lparr>finished := True\<rparr>;
              (_, w2) = PublishRaceFinished d (cancelled r1) (room_id r1) results w1;
              r2 = sendBroadcast (RaceFinishedMessage (map toRaceResultJSON results)) r1
          in (r2\<lparr>cancelled := True\<rparr>, w2))"

definition racing :: "participant \<Rightarrow> bool" where
  "racing p \<longleftrightarrow> FinishRank p = None"

definition checkRaceFinished :: "'w room_deps \<Rightarrow> room_actor \<times> 'w \<Rightarrow> room_actor \<times> 'w" where
  "checkRaceFinished d = (\<lambda>(r, w).
     if finished r then (r, w)
     else if list_ex (racing \<circ> snd) (participants r) then (r, w)
     else if \<not> active r then expirePendingRoom d (r, w)
     else
       let (live, w1) = MapIter d (participants r) w;
           (gone, w2) = MapIter d (departedParticipants r) w1;
           results = map (buildParticipantResult r \<circ> snd) live
                     @ map (buildParticipantResult r \<circ> snd) gone
       in finishRace d results (r, w2))"

definition departParticipant ::
  "'w room_deps \<Rightarrow> user_id \<Rightarrow> participant \<Rightarrow> room_actor \<times> 'w \<Rightarrow> room_actor \<times> 'w" where
  "departParticipant d u p = (\<lambda>(r, w).
     let r1 = r\<lparr>participants := mdel u (participants r),
                departedParticipants := mput u p (departedParticipants r),
                evicted := insert u (evicted r)\<rparr>;
         (_, w1) = MarkEvicted d (cancelled r1) (room_id r1) u w
     in checkRaceFinished d (r1, w1))"

section \<open>The event switch\<close>

definition setParticipant :: "user_id \<Rightarrow> participant \<Rightarrow> room_actor \<Rightarrow> room_actor" where
  "setParticipant u p r = r\<lparr>participants := mput u p (participants r)\<rparr>"

fun applyEvent :: "'w room_deps \<Rightarrow> room_event \<Rightarrow> room_actor \<times> 'w \<Rightarrow> room_actor \<times> 'w" where
  "applyEvent d (ParticipantJoined u name) (r, w) =
     (case mget (participants r) u of
        Some p \<Rightarrow>
          if DisconnectedAt p \<noteq> None then
            broadcastSnapshot d
              (setParticipant u (p\<lparr>graceTimer := None, DisconnectedAt := None\<rparr>)
                 (StopTimer (graceTimer p) r), w)
          else broadcastSnapshot d (r, w)
      | None \<Rightarrow>
          let (t, w1) = Now d w;
              p = \<lparr>UserID = u, DisplayName = name, WordsCorrect = 0, LastSeq = 0, PaceWatt = 0,
                   ConnectedAt = t, DisconnectedAt = None, DisconnectedCount = 0,
                   graceTimer = None, FinishedAt = None, FinishRank = None\<rparr>;
              r1 = setParticipant u p r
          in broadcastSnapshot d (r1\<lparr>totalParticipants := totalParticipants r1 + 1\<rparr>, w1))"
| "applyEvent d (TelemetryReceived u seq words pace) (r, w) =
     (if \<not> active r then (r, w) else
      case mget (participants r) u of
        None \<Rightarrow> (r, w)
      | Some p0 \<Rightarrow>
          if seq \<le> LastSeq p0 then (r, w) else
          let p = p0\<lparr>WordsCorrect := words, LastSeq := seq, PaceWatt := pace\<rparr>;
              r1 = setParticipant u p r;
              (ts, w1) = Now d w;
              (_, w2) = PublishWorkoutSample d (cancelled r1) (room_id r1) u ts (WordsCorrect p) (PaceWatt p) w1
          in if FinishRank p = None \<and> distanceMeters r1 \<le> WordsCorrect p then
               let (now, w3) = Now d w2;
                   n = finishedCount r1 + 1;
                   r2 = setParticipant u (p\<lparr>FinishedAt := Some now, FinishRank := Some n\<rparr>) r1
               in checkRaceFinished d (r2\<lparr>finishedCount := n\<rparr>, w3)
             else (r1, w2))"
| "applyEvent d (ParticipantDisconnected u) (r, w) =
     (case mget (participants r) u of
        None \<Rightarrow> (r, w)
      | Some p0 \<Rightarrow>
          let (now, w1) = Now d w;
              r1 = StopTimer (graceTimer p0) r;
              (i, r2, w2) = AfterFunc d gracePeriodDuration (ParticipantEvicted u) (r1, w1);
              p = p0\<lparr>DisconnectedAt := Some now, DisconnectedCount := DisconnectedCount p0 + 1,
                     graceTimer := Some i\<rparr>
          in (setParticipant u p r2, w2))"
| "applyEvent d (ParticipantEvicted u) (r, w) =
     (case mget (participants r) u of
        None \<Rightarrow> (r, w)
      | Some p \<Rightarrow> if DisconnectedAt p \<noteq> None then departParticipant d u p (r, w) else (r, w))"
| "applyEvent d (ParticipantLeft u) (r, w) =
     (case mget (participants r) u of
        None \<Rightarrow> (r, w)
      | Some p \<Rightarrow>
          if active r then departParticipant d u p (r, w)
          else
            let r1 = r\<lparr>participants := mdel u (participants r)\<rparr>;
                (_, w1) = LeaveRace d (cancelled r1) (room_id r1) u w
            in checkRaceFinished d (r1, w1))"
| "applyEvent d (evictionQuery u c) (r, w) =
     (if c \<in> fst ` set (replies r) then (r, w)
      else (r\<lparr>replies := replies r @ [(c, u \<in> evicted r)]\<rparr>, w))"
| "applyEvent d noShowTimeout (r, w) = checkRaceFinished d (r, w)"
| "applyEvent d (activated prompt) (r, w) = (broadcastRaceStarted prompt (r\<lparr>active := True\<rparr>), w)"
| "applyEvent d pendingExpired (r, w) =
     (if active r \<or> finished r then (r, w) else expirePendingRoom d (r, w))"

text \<open>A burst of events, applied in the order they are taken from the inbox.\<close>

fun applyEvents :: "'w room_deps \<Rightarrow> room_event list \<Rightarrow> room_actor \<times> 'w \<Rightarrow> room_actor \<times> 'w" where
  "applyEvents d [] s = s"
| "applyEvents d (ev # evs) s = applyEvents d evs (applyEvent d ev s)"

end
