(* ===== verification/Race_Store.thy ===== *)
theory Race_Store
  imports Room_Actor
begin

text \<open>
  The race domain's persistence seam and its Postgres implementation: the data of
  \<^verbatim>\<open>internal/race/race.go\<close>, race identifiers (\<^verbatim>\<open>internal/race/id.go\<close>), the
  interface \<^verbatim>\<open>RaceRepository\<close> (\<open>race_repo\<close>) and every method of
  \<^verbatim>\<open>internal/postgres/race_repository.go\<close> over a model of the tables the migrations create.
  A statement can fail: with a cancelled context, when the schedule \<open>faults\<close> says that the
  connection breaks at this statement, or with a constraint violation. A failed statement changes
  no row, and an aborted transaction restores the rows it found.
\<close>

section \<open>Data of the race domain\<close>

record race =
  ID :: race_id
  Name :: string
  DistanceMeters :: int
  Status :: string
  CreatedBy :: user_id
  CreatedAt :: time
  StartedAt :: "time option"
  PromptText :: "string option"

record race_participant =
  rp_UserID :: user_id
  rp_DisplayName :: string
  rp_JoinedAt :: time
  rp_FinishRank :: "int option"
  rp_FinishTimeMs :: "int option"
  rp_AvgPaceWatt :: float64

record race_detail =
  rd_Race :: race
  rd_Participants :: "race_participant list"

record open_race =
  or_ID :: race_id
  or_Name :: string
  or_DistanceMeters :: int
  or_HostDisplayName :: string
  or_PlayerCount :: int
  or_MaxPlayers :: int
  or_CreatedAt :: time

definition MaxParticipants :: int where
  "MaxParticipants = 10"

text \<open>\<^verbatim>\<open>RaceRepository\<close>: what the service calls. The Boolean first argument of a method is
  the state of the context it is passed.\<close>

record 'w race_repo =
  repo_CreateRace :: "bool \<Rightarrow> string \<Rightarrow> int \<Rightarrow> user_id \<Rightarrow> 'w \<Rightarrow> (go_error + race) \<times> 'w"
  repo_GetRace :: "bool \<Rightarrow> race_id \<Rightarrow> 'w \<Rightarrow> (go_error + race) \<times> 'w"
  repo_AddParticipant :: "bool \<Rightarrow> race_id \<Rightarrow> user_id \<Rightarrow> 'w \<Rightarrow> go_error option \<times> 'w"
  repo_CountParticipants :: "bool \<Rightarrow> race_id \<Rightarrow> 'w \<Rightarrow> (go_error + int) \<times> 'w"
  repo_IsParticipant :: "bool \<Rightarrow> race_id \<Rightarrow> user_id \<Rightarrow> 'w \<Rightarrow> (go_error + bool) \<times> 'w"
  repo_RemoveParticipant :: "bool \<Rightarrow> race_id \<Rightarrow> user_id \<Rightarrow> 'w \<Rightarrow> go_error option \<times> 'w"
  repo_StartRace :: "bool \<Rightarrow> race_id \<Rightarrow> string \<Rightarrow> 'w \<Rightarrow> (go_error + race) \<times> 'w"
  repo_GetRaceText :: "bool \<Rightarrow> race_id \<Rightarrow> 'w \<Rightarrow> (go_error + string) \<times> 'w"
  repo_GetRaceWithParticipants :: "bool \<Rightarrow> race_id \<Rightarrow> 'w \<Rightarrow> (go_error + race_detail) \<times> 'w"
  repo_ListOpenRaces :: "bool \<Rightarrow> user_id \<Rightarrow> 'w \<Rightarrow> (go_error + open_race list) \<times> 'w"
  repo_FinishRace :: "bool \<Rightarrow> race_id \<Rightarrow> int \<Rightarrow> participant_result list \<Rightarrow> 'w \<Rightarrow> go_error option \<times> 'w"
  repo_CancelRace :: "bool \<Rightarrow> race_id \<Rightarrow> 'w \<Rightarrow> go_error option \<times> 'w"

section \<open>Tables\<close>

record user_row =
  u_email :: string
  u_display_name :: string
  u_password_hash :: string
  u_created_at :: time

record race_row =
  r_name :: string
  r_distance_meters :: int
  r_status :: string
  r_created_by :: user_id
  r_started_at :: "time option"
  r_ended_at :: "time option"
  r_created_at :: time
  r_prompt_text :: "string option"

record participant_row =
  p_finish_rank :: "int option"
  p_finish_time_ms :: "int option"
  p_avg_pace_watt :: "float64 option"
  p_disconnected_count :: int
  p_joined_at :: time

record leaderboard_row =
  l_best_2000m_ms :: "int option"
  l_total_races :: int
  l_total_distance_m :: float64
  l_total_wins :: int
  l_total_pace_watt_sum :: float64
  l_updated_at :: time

record sample_row =
  s_race_id :: race_id
  s_user_id :: user_id
  s_ts :: time
  s_distance_m :: float64
  s_pace_watt :: float64

record db_tables =
  users :: "(user_id \<times> user_row) list"
  races :: "(race_id \<times> race_row) list"
  race_participants :: "((race_id \<times> user_id) \<times> participant_row) list"
  leaderboard_alltime :: "(user_id \<times> leaderboard_row) list"
  workout_samples :: "sample_row list"

text \<open>The database as the process sees it: the rows, the clock \<^verbatim>\<open>now()\<close> reads, the number
  of statements sent so far and the schedule of connection failures; and the process's source of
  random numbers, one draw after the other (\<open>None\<close>: the read failed).\<close>

record db =
  tables :: db_tables
  db_now :: time
  stmt_no :: nat
  faults :: "nat \<Rightarrow> bool"
  rand_src :: "nat \<Rightarrow> nat option"
  rand_pos :: nat

datatype pg_error = UniqueViolation | ForeignKeyViolation | OutOfRange | ErrNoRows | ConnFailure

definition pg :: "bool \<Rightarrow> (db \<Rightarrow> (pg_error + 'a) \<times> db_tables) \<Rightarrow> db \<Rightarrow> (pg_error + 'a) \<times> db" where
  "pg ctx stmt s =
     (let s1 = s\<lparr>stmt_no := Suc (stmt_no s)\<rparr> in
      if ctx \<or> faults s (stmt_no s) then (Inl ConnFailure, s1)
      else case stmt s1 of
        (Inl e, _) \<Rightarrow> (Inl e, s1)
      | (Inr x, t) \<Rightarrow> (Inr x, s1\<lparr>tables := t\<rparr>))"

section \<open>Race identifiers\<close>

definition base58Alphabet :: string where
  "base58Alphabet = ''123456789ABCDEFGHJKLMNPQRSTUVWXYZabcdefghijkmnopqrstuvwxyz''"

definition raceIDLength :: nat where
  "raceIDLength = 12"

text \<open>\<^verbatim>\<open>rand.Int(rand.Reader, max)\<close>: some number below \<^verbatim>\<open>max\<close> or an error
  of the reader. Only the range matters here, not the distribution.\<close>

definition rand_Int :: "nat \<Rightarrow> db \<Rightarrow> nat option \<times> db" where
  "rand_Int bound s =
     (map_option (\<lambda>k. k mod bound) (rand_src s (rand_pos s)), s\<lparr>rand_pos := Suc (rand_pos s)\<rparr>)"

text \<open>The loop over the bytes of the identifier; a failed read ends it.\<close>

fun generate_chars :: "nat \<Rightarrow> db \<Rightarrow> string option \<times> db" where
  "generate_chars 0 s = (Some [], s)"
| "generate_chars (Suc n) s =
     (case rand_Int (length base58Alphabet) s of
        (None, s1) \<Rightarrow> (None, s1)
      | (Some k, s1) \<Rightarrow>
          (case generate_chars n s1 of
             (None, s2) \<Rightarrow> (None, s2)
           | (Some cs, s2) \<Rightarrow> (Some (base58Alphabet ! k # cs), s2)))"

definition GenerateRaceID :: "db \<Rightarrow> (go_error + race_id) \<times> db" where
  "GenerateRaceID s = (case generate_chars raceIDLength s of
       (None, s1) \<Rightarrow> (Inl (ErrOther ''race: generate race id''), s1)
     | (Some cs, s1) \<Rightarrow> (Inr cs, s1))"

text \<open>The pattern of \<^verbatim>\<open>internal/race/handler.go\<close>: twelve characters of the ranges
  1-9, A-H, J-N, P-Z, a-k and m-z.\<close>

definition in_range :: "char \<Rightarrow> char \<Rightarrow> char \<Rightarrow> bool" where
  "in_range c lo hi = ((of_char lo :: nat) \<le> of_char c \<and> (of_char c :: nat) \<le> of_char hi)"

definition race_id_char :: "char \<Rightarrow> bool" where
  "race_id_char c =
     (in_range c (CHR ''1'') (CHR ''9'') \<or> in_range c (CHR ''A'') (CHR ''H'') \<or>
      in_range c (CHR ''J'') (CHR ''N'') \<or> in_range c (CHR ''P'') (CHR ''Z'') \<or>
      in_range c (CHR ''a'') (CHR ''k'') \<or> in_range c (CHR ''m'') (CHR ''z''))"

definition isValidRaceID :: "string \<Rightarrow> bool" where
  "isValidRaceID s = (length s = 12 \<and> list_all race_id_char s)"

section \<open>The repository\<close>

text \<open>A \<^verbatim>\<open>fmt.Errorf\<close> wrap of a driver error that matches no sentinel.\<close>

abbreviation wrapped :: "string \<Rightarrow> go_error" where
  "wrapped m \<equiv> ErrOther (''postgres: '' @ m)"

definition race_of_row :: "race_id \<Rightarrow> race_row \<Rightarrow> race" where
  "race_of_row i row = \<lparr>ID = i, Name = r_name row, DistanceMeters = r_distance_meters row,
     Status = r_status row, CreatedBy = r_created_by row, CreatedAt = r_created_at row,
     StartedAt = None, PromptText = None\<rparr>"

definition maxCreateRaceAttempts :: nat where
  "maxCreateRaceAttempts = 5"

definition insert_race :: "race_id \<Rightarrow> string \<Rightarrow> int \<Rightarrow> user_id \<Rightarrow> db \<Rightarrow> (pg_error + race) \<times> db_tables" where
  "insert_race i name distance by s =
     (let t = tables s;
          row = \<lparr>r_name = name, r_distance_meters = distance, r_status = ''pending'', r_created_by = by,
                 r_started_at = None, r_ended_at = None, r_created_at = db_now s, r_prompt_text = None\<rparr>
      in if distance < - (2 ^ 31) \<or> 2 ^ 31 \<le> distance then (Inl OutOfRange, t)
         else if mget (races t) i \<noteq> None then (Inl UniqueViolation, t)
         else if mget (users t) by = None then (Inl ForeignKeyViolation, t)
         else (Inr (race_of_row i row), t\<lparr>races := mput i row (races t)\<rparr>))"

fun CreateRace_attempts :: "nat \<Rightarrow> bool \<Rightarrow> string \<Rightarrow> int \<Rightarrow> user_id \<Rightarrow> db \<Rightarrow> (go_error + race) \<times> db" where
  "CreateRace_attempts 0 ctx name distance by s =
     (Inl (wrapped ''create race: exhausted attempts generating a unique id''), s)"
| "CreateRace_attempts (Suc n) ctx name distance by s =
     (case GenerateRaceID s of
        (Inl e, s1) \<Rightarrow> (Inl (wrapped ''create race''), s1)
      | (Inr i, s1) \<Rightarrow>
          (case pg ctx (insert_race i name distance by) s1 of
             (Inr rc, s2) \<Rightarrow> (Inr rc, s2)
           | (Inl UniqueViolation, s2) \<Rightarrow> CreateRace_attempts n ctx name distance by s2
           | (Inl _, s2) \<Rightarrow> (Inl (wrapped ''create race''), s2)))"

definition pg_CreateRace :: "bool \<Rightarrow> string \<Rightarrow> int \<Rightarrow> user_id \<Rightarrow> db \<Rightarrow> (go_error + race) \<times> db" where
  "pg_CreateRace = CreateRace_attempts maxCreateRaceAttempts"

definition select_race :: "race_id \<Rightarrow> db \<Rightarrow> (pg_error + race) \<times> db_tables" where
  "select_race i s = (case mget (races (tables s)) i of
       None \<Rightarrow> (Inl ErrNoRows, tables s)
     | Some row \<Rightarrow> (Inr (race_of_row i row), tables s))"

definition pg_GetRace :: "bool \<Rightarrow> race_id \<Rightarrow> db \<Rightarrow> (go_error + race) \<times> db" where
  "pg_GetRace ctx i s = (case pg ctx (select_race i) s of
       (Inl ErrNoRows, s1) \<Rightarrow> (Inl ErrRaceNotFound, s1)
     | (Inl _, s1) \<Rightarrow> (Inl (wrapped ''get race''), s1)
     | (Inr rc, s1) \<Rightarrow> (Inr rc, s1))"

definition insert_participant :: "race_id \<Rightarrow> user_id \<Rightarrow> db \<Rightarrow> (pg_error + unit) \<times> db_tables" where
  "insert_participant i u s =
     (let t = tables s;
          row = \<lparr>p_finish_rank = None, p_finish_time_ms = None, p_avg_pace_watt = None,
                 p_disconnected_count = 0, p_joined_at = db_now s\<rparr>
      in if mget (race_participants t) (i, u) \<noteq> None then (Inl UniqueViolation, t)
         else if mget (races t) i = None \<or> mget (users t) u = None then (Inl ForeignKeyViolation, t)
         else (Inr (), t\<lparr>race_participants := mput (i, u) row (race_participants t)\<rparr>))"

definition pg_AddParticipant :: "bool \<Rightarrow> race_id \<Rightarrow> user_id \<Rightarrow> db \<Rightarrow> go_error option \<times> db" where
  "pg_AddParticipant ctx i u s = (case pg ctx (insert_participant i u) s of
       (Inl UniqueViolation, s1) \<Rightarrow> (Some ErrAlreadyJoined, s1)
     | (Inl _, s1) \<Rightarrow> (Some (wrapped ''add participant''), s1)
     | (Inr _, s1) \<Rightarrow> (None, s1))"

definition delete_participant :: "race_id \<Rightarrow> user_id \<Rightarrow> db \<Rightarrow> (pg_error + nat) \<times> db_tables" where
  "delete_participant i u s =
     (let t = tables s in
      (Inr (if mget (race_participants t) (i, u) = None then 0 else 1),
       t\<lparr>race_participants := mdel (i, u) (race_participants t)\<rparr>))"

definition pg_RemoveParticipant :: "bool \<Rightarrow> race_id \<Rightarrow> user_id \<Rightarrow> db \<Rightarrow> go_error option \<times> db" where
  "pg_RemoveParticipant ctx i u s = (case pg ctx (delete_participant i u) s of
       (Inl _, s1) \<Rightarrow> (Some (wrapped ''remove participant''), s1)
     | (Inr n, s1) \<Rightarrow> if n = 0 then (Some ErrNotParticipant, s1) else (None, s1))"

definition members :: "db_tables \<Rightarrow> race_id \<Rightarrow> user_id list" where
  "members t i = map (snd \<circ> fst) (filter (\<lambda>kv. fst (fst kv) = i) (race_participants t))"

definition pg_CountParticipants :: "bool \<Rightarrow> race_id \<Rightarrow> db \<Rightarrow> (go_error + int) \<times> db" where
  "pg_CountParticipants ctx i s =
     (case pg ctx (\<lambda>s. (Inr (int (length (members (tables s) i))), tables s)) s of
       (Inl _, s1) \<Rightarrow> (Inl (wrapped ''count participants''), s1)
     | (Inr n, s1) \<Rightarrow> (Inr n, s1))"

definition pg_IsParticipant :: "bool \<Rightarrow> race_id \<Rightarrow> user_id \<Rightarrow> db \<Rightarrow> (go_error + bool) \<times> db" where
  "pg_IsParticipant ctx i u s =
     (case pg ctx (\<lambda>s. (Inr (mget (race_participants (tables s)) (i, u) \<noteq> None), tables s)) s of
       (Inl _, s1) \<Rightarrow> (Inl (wrapped ''is participant''), s1)
     | (Inr b, s1) \<Rightarrow> (Inr b, s1))"

definition update_start :: "race_id \<Rightarrow> string \<Rightarrow> db \<Rightarrow> (pg_error + race) \<times> db_tables" where
  "update_start i prompt s =
     (let t = tables s in
      case mget (races t) i of
        None \<Rightarrow> (Inl ErrNoRows, t)
      | Some row0 \<Rightarrow>
          let row = row0\<lparr>r_status := ''active'', r_started_at := Some (db_now s), r_prompt_text := Some prompt\<rparr>
          in (Inr ((race_of_row i row)\<lparr>StartedAt := r_started_at row, PromptText := r_prompt_text row\<rparr>),
              t\<lparr>races := mput i row (races t)\<rparr>))"

definition pg_StartRace :: "bool \<Rightarrow> race_id \<Rightarrow> string \<Rightarrow> db \<Rightarrow> (go_error + race) \<times> db" where
  "pg_StartRace ctx i prompt s = (case pg ctx (update_start i prompt) s of
       (Inl _, s1) \<Rightarrow> (Inl (wrapped ''start race''), s1)
     | (Inr rc, s1) \<Rightarrow> (Inr rc, s1))"

definition pg_GetRaceText :: "bool \<Rightarrow> race_id \<Rightarrow> db \<Rightarrow> (go_error + string) \<times> db" where
  "pg_GetRaceText ctx i s =
     (case pg ctx (\<lambda>s. (case mget (races (tables s)) i of None \<Rightarrow> Inl ErrNoRows
                        | Some row \<Rightarrow> Inr (r_prompt_text row), tables s)) s of
       (Inl ErrNoRows, s1) \<Rightarrow> (Inl ErrRaceNotFound, s1)
     | (Inl _, s1) \<Rightarrow> (Inl (wrapped ''get race text''), s1)
     | (Inr None, s1) \<Rightarrow> (Inl ErrPromptNotReady, s1)
     | (Inr (Some prompt), s1) \<Rightarrow> (Inr prompt, s1))"

text \<open>\<^verbatim>\<open>ORDER BY\<close> is a stable sort of the rows as the table lists them.\<close>

definition select_participants :: "race_id \<Rightarrow> db_tables \<Rightarrow> race_participant list" where
  "select_participants i t =
     map (\<lambda>((_, u), row). \<lparr>rp_UserID = u, rp_DisplayName = u_display_name (the (mget (users t) u)),
            rp_JoinedAt = p_joined_at row, rp_FinishRank = p_finish_rank row,
            rp_FinishTimeMs = p_finish_time_ms row,
            rp_AvgPaceWatt = (case p_avg_pace_watt row of None \<Rightarrow> 0 | Some x \<Rightarrow> x)\<rparr>)
       (sort_key (\<lambda>kv. p_joined_at (snd kv))
          (filter (\<lambda>kv. fst (fst kv) = i \<and> mget (users t) (snd (fst kv)) \<noteq> None) (race_participants t)))"

definition pg_GetRaceWithParticipants :: "bool \<Rightarrow> race_id \<Rightarrow> db \<Rightarrow> (go_error + race_detail) \<times> db" where
  "pg_GetRaceWithParticipants ctx i s = (case pg ctx (select_race i) s of
       (Inl ErrNoRows, s1) \<Rightarrow> (Inl ErrRaceNotFound, s1)
     | (Inl _, s1) \<Rightarrow> (Inl (wrapped ''get race''), s1)
     | (Inr rc, s1) \<Rightarrow>
         (case pg ctx (\<lambda>s. (Inr (select_participants i (tables s)), tables s)) s1 of
            (Inl _, s2) \<Rightarrow> (Inl (wrapped ''get race participants''), s2)
          | (Inr ps, s2) \<Rightarrow> (Inr \<lparr>rd_Race = rc, rd_Participants = ps\<rparr>, s2)))"

subsection \<open>Finishing a race\<close>

definition update_finished :: "race_id \<Rightarrow> db \<Rightarrow> (pg_error + unit) \<times> db_tables" where
  "update_finished i s =
     (let t = tables s in
      (Inr (), case mget (races t) i of None \<Rightarrow> t
         | Some row \<Rightarrow> t\<lparr>races := mput i (row\<lparr>r_status := ''finished'', r_ended_at := Some (db_now s)\<rparr>) (races t)\<rparr>))"

definition update_result :: "race_id \<Rightarrow> participant_result \<Rightarrow> db \<Rightarrow> (pg_error + unit) \<times> db_tables" where
  "update_result i res s =
     (let t = tables s; k = (i, pr_UserID res) in
      (Inr (), case mget (race_participants t) k of None \<Rightarrow> t
         | Some row \<Rightarrow> t\<lparr>race_participants := mput k
             (row\<lparr>p_finish_rank := pr_FinishRank res, p_finish_time_ms := pr_FinishTimeMs res,
                  p_avg_pace_watt := Some (pr_AvgPaceWatt res),
                  p_disconnected_count := pr_DisconnectedCount res\<rparr>) (race_participants t)\<rparr>))"

definition won :: "participant_result \<Rightarrow> int" where
  "won res = (if pr_FinishRank res = Some 1 then 1 else 0)"

definition best_time :: "int option \<Rightarrow> int option \<Rightarrow> int option" where
  "best_time old new = (case new of None \<Rightarrow> old
     | Some n \<Rightarrow> (case old of None \<Rightarrow> Some n | Some b \<Rightarrow> if n < b then Some n else Some b))"

definition leaderboard_entry :: "time \<Rightarrow> int \<Rightarrow> participant_result \<Rightarrow> leaderboard_row option \<Rightarrow> leaderboard_row" where
  "leaderboard_entry now distance res old = (case old of
       None \<Rightarrow> \<lparr>l_best_2000m_ms = pr_FinishTimeMs res, l_total_races = 1,
                l_total_distance_m = of_int distance, l_total_wins = won res,
                l_total_pace_watt_sum = pr_AvgPaceWatt res, l_updated_at = now\<rparr>
     | Some l \<Rightarrow> \<lparr>l_best_2000m_ms = best_time (l_best_2000m_ms l) (pr_FinishTimeMs res),
                  l_total_races = l_total_races l + 1,
                  l_total_distance_m = l_total_distance_m l + of_int distance,
                  l_total_wins = l_total_wins l + won res,
                  l_total_pace_watt_sum = l_total_pace_watt_sum l + pr_AvgPaceWatt res,
                  l_updated_at = now\<rparr>)"

definition upsert_leaderboard :: "int \<Rightarrow> participant_result \<Rightarrow> db \<Rightarrow> (pg_error + unit) \<times> db_tables" where
  "upsert_leaderboard distance res s =
     (let t = tables s; u = pr_UserID res in
      if mget (users t) u = None then (Inl ForeignKeyViolation, t)
      else (Inr (), t\<lparr>leaderboard_alltime :=
        mput u (leaderboard_entry (db_now s) distance res (mget (leaderboard_alltime t) u)) (leaderboard_alltime t)\<rparr>))"

fun write_results :: "bool \<Rightarrow> race_id \<Rightarrow> int \<Rightarrow> participant_result list \<Rightarrow> db \<Rightarrow> go_error option \<times> db" where
  "write_results ctx i distance [] s = (None, s)"
| "write_results ctx i distance (res # results) s =
     (case pg ctx (update_result i res) s of
        (Inl _, s1) \<Rightarrow> (Some (wrapped ''finish race: update participant''), s1)
      | (Inr _, s1) \<Rightarrow>
          (case pg ctx (upsert_leaderboard distance res) s1 of
             (Inl _, s2) \<Rightarrow> (Some (wrapped ''finish race: upsert leaderboard''), s2)
           | (Inr _, s2) \<Rightarrow> write_results ctx i distance results s2))"

text \<open>\<^verbatim>\<open>Begin\<close> and \<^verbatim>\<open>Commit\<close> are statements too. The deferred
  \<^verbatim>\<open>Rollback\<close> puts the rows back as they were, unless the commit went through.\<close>

definition pg_noop :: "db \<Rightarrow> (pg_error + unit) \<times> db_tables" where
  "pg_noop s = (Inr (), tables s)"

definition transaction :: "bool \<Rightarrow> (db \<Rightarrow> go_error option \<times> db) \<Rightarrow> db \<Rightarrow> go_error option \<times> db" where
  "transaction ctx body s = (case pg ctx pg_noop s of
       (Inl _, s1) \<Rightarrow> (Some (wrapped ''begin tx''), s1)
     | (Inr _, s1) \<Rightarrow>
         (case body s1 of
            (Some e, s2) \<Rightarrow> (Some e, s2\<lparr>tables := tables s\<rparr>)
          | (None, s2) \<Rightarrow>
              (case pg ctx pg_noop s2 of
                 (Inl _, s3) \<Rightarrow> (Some (wrapped ''commit''), s3\<lparr>tables := tables s\<rparr>)
               | (Inr _, s3) \<Rightarrow> (None, s3))))"

definition pg_FinishRace ::
  "bool \<Rightarrow> race_id \<Rightarrow> int \<Rightarrow> participant_result list \<Rightarrow> db \<Rightarrow> go_error option \<times> db" where
  "pg_FinishRace ctx i distance results = transaction ctx (\<lambda>s.
     case pg ctx (update_finished i) s of
       (Inl _, s1) \<Rightarrow> (Some (wrapped ''finish race: update race''), s1)
     | (Inr _, s1) \<Rightarrow> write_results ctx i distance results s1)"

definition update_unset :: "race_id \<Rightarrow> race_result_json \<Rightarrow> db \<Rightarrow> (pg_error + unit) \<times> db_tables" where
  "update_unset i res s =
     (let t = tables s; k = (i, rj_UserID res) in
      (Inr (), case mget (race_participants t) k of None \<Rightarrow> t
         | Some row \<Rightarrow>
             if p_finish_rank row \<noteq> None then t
             else t\<lparr>race_participants := mput k
               (row\<lparr>p_finish_rank := rj_FinishRank res, p_finish_time_ms := rj_FinishTimeMs res,
                    p_avg_pace_watt := Some (rj_AvgPaceWatt res)\<rparr>) (race_participants t)\<rparr>))"

fun write_unset :: "bool \<Rightarrow> race_id \<Rightarrow> race_result_json list \<Rightarrow> db \<Rightarrow> go_error option \<times> db" where
  "write_unset ctx i [] s = (None, s)"
| "write_unset ctx i (res # results) s =
     (case pg ctx (update_unset i res) s of
        (Inl _, s1) \<Rightarrow> (Some (wrapped ''reconcile participant results: update participant''), s1)
      | (Inr _, s1) \<Rightarrow> write_unset ctx i results s1)"

definition pg_ReconcileParticipantResults ::
  "bool \<Rightarrow> race_id \<Rightarrow> race_result_json list \<Rightarrow> db \<Rightarrow> go_error option \<times> db" where
  "pg_ReconcileParticipantResults ctx i results = transaction ctx (write_unset ctx i results)"

subsection \<open>Cancelling and listing\<close>

definition update_cancelled :: "race_id \<Rightarrow> db \<Rightarrow> (pg_error + unit) \<times> db_tables" where
  "update_cancelled i s =
     (let t = tables s in
      (Inr (), case mget (races t) i of None \<Rightarrow> t
         | Some row \<Rightarrow>
             if r_status row = ''pending''
             then t\<lparr>races := mput i (row\<lparr>r_status := ''cancelled'', r_ended_at := Some (db_now s)\<rparr>) (races t)\<rparr>
             else t))"

definition pg_CancelRace :: "bool \<Rightarrow> race_id \<Rightarrow> db \<Rightarrow> go_error option \<times> db" where
  "pg_CancelRace ctx i s = (case pg ctx (update_cancelled i) s of
       (Inl _, s1) \<Rightarrow> (Some (wrapped ''cancel race''), s1)
     | (Inr _, s1) \<Rightarrow> (None, s1))"

definition openRacesLimit :: nat where
  "openRacesLimit = 20"

definition is_open :: "user_id \<Rightarrow> db_tables \<Rightarrow> race_id \<times> race_row \<Rightarrow> bool" where
  "is_open u t = (\<lambda>(i, row). r_status row = ''pending'' \<and> mget (users t) (r_created_by row) \<noteq> None
     \<and> mget (race_participants t) (i, u) = None \<and> int (length (members t i)) < MaxParticipants)"

definition select_open :: "user_id \<Rightarrow> db_tables \<Rightarrow> open_race list" where
  "select_open u t =
     map (\<lambda>(i, row). \<lparr>or_ID = i, or_Name = r_name row, or_DistanceMeters = r_distance_meters row,
            or_HostDisplayName = u_display_name (the (mget (users t) (r_created_by row))),
            or_PlayerCount = int (length (members t i)), or_MaxPlayers = MaxParticipants,
            or_CreatedAt = r_created_at row\<rparr>)
       (take openRacesLimit
          (sort_key (\<lambda>kv. - r_created_at (snd kv)) (filter (is_open u t) (races t))))"

definition pg_ListOpenRaces :: "bool \<Rightarrow> user_id \<Rightarrow> db \<Rightarrow> (go_error + open_race list) \<times> db" where
  "pg_ListOpenRaces ctx u s = (case pg ctx (\<lambda>s. (Inr (select_open u (tables s)), tables s)) s of
       (Inl _, s1) \<Rightarrow> (Inl (wrapped ''list open races''), s1)
     | (Inr os, s1) \<Rightarrow> (Inr os, s1))"

definition pg_repo :: "db race_repo" where
  "pg_repo = \<lparr>repo_CreateRace = pg_CreateRace, repo_GetRace = pg_GetRace,
     repo_AddParticipant = pg_AddParticipant, repo_CountParticipants = pg_CountParticipants,
     repo_IsParticipant = pg_IsParticipant, repo_RemoveParticipant = pg_RemoveParticipant,
     repo_StartRace = pg_StartRace, repo_GetRaceText = pg_GetRaceText,
     repo_GetRaceWithParticipants = pg_GetRaceWithParticipants, repo_ListOpenRaces = pg_ListOpenRaces,
     repo_FinishRace = pg_FinishRace, repo_CancelRace = pg_CancelRace\<rparr>"

end
