(* ===== verification/Race_Store_Properties.thy ===== *)
theory Race_Store_Properties
  imports Race_Store
begin

text \<open>
  Integrity of the tables under every statement of the race repository, atomicity and effect of the
  transaction that ends a race, the guards of cancelling and reconciling, and the shape of
  generated race identifiers.
\<close>

section \<open>Statements\<close>

lemma pg_Inl: "pg ctx stmt s = (Inl e, s') \<Longrightarrow> s' = s\<lparr>stmt_no := Suc (stmt_no s)\<rparr>"
  by (auto simp: pg_def Let_def split: if_splits prod.splits sum.splits)

lemma pg_Inr:
  assumes "pg ctx stmt s = (Inr x, s')"
  obtains t where "stmt (s\<lparr>stmt_no := Suc (stmt_no s)\<rparr>) = (Inr x, t)"
    "s' = s\<lparr>stmt_no := Suc (stmt_no s), tables := t\<rparr>"
  using assms by (auto simp: pg_def Let_def split: if_splits prod.splits sum.splits)

lemma pg_no_fault:
  "\<not> ctx \<Longrightarrow> \<not> faults s (stmt_no s) \<Longrightarrow>
   pg ctx stmt s = (case stmt (s\<lparr>stmt_no := Suc (stmt_no s)\<rparr>) of
     (Inl e, _) \<Rightarrow> (Inl e, s\<lparr>stmt_no := Suc (stmt_no s)\<rparr>)
   | (Inr x, t) \<Rightarrow> (Inr x, s\<lparr>stmt_no := Suc (stmt_no s), tables := t\<rparr>))"
  by (simp add: pg_def Let_def)

lemma pg_read: "tables (snd (pg ctx (\<lambda>s. (f s, tables s)) s)) = tables s"
  by (simp add: pg_def Let_def split: sum.splits)

text \<open>A property of the rows that a statement keeps is kept by running it.\<close>

lemma pg_keeps:
  assumes "P (tables s)" "\<And>s. P (tables s) \<Longrightarrow> P (snd (stmt s))"
  shows "P (tables (snd (pg ctx stmt s)))"
  using assms(1) assms(2) [of "s\<lparr>stmt_no := Suc (stmt_no s)\<rparr>"]
  by (auto simp: pg_def Let_def split: prod.splits sum.splits)

lemma pg_keeps_eq: "pg ctx stmt s = (x, s') \<Longrightarrow> P (tables s) \<Longrightarrow> (\<And>s. P (tables s) \<Longrightarrow> P (snd (stmt s))) \<Longrightarrow>
    P (tables s')"
  using pg_keeps [of P s stmt ctx] by simp

section \<open>Integrity of the tables\<close>

definition race_row_ok :: "db_tables \<Rightarrow> race_row \<Rightarrow> bool" where
  "race_row_ok t row \<longleftrightarrow>
     mget (users t) (r_created_by row) \<noteq> None \<and>
     r_status row \<in> {''pending'', ''active'', ''finished'', ''cancelled''} \<and>
     (r_status row = ''pending'' \<longrightarrow> r_ended_at row = None \<and> r_prompt_text row = None)"

definition leaderboard_row_ok :: "leaderboard_row \<Rightarrow> bool" where
  "leaderboard_row_ok l \<longleftrightarrow>
     1 \<le> l_total_races l \<and> 0 \<le> l_total_wins l \<and> l_total_wins l \<le> l_total_races l"

definition tables_ok :: "db_tables \<Rightarrow> bool" where
  "tables_ok t \<longleftrightarrow>
     distinct (mkeys (races t)) \<and> distinct (mkeys (race_participants t)) \<and>
     distinct (mkeys (leaderboard_alltime t)) \<and>
     (\<forall>i row. mget (races t) i = Some row \<longrightarrow> race_row_ok t row) \<and>
     dom (mget (race_participants t)) \<subseteq> dom (mget (races t)) \<times> dom (mget (users t)) \<and>
     dom (mget (leaderboard_alltime t)) \<subseteq> dom (mget (users t)) \<and>
     (\<forall>u l. mget (leaderboard_alltime t) u = Some l \<longrightarrow> leaderboard_row_ok l)"

text \<open>What replacing one of the tables has to keep.\<close>

lemma races_ok:
  assumes "tables_ok t" "race_row_ok t row"
  shows "tables_ok (t\<lparr>races := mput i row (races t)\<rparr>)"
proof -
  have "race_row_ok (t\<lparr>races := m\<rparr>) = race_row_ok t" for m
    by (simp add: race_row_ok_def fun_eq_iff)
  then show ?thesis
    using assms dom_mput [of i row "races t"] by (auto simp: tables_ok_def distinct_update simp del: map_of_eq_Some_iff dom_map_of_conv_image_fst)
qed

lemma participants_ok:
  assumes "tables_ok t" "distinct (mkeys m)" "dom (mget m) \<subseteq> dom (mget (races t)) \<times> dom (mget (users t))"
  shows "tables_ok (t\<lparr>race_participants := m\<rparr>)"
proof -
  have "race_row_ok (t\<lparr>race_participants := m\<rparr>) = race_row_ok t"
    by (simp add: race_row_ok_def fun_eq_iff)
  with assms show ?thesis by (simp add: tables_ok_def)
qed

lemma leaderboard_ok:
  assumes "tables_ok t" "mget (users t) u \<noteq> None" "leaderboard_row_ok l"
  shows "tables_ok (t\<lparr>leaderboard_alltime := mput u l (leaderboard_alltime t)\<rparr>)"
proof -
  have "race_row_ok (t\<lparr>leaderboard_alltime := m\<rparr>) = race_row_ok t" for m
    by (simp add: race_row_ok_def fun_eq_iff)
  then show ?thesis
    using assms dom_mput [of u l "leaderboard_alltime t"] by (auto simp: tables_ok_def distinct_update simp del: map_of_eq_Some_iff dom_map_of_conv_image_fst)
qed

lemma insert_race_ok: "tables_ok (tables s) \<Longrightarrow> tables_ok (snd (insert_race i name n by s))"
  by (auto simp: insert_race_def Let_def race_row_ok_def intro!: races_ok)

lemma tables_okD:
  assumes "tables_ok t"
  shows "distinct (mkeys (race_participants t))"
    "dom (mget (race_participants t)) \<subseteq> dom (mget (races t)) \<times> dom (mget (users t))"
  using assms by (simp_all add: tables_ok_def)

lemma insert_participant_ok:
  assumes "tables_ok (tables s)"
  shows "tables_ok (snd (insert_participant i u s))"
proof -
  let ?t = "tables s"
  have "tables_ok (?t\<lparr>race_participants := mput (i, u) row (race_participants ?t)\<rparr>)"
    if "mget (races ?t) i \<noteq> None" "mget (users ?t) u \<noteq> None" for row
    using that tables_okD [OF assms]
    by (intro participants_ok [OF assms]) (simp add: distinct_update, unfold dom_mput, blast)
  with assms show ?thesis by (simp add: insert_participant_def Let_def)
qed

lemma delete_participant_ok:
  assumes "tables_ok (tables s)"
  shows "tables_ok (snd (delete_participant i u s))"
proof -
  let ?t = "tables s"
  have "tables_ok (?t\<lparr>race_participants := mdel (i, u) (race_participants ?t)\<rparr>)"
    using tables_okD [OF assms]
    by (intro participants_ok [OF assms]) (simp add: distinct_delete, unfold dom_mdel, blast)
  then show ?thesis by (simp add: delete_participant_def Let_def)
qed

text \<open>Replacing a row of \<^verbatim>\<open>races\<close> by one of the same creator.\<close>

lemma races_update_ok:
  assumes "tables_ok t" "mget (races t) i = Some row" "r_created_by row' = r_created_by row"
    "r_status row' \<in> {''active'', ''finished'', ''cancelled''}"
  shows "tables_ok (t\<lparr>races := mput i row' (races t)\<rparr>)"
proof -
  have "race_row_ok t row" using assms(1,2) unfolding tables_ok_def by blast
  with assms have "race_row_ok t row'" by (auto simp: race_row_ok_def)
  with assms(1) show ?thesis by (auto intro: races_ok)
qed

lemma update_start_ok: "tables_ok (tables s) \<Longrightarrow> tables_ok (snd (update_start i prompt s))"
  by (auto simp: update_start_def Let_def intro: races_update_ok split: option.split)

lemma update_finished_ok: "tables_ok (tables s) \<Longrightarrow> tables_ok (snd (update_finished i s))"
  by (auto simp: update_finished_def Let_def intro: races_update_ok split: option.split)

lemma update_cancelled_ok: "tables_ok (tables s) \<Longrightarrow> tables_ok (snd (update_cancelled i s))"
  by (auto simp: update_cancelled_def Let_def intro: races_update_ok split: option.split)

lemma participants_update_ok:
  assumes "tables_ok t" "mget (race_participants t) k = Some row"
  shows "tables_ok (t\<lparr>race_participants := mput k row' (race_participants t)\<rparr>)"
proof -
  have "dom (mget (mput k row' (race_participants t))) = dom (mget (race_participants t))"
    unfolding dom_mput using assms(2) by blast
  with tables_okD [OF assms(1)] show ?thesis
    by (intro participants_ok [OF assms(1)]) (simp_all only: distinct_update)
qed

lemma update_result_ok: "tables_ok (tables s) \<Longrightarrow> tables_ok (snd (update_result i res s))"
  by (auto simp: update_result_def Let_def intro: participants_update_ok split: option.split)

lemma update_unset_ok: "tables_ok (tables s) \<Longrightarrow> tables_ok (snd (update_unset i res s))"
  by (auto simp: update_unset_def Let_def intro: participants_update_ok split: option.split)

lemma won_range: "0 \<le> won res" "won res \<le> 1"
  by (simp_all add: won_def)

lemma leaderboard_entry_ok:
  assumes "\<And>l. old = Some l \<Longrightarrow> leaderboard_row_ok l"
  shows "leaderboard_row_ok (leaderboard_entry now n res old)"
  using assms won_range [of res]
  by (cases old) (force simp: leaderboard_entry_def leaderboard_row_ok_def)+

lemma upsert_leaderboard_ok:
  assumes "tables_ok (tables s)"
  shows "tables_ok (snd (upsert_leaderboard n res s))"
proof -
  have "leaderboard_row_ok (leaderboard_entry (db_now s) n res (mget (leaderboard_alltime (tables s)) (pr_UserID res)))"
    using assms by (intro leaderboard_entry_ok) (auto simp: tables_ok_def simp del: map_of_eq_Some_iff)
  with assms show ?thesis
    by (auto simp: upsert_leaderboard_def Let_def intro: leaderboard_ok)
qed

lemmas statements_ok = insert_race_ok insert_participant_ok delete_participant_ok update_start_ok
  update_finished_ok update_cancelled_ok update_result_ok update_unset_ok upsert_leaderboard_ok

section \<open>Transactions\<close>

lemma transaction_error:
  "transaction ctx body s = (Some e, s') \<Longrightarrow> tables s' = tables s"
  by (auto simp: transaction_def pg_noop_def dest!: pg_Inl elim!: pg_Inr split: prod.splits sum.splits option.splits)

lemma transaction_ok:
  assumes "transaction ctx body s = (None, s')"
  obtains s2 where "body (s\<lparr>stmt_no := Suc (stmt_no s)\<rparr>) = (None, s2)" "tables s' = tables s2"
  using assms
  by (auto simp: transaction_def pg_noop_def elim!: pg_Inr split: prod.splits sum.splits option.splits)

lemma transaction_keeps:
  assumes "P (tables s)"
    and "\<And>s2. body (s\<lparr>stmt_no := Suc (stmt_no s)\<rparr>) = (None, s2) \<Longrightarrow> P (tables s2)"
  shows "P (tables (snd (transaction ctx body s)))"
proof (cases "transaction ctx body s")
  case (Pair e s')
  show ?thesis
  proof (cases e)
    case None
    with Pair assms(2) show ?thesis by (metis snd_conv transaction_ok)
  next
    case (Some x)
    with Pair assms(1) transaction_error show ?thesis by (metis snd_conv)
  qed
qed

section \<open>Writing the results\<close>

text \<open>A frame for the loops over results: what every statement of the loop keeps, the loop keeps.\<close>

lemma write_results_keeps:
  assumes "P (tables s)" "\<And>res s. P (tables s) \<Longrightarrow> P (snd (update_result i res s))"
    "\<And>res s. P (tables s) \<Longrightarrow> P (snd (upsert_leaderboard n res s))"
  shows "P (tables (snd (write_results ctx i n results s)))"
  using assms(1)
proof (induction results arbitrary: s)
  case (Cons res results)
  show ?case
  proof (cases "pg ctx (update_result i res) s")
    case (Pair x s1)
    then have 1: "P (tables s1)" using pg_keeps_eq [of _ _ _ _ _ P] Cons.prems assms(2) by blast
    obtain y s2 where 2: "pg ctx (upsert_leaderboard n res) s1 = (y, s2)" by fastforce
    then have "P (tables s2)" using pg_keeps_eq [of _ _ _ _ _ P] 1 assms(3) by blast
    with 1 2 Pair Cons.IH show ?thesis by (simp split: sum.splits)
  qed
qed simp

lemma write_unset_keeps:
  assumes "P (tables s)" "\<And>res s. P (tables s) \<Longrightarrow> P (snd (update_unset i res s))"
  shows "P (tables (snd (write_unset ctx i results s)))"
  using assms(1)
proof (induction results arbitrary: s)
  case (Cons res results)
  obtain x s1 where 1: "pg ctx (update_unset i res) s = (x, s1)" by fastforce
  then have "P (tables s1)" using pg_keeps_eq [of _ _ _ _ _ P] Cons.prems assms(2) by blast
  with 1 Cons.IH show ?case by (simp split: sum.splits)
qed simp

text \<open>The tables a successful run of the loop leaves behind.\<close>

definition apply_result :: "time \<Rightarrow> race_id \<Rightarrow> int \<Rightarrow> participant_result \<Rightarrow> db_tables \<Rightarrow> db_tables" where
  "apply_result now i n res t =
     (let k = (i, pr_UserID res); u = pr_UserID res;
          ps = (case mget (race_participants t) k of None \<Rightarrow> race_participants t
            | Some row \<Rightarrow> mput k (row\<lparr>p_finish_rank := pr_FinishRank res, p_finish_time_ms := pr_FinishTimeMs res,
                  p_avg_pace_watt := Some (pr_AvgPaceWatt res),
                  p_disconnected_count := pr_DisconnectedCount res\<rparr>) (race_participants t))
      in t\<lparr>race_participants := ps,
           leaderboard_alltime := mput u (leaderboard_entry now n res (mget (leaderboard_alltime t) u)) (leaderboard_alltime t)\<rparr>)"

lemma update_upsert_tables:
  assumes "pg ctx (update_result i res) s = (Inr x, s1)" "pg ctx (upsert_leaderboard n res) s1 = (Inr y, s2)"
  shows "tables s2 = apply_result (db_now s) i n res (tables s)" "db_now s2 = db_now s"
    "mget (users (tables s)) (pr_UserID res) \<noteq> None"
  using assms
  by (auto simp: update_result_def upsert_leaderboard_def apply_result_def Let_def elim!: pg_Inr
      split: option.splits if_splits)

lemma write_results_tables:
  assumes "write_results ctx i n results s = (None, s')"
  shows "tables s' = fold (apply_result (db_now s) i n) results (tables s)"
  using assms
proof (induction results arbitrary: s)
  case (Cons res results)
  from Cons.prems obtain x s1 y s2 where
    st: "pg ctx (update_result i res) s = (Inr x, s1)" "pg ctx (upsert_leaderboard n res) s1 = (Inr y, s2)"
    and rest: "write_results ctx i n results s2 = (None, s')"
    by (auto split: prod.splits sum.splits)
  show ?case using Cons.IH [OF rest] update_upsert_tables [OF st] by simp
qed simp

lemma apply_result_simps [simp]:
  "users (apply_result now i n res t) = users t" "races (apply_result now i n res t) = races t"
  "workout_samples (apply_result now i n res t) = workout_samples t"
  by (simp_all add: apply_result_def Let_def)

lemma apply_result_participants:
  "mget (race_participants (apply_result now i n res t)) k =
     (if k = (i, pr_UserID res)
      then map_option (\<lambda>row. row\<lparr>p_finish_rank := pr_FinishRank res, p_finish_time_ms := pr_FinishTimeMs res,
                  p_avg_pace_watt := Some (pr_AvgPaceWatt res),
                  p_disconnected_count := pr_DisconnectedCount res\<rparr>) (mget (race_participants t) k)
      else mget (race_participants t) k)"
  by (auto simp: apply_result_def Let_def split: option.split)

lemma apply_result_leaderboard:
  "mget (leaderboard_alltime (apply_result now i n res t)) u =
     (if u = pr_UserID res then Some (leaderboard_entry now n res (mget (leaderboard_alltime t) u))
      else mget (leaderboard_alltime t) u)"
  by (simp add: apply_result_def Let_def)

lemma fold_results_other:
  "u \<notin> pr_UserID ` set results \<or> j \<noteq> i \<Longrightarrow>
   mget (race_participants (fold (apply_result now i n) results t)) (j, u) = mget (race_participants t) (j, u)"
  "u \<notin> pr_UserID ` set results \<Longrightarrow>
   mget (leaderboard_alltime (fold (apply_result now i n) results t)) u = mget (leaderboard_alltime t) u"
  "races (fold (apply_result now i n) results t) = races t"
  "users (fold (apply_result now i n) results t) = users t"
  by (induction results arbitrary: t) (auto simp: apply_result_participants apply_result_leaderboard)

lemma fold_results_user:
  assumes "distinct (map pr_UserID results)" "res \<in> set results"
  shows "mget (race_participants (fold (apply_result now i n) results t)) (i, pr_UserID res)
      = map_option (\<lambda>row. row\<lparr>p_finish_rank := pr_FinishRank res, p_finish_time_ms := pr_FinishTimeMs res,
                  p_avg_pace_watt := Some (pr_AvgPaceWatt res),
                  p_disconnected_count := pr_DisconnectedCount res\<rparr>) (mget (race_participants t) (i, pr_UserID res))"
    and "mget (leaderboard_alltime (fold (apply_result now i n) results t)) (pr_UserID res)
      = Some (leaderboard_entry now n res (mget (leaderboard_alltime t) (pr_UserID res)))"
  using assms
proof (induction results arbitrary: t)
  case (Cons x xs)
  have new: "pr_UserID x \<notin> pr_UserID ` set xs" if "distinct (map pr_UserID (x # xs))" using that by simp
  have old: "pr_UserID res \<noteq> pr_UserID x" if "distinct (map pr_UserID (x # xs))" "res \<in> set xs"
    using new [OF that(1)] that(2) by (metis imageI)
  { case 1 with Cons.IH(1) new old show ?case
      by (cases "res = x") (simp_all add: apply_result_participants fold_results_other) }
  { case 2 with Cons.IH(2) new old show ?case
      by (cases "res = x") (simp_all add: apply_result_leaderboard fold_results_other) }
qed simp_all

lemma FinishRace_error: "pg_FinishRace ctx i n results s = (Some e, s') \<Longrightarrow> tables s' = tables s"
  unfolding pg_FinishRace_def by (rule transaction_error)

lemma FinishRace_tables:
  assumes "pg_FinishRace ctx i n results s = (None, s')"
  shows "tables s' = fold (apply_result (db_now s) i n) results
    ((tables s)\<lparr>races := (case mget (races (tables s)) i of None \<Rightarrow> races (tables s)
       | Some row \<Rightarrow> mput i (row\<lparr>r_status := ''finished'', r_ended_at := Some (db_now s)\<rparr>) (races (tables s)))\<rparr>)"
proof -
  from assms obtain s2 where
    body: "(case pg ctx (update_finished i) (s\<lparr>stmt_no := Suc (stmt_no s)\<rparr>) of
       (Inl _, s1) \<Rightarrow> (Some (wrapped ''finish race: update race''), s1)
     | (Inr _, s1) \<Rightarrow> write_results ctx i n results s1) = (None, s2)" and t: "tables s' = tables s2"
    unfolding pg_FinishRace_def by (rule transaction_ok)
  from body obtain x s1 where "pg ctx (update_finished i) (s\<lparr>stmt_no := Suc (stmt_no s)\<rparr>) = (Inr x, s1)"
    and w: "write_results ctx i n results s1 = (None, s2)"
    by (auto split: prod.splits sum.splits)
  then have "db_now s1 = db_now s" "tables s1 = (tables s)\<lparr>races := (case mget (races (tables s)) i of
      None \<Rightarrow> races (tables s)
    | Some row \<Rightarrow> mput i (row\<lparr>r_status := ''finished'', r_ended_at := Some (db_now s)\<rparr>) (races (tables s)))\<rparr>"
    by (auto simp: update_finished_def Let_def elim!: pg_Inr split: option.splits)
  with write_results_tables [OF w] t show ?thesis by simp
qed

lemma FinishRace_keeps:
  assumes "P (tables s)" "\<And>s. P (tables s) \<Longrightarrow> P (snd (update_finished i s))"
    "\<And>res s. P (tables s) \<Longrightarrow> P (snd (update_result i res s))"
    "\<And>res s. P (tables s) \<Longrightarrow> P (snd (upsert_leaderboard n res s))"
  shows "P (tables (snd (pg_FinishRace ctx i n results s)))"
  unfolding pg_FinishRace_def
proof (rule transaction_keeps [of P, OF assms(1)])
  fix s2
  assume "(case pg ctx (update_finished i) (s\<lparr>stmt_no := Suc (stmt_no s)\<rparr>) of
       (Inl _, s1) \<Rightarrow> (Some (wrapped ''finish race: update race''), s1)
     | (Inr _, s1) \<Rightarrow> write_results ctx i n results s1) = (None, s2)"
  then obtain x s1 where 1: "pg ctx (update_finished i) (s\<lparr>stmt_no := Suc (stmt_no s)\<rparr>) = (Inr x, s1)"
    and w: "write_results ctx i n results s1 = (None, s2)"
    by (auto split: prod.splits sum.splits)
  have "P (tables s1)" using pg_keeps_eq [OF 1, of P] assms(1,2) by simp
  with write_results_keeps [of P s1 i n ctx results] assms(3,4) w show "P (tables s2)" by simp
qed

lemma Reconcile_keeps:
  assumes "P (tables s)" "\<And>res s. P (tables s) \<Longrightarrow> P (snd (update_unset i res s))"
  shows "P (tables (snd (pg_ReconcileParticipantResults ctx i results s)))"
  unfolding pg_ReconcileParticipantResults_def
proof (rule transaction_keeps [of P, OF assms(1)])
  fix s2
  assume "write_unset ctx i results (s\<lparr>stmt_no := Suc (stmt_no s)\<rparr>) = (None, s2)"
  with write_unset_keeps [of P "s\<lparr>stmt_no := Suc (stmt_no s)\<rparr>" i ctx results] assms
  show "P (tables s2)" by simp
qed

lemma update_unset_ranked:
  assumes "mget (race_participants (tables s)) k = Some row" "p_finish_rank row \<noteq> None"
  shows "mget (race_participants (snd (update_unset i res s))) k = Some row"
  using assms by (auto simp: update_unset_def Let_def simp del: map_of_eq_Some_iff split: option.split)

lemma update_unset_same:
  assumes "\<And>row. mget (race_participants (tables s)) (i, rj_UserID res) = Some row \<Longrightarrow> p_finish_rank row \<noteq> None"
  shows "snd (update_unset i res s) = tables s"
  using assms by (auto simp: update_unset_def Let_def split: option.split)

text \<open>Where every listed participant has a rank already, the loop changes no row.\<close>

lemma write_unset_all_set:
  assumes "write_unset ctx i (map toRaceResultJSON rs) s = (None, s')"
    and "\<And>res row. res \<in> set rs \<Longrightarrow> mget (race_participants (tables s)) (i, pr_UserID res) = Some row
      \<Longrightarrow> p_finish_rank row \<noteq> None"
  shows "tables s' = tables s"
  using assms
proof (induction rs arbitrary: s)
  case (Cons res rs)
  then obtain x s1 where 1: "pg ctx (update_unset i (toRaceResultJSON res)) s = (Inr x, s1)"
    "write_unset ctx i (map toRaceResultJSON rs) s1 = (None, s')"
    by (auto split: prod.splits sum.splits)
  have "tables s1 = tables s"
  proof (rule pg_keeps_eq [OF 1(1), of "\<lambda>t. t = tables s"])
    fix s2 :: db
    assume "tables s2 = tables s"
    with update_unset_same [of s2 i "toRaceResultJSON res"] Cons.prems(2) [of res]
    show "snd (update_unset i (toRaceResultJSON res) s2) = tables s" by (simp add: toRaceResultJSON_def)
  qed simp
  moreover have "tables s' = tables s1"
    by (rule Cons.IH [OF 1(2)]) (use Cons.prems(2) calculation in \<open>metis list.set_intros(2)\<close>)
  ultimately show ?case by simp
qed simp

section \<open>Creating a race\<close>

lemma race_id_alphabet: "list_all race_id_char base58Alphabet"
  by (simp add: base58Alphabet_def race_id_char_def in_range_def)

lemma generate_chars_valid:
  "generate_chars n s = (Some cs, s') \<Longrightarrow> length cs = n \<and> list_all race_id_char cs"
proof (induction n arbitrary: s cs s')
  case (Suc n)
  then obtain k s1 ds where k: "rand_Int (length base58Alphabet) s = (Some k, s1)"
    and ds: "generate_chars n s1 = (Some ds, s')" "cs = base58Alphabet ! k # ds"
    by (auto split: prod.splits option.splits)
  have "k < length base58Alphabet" using k by (auto simp: rand_Int_def base58Alphabet_def)
  then have "race_id_char (base58Alphabet ! k)" using race_id_alphabet by (simp add: list_all_length)
  with Suc.IH [OF ds(1)] ds(2) show ?case by simp
qed simp

lemma GenerateRaceID_valid: "GenerateRaceID s = (Inr i, s') \<Longrightarrow> isValidRaceID i"
  by (auto simp: GenerateRaceID_def isValidRaceID_def raceIDLength_def split: prod.splits option.splits
      dest: generate_chars_valid)

lemma generate_chars_tables: "generate_chars n s = (x, s') \<Longrightarrow> tables s' = tables s \<and> db_now s' = db_now s"
proof (induction n arbitrary: s x s')
  case (Suc n)
  then show ?case by (fastforce simp: rand_Int_def split: prod.splits option.splits)
qed simp

lemma GenerateRaceID_tables: "GenerateRaceID s = (x, s') \<Longrightarrow> tables s' = tables s \<and> db_now s' = db_now s"
  by (auto simp: GenerateRaceID_def split: prod.splits option.splits dest: generate_chars_tables)

lemma CreateRace_keeps:
  assumes "P (tables s)" "\<And>i s. P (tables s) \<Longrightarrow> P (snd (insert_race i name n by s))"
  shows "P (tables (snd (CreateRace_attempts k ctx name n by s)))"
  using assms(1)
proof (induction k arbitrary: s)
  case (Suc k)
  obtain g s1 where g: "GenerateRaceID s = (g, s1)" by fastforce
  then have 1: "P (tables s1)" using Suc.prems GenerateRaceID_tables [OF g] by simp
  show ?case
  proof (cases g)
    case (Inr i)
    obtain x s2 where 2: "pg ctx (insert_race i name n by) s1 = (x, s2)" by fastforce
    have "P (tables s2)" using pg_keeps_eq [OF 2, of P] 1 assms(2) by blast
    with Suc.IH g Inr 2 show ?thesis by (simp split: sum.splits pg_error.splits)
  qed (use g 1 in simp)
qed simp

lemma CreateRace_attempts_effect:
  assumes "CreateRace_attempts k ctx name n u s = (out, s')"
  shows "case out of
      Inl e \<Rightarrow> tables s' = tables s
    | Inr rc \<Rightarrow> isValidRaceID (ID rc) \<and> mget (races (tables s)) (ID rc) = None
       \<and> rc = \<lparr>ID = ID rc, Name = name, DistanceMeters = n, Status = ''pending'', CreatedBy = u,
                CreatedAt = db_now s, StartedAt = None, PromptText = None\<rparr>
       \<and> tables s' = (tables s)\<lparr>races := mput (ID rc)
           \<lparr>r_name = name, r_distance_meters = n, r_status = ''pending'', r_created_by = u, r_started_at = None,
            r_ended_at = None, r_created_at = db_now s, r_prompt_text = None\<rparr> (races (tables s))\<rparr>"
  using assms
proof (induction k arbitrary: s)
  case (Suc k)
  obtain g s1 where g: "GenerateRaceID s = (g, s1)" by fastforce
  note g' = GenerateRaceID_tables [OF g]
  show ?case
  proof (cases g)
    case (Inl e)
    with g g' Suc.prems show ?thesis by auto
  next
    case (Inr i)
    obtain x s2 where x: "pg ctx (insert_race i name n u) s1 = (x, s2)" by fastforce
    show ?thesis
    proof (cases x)
      case (Inr rc)
      with x g' obtain t where "insert_race i name n u (s1\<lparr>stmt_no := Suc (stmt_no s1)\<rparr>) = (Inr rc, t)"
        "tables s2 = t" by (auto elim!: pg_Inr)
      with Suc.prems g \<open>g = Inr i\<close> x Inr GenerateRaceID_valid [of s i s1] g' show ?thesis
        by (auto simp: insert_race_def race_of_row_def Let_def split: if_splits)
    next
      case (Inl e)
      then have "tables s2 = tables s" "db_now s2 = db_now s" using x pg_Inl [of ctx _ s1] g' by fastforce+
      with Suc.prems g \<open>g = Inr i\<close> x Inl Suc.IH [of s2] show ?thesis
        by (cases e) (auto split: sum.splits)
    qed
  qed
qed auto

text \<open>What the first entries of a sorted list leave out comes later in the order.\<close>

lemma take_or_later:
  assumes "sorted_wrt P xs" "x \<in> set xs"
  shows "x \<in> set (take n xs) \<or> length (take n xs) = n \<and> (\<forall>y \<in> set (take n xs). P y x)"
proof (cases "x \<in> set (take n xs)")
  case False
  have "x \<in> set (take n xs @ drop n xs)" using assms(2) by simp
  with False have x: "x \<in> set (drop n xs)" by (simp del: append_take_drop_id)
  then have "n < length xs" by (metis drop_eq_Nil empty_iff list.set(1) not_le)
  moreover have "sorted_wrt P (take n xs @ drop n xs)" using assms(1) by simp
  ultimately show ?thesis using x by (simp add: sorted_wrt_append del: append_take_drop_id)
qed simp

section \<open>A small database\<close>

definition demo_tables :: db_tables where
  "demo_tables =
     \<lparr>users = [(''a'', \<lparr>u_email = ''a@x'', u_display_name = ''Ann'', u_password_hash = '''', u_created_at = 0\<rparr>),
               (''b'', \<lparr>u_email = ''b@x'', u_display_name = ''Bob'', u_password_hash = '''', u_created_at = 0\<rparr>)],
      races = [(''r1'', \<lparr>r_name = ''sprint'', r_distance_meters = 2, r_status = ''pending'', r_created_by = ''a'',
                 r_started_at = None, r_ended_at = None, r_created_at = 1, r_prompt_text = None\<rparr>)],
      race_participants = [((''r1'', ''a''), \<lparr>p_finish_rank = None, p_finish_time_ms = None,
                 p_avg_pace_watt = None, p_disconnected_count = 0, p_joined_at = 1\<rparr>)],
      leaderboard_alltime = [], workout_samples = []\<rparr>"

definition demo_db :: db where
  "demo_db = \<lparr>tables = demo_tables, db_now = 5, stmt_no = 0, faults = (\<lambda>_. False),
     rand_src = (\<lambda>_. Some 0), rand_pos = 0\<rparr>"

definition demo_result :: participant_result where
  "demo_result = \<lparr>pr_UserID = ''a'', pr_FinishRank = Some 1, pr_FinishTimeMs = Some 900,
     pr_AvgPaceWatt = 60, pr_DisconnectedCount = 0\<rparr>"

lemma demo_tables_ok: "tables_ok demo_tables"
  by (auto simp: demo_tables_def tables_ok_def race_row_ok_def dom_def)

lemma demo_db_simps [simp]:
  "tables demo_db = demo_tables" "db_now demo_db = 5" "\<not> faults demo_db k" "stmt_no demo_db = 0"
  by (simp_all add: demo_db_def)

lemma demo_GenerateRaceID:
  "GenerateRaceID demo_db = (Inr ''111111111111'', demo_db\<lparr>rand_pos := 12\<rparr>)"
proof -
  have "generate_chars n (demo_db\<lparr>rand_pos := k\<rparr>) = (Some (replicate n (CHR ''1'')), demo_db\<lparr>rand_pos := k + n\<rparr>)" for n k
    by (induction n arbitrary: k) (simp_all add: rand_Int_def demo_db_def base58Alphabet_def)
  from this [of 12 0] show ?thesis
    by (simp add: GenerateRaceID_def raceIDLength_def demo_db_def numeral_eq_Suc)
qed

section \<open>Properties\<close>

text \<open>C39: Every method of the repository that writes keeps the tables sound, whatever statement fails
  and whatever is inserted: keys are unique, statuses are the four of the life cycle, a pending race
  has neither end nor prompt, every participant belongs to a race and a user that exist, and a
  leaderboard row counts at least one race and no more wins than races.\<close>

theorem store_integrity:
  assumes "tables_ok (tables s)"
  shows "tables_ok (tables (snd (pg_CreateRace ctx name n u s)))
    \<and> tables_ok (tables (snd (pg_AddParticipant ctx i u s)))
    \<and> tables_ok (tables (snd (pg_RemoveParticipant ctx i u s)))
    \<and> tables_ok (tables (snd (pg_StartRace ctx i prompt s)))
    \<and> tables_ok (tables (snd (pg_FinishRace ctx i n results s)))
    \<and> tables_ok (tables (snd (pg_ReconcileParticipantResults ctx i jsons s)))
    \<and> tables_ok (tables (snd (pg_CancelRace ctx i s)))"
proof (intro conjI)
  show "tables_ok (tables (snd (pg_CreateRace ctx name n u s)))"
    unfolding pg_CreateRace_def by (rule CreateRace_keeps) (simp_all add: assms statements_ok)
  show "tables_ok (tables (snd (pg_FinishRace ctx i n results s)))"
    by (rule FinishRace_keeps) (simp_all add: assms statements_ok)
  show "tables_ok (tables (snd (pg_ReconcileParticipantResults ctx i jsons s)))"
    by (rule Reconcile_keeps) (simp_all add: assms statements_ok)
  have 1: "tables_ok (tables (snd (pg ctx (insert_participant i u) s)))"
    "tables_ok (tables (snd (pg ctx (delete_participant i u) s)))"
    "tables_ok (tables (snd (pg ctx (update_start i prompt) s)))"
    "tables_ok (tables (snd (pg ctx (update_cancelled i) s)))"
    by (rule pg_keeps; simp add: assms statements_ok)+
  show "tables_ok (tables (snd (pg_AddParticipant ctx i u s)))"
    using 1 by (auto simp: pg_AddParticipant_def split: prod.splits sum.splits pg_error.splits)
  show "tables_ok (tables (snd (pg_RemoveParticipant ctx i u s)))"
    using 1 by (auto simp: pg_RemoveParticipant_def split: prod.splits sum.splits)
  show "tables_ok (tables (snd (pg_StartRace ctx i prompt s)))"
    using 1 by (auto simp: pg_StartRace_def split: prod.splits sum.splits)
  show "tables_ok (tables (snd (pg_CancelRace ctx i s)))"
    using 1 by (auto simp: pg_CancelRace_def split: prod.splits sum.splits)
qed

theorem store_integrity_witness:
  "tables_ok (tables (snd (pg_FinishRace False ''r1'' 2 [demo_result] demo_db)))"
  using store_integrity [of demo_db] demo_tables_ok by simp

text \<open>C3: Ending a race is one transaction. If it fails anywhere, no row has changed. If it succeeds,
  the race is finished at the current time, each listed participant's row carries the result, each
  listed user's totals include this race once (a win exactly for rank 1, the best time never
  worse), and every other race, participant and leaderboard row is untouched.\<close>

theorem finish_all_or_nothing:
  assumes "pg_FinishRace ctx i n results s = (e, s')" "distinct (map pr_UserID results)"
    and "t = tables s" "t' = tables s'"
  shows "if e \<noteq> None then t' = t else
    (\<forall>j. mget (races t') j = (if j = i then map_option (\<lambda>row. row\<lparr>r_status := ''finished'',
        r_ended_at := Some (db_now s)\<rparr>) (mget (races t) i) else mget (races t) j))
    \<and> (\<forall>res \<in> set results.
        mget (race_participants t') (i, pr_UserID res) = map_option (\<lambda>row. row\<lparr>
          p_finish_rank := pr_FinishRank res, p_finish_time_ms := pr_FinishTimeMs res,
          p_avg_pace_watt := Some (pr_AvgPaceWatt res), p_disconnected_count := pr_DisconnectedCount res\<rparr>)
          (mget (race_participants t) (i, pr_UserID res))
        \<and> mget (leaderboard_alltime t') (pr_UserID res)
          = Some (leaderboard_entry (db_now s) n res (mget (leaderboard_alltime t) (pr_UserID res))))
    \<and> (\<forall>j u. u \<notin> pr_UserID ` set results \<or> j \<noteq> i
        \<longrightarrow> mget (race_participants t') (j, u) = mget (race_participants t) (j, u))
    \<and> (\<forall>u. u \<notin> pr_UserID ` set results \<longrightarrow> mget (leaderboard_alltime t') u = mget (leaderboard_alltime t) u)"
proof (cases e)
  case (Some x)
  with assms(1,3,4) show ?thesis by (simp add: FinishRace_error)
next
  case None
  let ?t0 = "t\<lparr>races := (case mget (races t) i of None \<Rightarrow> races t
       | Some row \<Rightarrow> mput i (row\<lparr>r_status := ''finished'', r_ended_at := Some (db_now s)\<rparr>) (races t))\<rparr>"
  have t': "t' = fold (apply_result (db_now s) i n) results ?t0"
    unfolding assms(3,4) by (rule FinishRace_tables [OF assms(1) [unfolded None]])
  have "mget (races t') j = (if j = i then map_option (\<lambda>row. row\<lparr>r_status := ''finished'',
        r_ended_at := Some (db_now s)\<rparr>) (mget (races t) i) else mget (races t) j)" for j
    by (simp add: t' fold_results_other split: option.split)
  with None show ?thesis
    by (simp add: t' fold_results_other fold_results_user [OF assms(2)])
qed

theorem finish_all_or_nothing_witness:
  "mget (leaderboard_alltime (tables (snd (pg_FinishRace False ''r1'' 2 [demo_result] demo_db)))) ''a''
     = Some (leaderboard_entry 5 2 demo_result None)
   \<and> tables (snd (pg_FinishRace True ''r1'' 2 [demo_result] demo_db)) = demo_tables"
proof
  have ok: "fst (pg_FinishRace False ''r1'' 2 [demo_result] demo_db) = None"
    by (simp add: pg_FinishRace_def transaction_def pg_def pg_noop_def update_finished_def update_result_def
        upsert_leaderboard_def demo_tables_def demo_result_def Let_def)
  have u: "pr_UserID demo_result = ''a''" "mget (leaderboard_alltime demo_tables) ''a'' = None"
    by (simp_all add: demo_result_def demo_tables_def)
  from finish_all_or_nothing [of False "''r1''" 2 "[demo_result]" demo_db, OF prod.collapse [symmetric] _ refl refl]
  show "mget (leaderboard_alltime (tables (snd (pg_FinishRace False ''r1'' 2 [demo_result] demo_db)))) ''a''
     = Some (leaderboard_entry 5 2 demo_result None)"
    using ok u by simp
  have bad: "fst (pg_FinishRace True ''r1'' 2 [demo_result] demo_db) \<noteq> None"
    by (simp add: pg_FinishRace_def transaction_def pg_def Let_def)
  from finish_all_or_nothing [of True "''r1''" 2 "[demo_result]" demo_db, OF prod.collapse [symmetric] _ refl refl] bad
  show "tables (snd (pg_FinishRace True ''r1'' 2 [demo_result] demo_db)) = demo_tables" by simp
qed

text \<open>Reconciling results from the event log only ever fills gaps: a participant row that has a rank
  keeps every field, whatever the log says and whatever fails; races and leaderboard are not
  touched. After a race that ended normally it changes nothing at all.\<close>

theorem reconcile_only_fills:
  assumes "s' = snd (pg_ReconcileParticipantResults ctx i jsons s)"
  shows "(\<forall>k row. mget (race_participants (tables s)) k = Some row \<and> p_finish_rank row \<noteq> None
      \<longrightarrow> mget (race_participants (tables s')) k = Some row)
    \<and> races (tables s') = races (tables s) \<and> leaderboard_alltime (tables s') = leaderboard_alltime (tables s)
    \<and> (\<forall>n results s0. pg_FinishRace ctx i n results s0 = (None, s) \<and> distinct (map pr_UserID results)
        \<and> (\<forall>res \<in> set results. pr_FinishRank res \<noteq> None) \<and> jsons = map toRaceResultJSON results
      \<longrightarrow> tables s' = tables s)"
proof (intro conjI allI impI; (elim conjE)?)
  fix k row
  assume row: "mget (race_participants (tables s)) k = Some row" "p_finish_rank row \<noteq> None"
  show "mget (race_participants (tables s')) k = Some row"
    unfolding assms
    by (rule Reconcile_keeps [where P = "\<lambda>t. mget (race_participants t) k = Some row"])
      (use row update_unset_ranked in blast)+
next
  show "races (tables s') = races (tables s)"
    unfolding assms by (rule Reconcile_keeps [where P = "\<lambda>t. races t = races (tables s)"])
      (auto simp: update_unset_def Let_def split: option.split)
  show "leaderboard_alltime (tables s') = leaderboard_alltime (tables s)"
    unfolding assms by (rule Reconcile_keeps [where P = "\<lambda>t. leaderboard_alltime t = leaderboard_alltime (tables s)"])
      (auto simp: update_unset_def Let_def split: option.split)
next
  fix n results s0
  assume fin: "pg_FinishRace ctx i n results s0 = (None, s)" "distinct (map pr_UserID results)"
    "\<forall>res \<in> set results. pr_FinishRank res \<noteq> None" and js: "jsons = map toRaceResultJSON results"
  then have "p_finish_rank row \<noteq> None"
    if "res \<in> set results" "mget (race_participants (tables s)) (i, pr_UserID res) = Some row" for res row
    using that fold_results_user(1) [OF fin(2) that(1)] FinishRace_tables [OF fin(1)] by auto
  then have "tables s2 = tables s"
    if "write_unset ctx i jsons (s\<lparr>stmt_no := m\<rparr>) = (None, s2)" for m s2
    using write_unset_all_set [of ctx i results "s\<lparr>stmt_no := m\<rparr>" s2] that js by auto
  then show "tables s' = tables s"
    unfolding assms pg_ReconcileParticipantResults_def
    by (intro transaction_keeps [where P = "\<lambda>t. t = tables s"]) auto
qed

theorem reconcile_only_fills_witness:
  "races (tables (snd (pg_ReconcileParticipantResults False ''r1'' [toRaceResultJSON demo_result] demo_db)))
     = races demo_tables"
  using reconcile_only_fills [OF refl, where ctx = False and i = "''r1''" and jsons = "[toRaceResultJSON demo_result]" and s = demo_db]
  by simp

text \<open>A created race has an identifier that the HTTP handlers accept and that no race had before;
  it starts pending with the given name, length and creator, and no other row changes. When
  creation fails, for whatever reason, no row has changed.\<close>

theorem create_race_fresh:
  "case pg_CreateRace ctx name n u s of
     (Inl e, s') \<Rightarrow> tables s' = tables s
   | (Inr rc, s') \<Rightarrow> isValidRaceID (ID rc) \<and> mget (races (tables s)) (ID rc) = None
       \<and> rc = \<lparr>ID = ID rc, Name = name, DistanceMeters = n, Status = ''pending'', CreatedBy = u,
                CreatedAt = db_now s, StartedAt = None, PromptText = None\<rparr>
       \<and> tables s' = (tables s)\<lparr>races := mput (ID rc)
           \<lparr>r_name = name, r_distance_meters = n, r_status = ''pending'', r_created_by = u, r_started_at = None,
            r_ended_at = None, r_created_at = db_now s, r_prompt_text = None\<rparr> (races (tables s))\<rparr>"
proof -
  obtain out s' where "pg_CreateRace ctx name n u s = (out, s')" by fastforce
  then show ?thesis
    using CreateRace_attempts_effect [of maxCreateRaceAttempts ctx name n u s out s']
    by (cases out) (auto simp: pg_CreateRace_def)
qed

text \<open>Cancelling is guarded by the status: only a pending race is turned into a cancelled one with
  an end time; a race that has been started, finished or cancelled already, or does not exist, stays
  as it is, and so does every other row.\<close>

theorem cancel_only_pending:
  "\<exists>e. pg_CancelRace ctx i s = (e, s\<lparr>stmt_no := Suc (stmt_no s), tables := (tables s)\<lparr>races :=
     (case mget (races (tables s)) i of
        Some row \<Rightarrow> if e = None \<and> r_status row = ''pending''
          then mput i (row\<lparr>r_status := ''cancelled'', r_ended_at := Some (db_now s)\<rparr>) (races (tables s))
          else races (tables s)
      | None \<Rightarrow> races (tables s))\<rparr>\<rparr>)"
  by (auto simp: pg_CancelRace_def pg_def update_cancelled_def Let_def split: option.split)

text \<open>The list of open races holds at most 20 races, newest first; every race on it is pending, has
  a free place and does not have the caller among its participants; and a race of this kind is
  missing from it only when 20 others at least as new are listed.\<close>

theorem open_races_listed:
  assumes "os = select_open u t" "distinct (mkeys (races t))"
  shows "length os \<le> 20 \<and> sorted_wrt (\<lambda>x y. or_CreatedAt y \<le> or_CreatedAt x) os
    \<and> (\<forall>x \<in> set os. \<exists>row. mget (races t) (or_ID x) = Some row \<and> r_status row = ''pending''
        \<and> or_CreatedAt x = r_created_at row \<and> or_PlayerCount x = int (length (members t (or_ID x)))
        \<and> or_PlayerCount x < 10 \<and> mget (race_participants t) (or_ID x, u) = None)
    \<and> (\<forall>i row. mget (races t) i = Some row \<and> is_open u t (i, row)
        \<longrightarrow> i \<in> or_ID ` set os \<or> length os = 20 \<and> (\<forall>x \<in> set os. r_created_at row \<le> or_CreatedAt x))"
proof -
  let ?srt = "sort_key (\<lambda>kv. - r_created_at (snd kv)) (filter (is_open u t) (races t))"
  let ?f = "\<lambda>(i, row). \<lparr>or_ID = i, or_Name = r_name row, or_DistanceMeters = r_distance_meters row,
            or_HostDisplayName = u_display_name (the (mget (users t) (r_created_by row))),
            or_PlayerCount = int (length (members t i)), or_MaxPlayers = MaxParticipants,
            or_CreatedAt = r_created_at row\<rparr>"
  have os: "os = map ?f (take 20 ?srt)" by (simp add: assms(1) select_open_def openRacesLimit_def)
  have srt: "sorted_wrt (\<lambda>x y. r_created_at (snd y) \<le> r_created_at (snd x)) ?srt"
    using sorted_sort_key [of "\<lambda>kv. - r_created_at (snd kv)" "filter (is_open u t) (races t)"]
    by (simp add: sorted_map)
  have 1: "sorted_wrt (\<lambda>x y. or_CreatedAt y \<le> or_CreatedAt x) os"
    using sorted_wrt_take [OF srt, of 20] by (simp add: os sorted_wrt_map case_prod_unfold)
  have mem: "kv \<in> set ?srt \<longleftrightarrow> mget (races t) (fst kv) = Some (snd kv) \<and> is_open u t kv" for kv
    using assms(2) by (cases kv) auto
  have 2: "\<exists>row. mget (races t) (or_ID x) = Some row \<and> r_status row = ''pending''
        \<and> or_CreatedAt x = r_created_at row \<and> or_PlayerCount x = int (length (members t (or_ID x)))
        \<and> or_PlayerCount x < 10 \<and> mget (race_participants t) (or_ID x, u) = None" if "x \<in> set os" for x
    using that mem set_take_subset [of 20 ?srt]
    by (fastforce simp: os is_open_def MaxParticipants_def simp del: set_sort map_of_eq_Some_iff)
  have 3: "i \<in> or_ID ` set os \<or> length os = 20 \<and> (\<forall>x \<in> set os. r_created_at row \<le> or_CreatedAt x)"
    if "mget (races t) i = Some row" "is_open u t (i, row)" for i row
    using take_or_later [OF srt, of "(i, row)" 20] mem [of "(i, row)"] that
    by (force simp: os simp del: set_sort map_of_eq_Some_iff)
  have "length os \<le> 20" by (simp add: os)
  with 1 2 3 show ?thesis by blast
qed

theorem open_races_listed_witness:
  "map or_ID (select_open ''b'' demo_tables) = [''r1''] \<and> length (select_open ''b'' demo_tables) \<le> 20"
proof
  show "map or_ID (select_open ''b'' demo_tables) = [''r1'']"
    by (simp add: demo_tables_def select_open_def is_open_def members_def openRacesLimit_def MaxParticipants_def)
  have "distinct (mkeys (races demo_tables))" by (simp add: demo_tables_def)
  from open_races_listed [OF refl this, of "''b''"] show "length (select_open ''b'' demo_tables) \<le> 20" by blast
qed

end
