(* ===== verification/Room_Invariant.thy ===== *)
theory Room_Invariant
  imports Room_Actor
begin

text \<open>
  The well-formedness invariant of a room actor and its preservation by every event, whatever the
  collaborators answer. The invariant ties the finish ranks to the finish counter, keeps ranks
  unique across live and departed participants, bounds the counters by the number of participants
  the room has seen, and keeps the broadcast buffer within its capacity.
\<close>

section \<open>The invariant\<close>

definition entry_ok :: "room_actor \<Rightarrow> user_id \<Rightarrow> participant \<Rightarrow> bool" where
  "entry_ok r u p \<longleftrightarrow>
     UserID p = u \<and>
     (FinishRank p = None \<longleftrightarrow> FinishedAt p = None) \<and>
     (\<forall>n. FinishRank p = Some n \<longrightarrow> 1 \<le> n \<and> n \<le> finishedCount r) \<and>
     (\<not> active r \<longrightarrow> FinishRank p = None) \<and>
     (DisconnectedAt p = None \<longrightarrow> graceTimer p = None) \<and>
     0 \<le> DisconnectedCount p"

definition entries_ok :: "room_actor \<Rightarrow> bool" where
  "entries_ok r \<longleftrightarrow>
     distinct (mkeys (participants r)) \<and> distinct (mkeys (departedParticipants r)) \<and>
     (\<forall>u p. mget (participants r) u = Some p \<longrightarrow> entry_ok r u p) \<and>
     (\<forall>u p. mget (departedParticipants r) u = Some p \<longrightarrow> entry_ok r u p)"

text \<open>The finish rank held by the live (\<open>True\<close>) or departed (\<open>False\<close>) entry of a user.\<close>

fun rank_at :: "(user_id \<times> participant) list \<Rightarrow> (user_id \<times> participant) list \<Rightarrow>
    bool \<times> user_id \<Rightarrow> int option" where
  "rank_at live gone (b, u) =
     (case mget (if b then live else gone) u of None \<Rightarrow> None | Some p \<Rightarrow> FinishRank p)"

definition ranks_unique :: "(user_id \<times> participant) list \<Rightarrow> (user_id \<times> participant) list \<Rightarrow> bool" where
  "ranks_unique live gone \<longleftrightarrow> inj_map (rank_at live gone)"

definition counts_ok :: "room_actor \<Rightarrow> bool" where
  "counts_ok r \<longleftrightarrow>
     0 \<le> finishedCount r \<and>
     (\<not> active r \<longrightarrow> finishedCount r = 0) \<and>
     finishedCount r + int (mcount racing (participants r))
       + int (mcount racing (departedParticipants r)) \<le> totalParticipants r"

definition room_inv :: "room_actor \<Rightarrow> bool" where
  "room_inv r \<longleftrightarrow>
     entries_ok r \<and>
     ranks_unique (participants r) (departedParticipants r) \<and>
     counts_ok r \<and>
     fst ` set (departedParticipants r) \<subseteq> evicted r \<and>
     (finished r \<longrightarrow> cancelled r) \<and>
     length (broadcast r) \<le> broadcast_cap r"

lemmas room_inv_defs = room_inv_def entries_ok_def entry_ok_def ranks_unique_def counts_ok_def

section \<open>Operations that only end a room or speak to its listeners\<close>

text \<open>\<open>r'\<close> is \<open>r\<close> except for its broadcasts, its tick counter and the two flags that say it is
  over.\<close>

definition ends_only :: "room_actor \<Rightarrow> room_actor \<Rightarrow> bool" where
  "ends_only r r' \<longleftrightarrow>
     r' = r\<lparr>tickCount := tickCount r', broadcast := broadcast r',
            finished := finished r', cancelled := cancelled r'\<rparr>"

lemma ends_only_refl [simp]: "ends_only r r"
  by (simp add: ends_only_def)

lemma ends_only_trans: "ends_only r s \<Longrightarrow> ends_only s t \<Longrightarrow> ends_only r t"
proof -
  assume "ends_only r s" and st: "ends_only s t"
  then obtain k b f c where "s = r\<lparr>tickCount := k, broadcast := b, finished := f, cancelled := c\<rparr>"
    by (auto simp: ends_only_def)
  with st obtain k' b' f' c' where
    "t = r\<lparr>tickCount := k', broadcast := b', finished := f', cancelled := c'\<rparr>"
    by (auto simp: ends_only_def)
  then show "ends_only r t" by (simp add: ends_only_def)
qed

lemma ends_onlyE:
  assumes "ends_only r r'"
  obtains k b f c where "r' = r\<lparr>tickCount := k, broadcast := b, finished := f, cancelled := c\<rparr>"
  using assms by (auto simp: ends_only_def)

lemma ends_only_fields [room_frame]:
  assumes "ends_only r r'"
  shows "room_id r' = room_id r" "participants r' = participants r"
    "departedParticipants r' = departedParticipants r" "evicted r' = evicted r"
    "totalParticipants r' = totalParticipants r" "distanceMeters r' = distanceMeters r"
    "active r' = active r" "inbox r' = inbox r" "broadcast_cap r' = broadcast_cap r"
    "startedAt r' = startedAt r" "finishedCount r' = finishedCount r" "timers r' = timers r"
    "next_timer r' = next_timer r" "replies r' = replies r"
  using assms by (auto elim!: ends_onlyE)

text \<open>What such an operation has to keep of the rest of the invariant.\<close>

definition end_ok :: "room_actor \<Rightarrow> room_actor \<Rightarrow> bool" where
  "end_ok r r' \<longleftrightarrow>
     ends_only r r' \<and>
     (length (broadcast r) \<le> broadcast_cap r \<longrightarrow> length (broadcast r') \<le> broadcast_cap r) \<and>
     ((finished r \<longrightarrow> cancelled r) \<longrightarrow> (finished r' \<longrightarrow> cancelled r'))"

lemma end_ok_refl [simp]: "end_ok r r"
  by (simp add: end_ok_def)

lemma end_ok_trans: "end_ok r s \<Longrightarrow> end_ok s t \<Longrightarrow> end_ok r t"
proof -
  assume a: "end_ok r s" "end_ok s t"
  then have e: "ends_only r s" "ends_only s t" by (simp_all add: end_ok_def)
  have "ends_only r t" using e by (rule ends_only_trans)
  with a show "end_ok r t" by (simp add: end_ok_def ends_only_fields [OF e(1)])
qed

lemma end_ok_inv [inv_intro]:
  assumes "end_ok r r'" and "room_inv r"
  shows "room_inv r'"
proof -
  from assms(1) have e: "ends_only r r'" by (simp add: end_ok_def)
  then have "entry_ok r' = entry_ok r"
    by (auto simp: entry_ok_def fun_eq_iff ends_only_fields [OF e])
  with assms show ?thesis
    by (simp add: room_inv_def entries_ok_def counts_ok_def ends_only_fields [OF e] end_ok_def)
qed

lemma sendBroadcast_end_ok [simp]: "end_ok r (sendBroadcast m r)"
  by (simp add: end_ok_def ends_only_def sendBroadcast_def chan_try_send_bound)

lemma broadcastSnapshot_eq:
  "broadcastSnapshot d (r, w) =
     (sendBroadcast (RaceStateMessage (tickCount r + 1)
          (rank_participants (fst (MapIter d (participants r) w))))
        (r\<lparr>tickCount := tickCount r + 1\<rparr>),
      snd (MapIter d (participants r) w))"
  by (simp add: broadcastSnapshot_def case_prod_unfold Let_def)

lemma end_ok_tick: "end_ok (r\<lparr>tickCount := k\<rparr>) r' \<Longrightarrow> end_ok r r'"
  by (rule end_ok_trans [where s = "r\<lparr>tickCount := k\<rparr>"])
    (simp_all add: end_ok_def ends_only_def)

lemma broadcastSnapshot_end_ok [simp]: "end_ok r (fst (broadcastSnapshot d (r, w)))"
  by (simp add: broadcastSnapshot_eq end_ok_tick [where k = "tickCount r + 1"])

lemma expirePendingRoom_end_ok [simp]: "end_ok r (fst (expirePendingRoom d (r, w)))"
  by (simp add: expirePendingRoom_def broadcastRaceExpired_def sendBroadcast_def end_ok_def
      ends_only_def chan_try_send_bound split: prod.splits option.splits)

lemma finishRace_end_ok [simp]: "end_ok r (fst (finishRace d results (r, w)))"
proof -
  obtain r1 w1 where b: "broadcastSnapshot d (r, w) = (r1, w1)" by fastforce
  have 1: "end_ok r r1"
    using broadcastSnapshot_end_ok [of r d w] by (simp add: b)
  have 2: "end_ok r1 (fst (finishRace d results (r, w)))"
    by (simp add: finishRace_def b sendBroadcast_def end_ok_def ends_only_def chan_try_send_bound
        Let_def case_prod_unfold split: option.splits)
  show ?thesis using 1 2 by (rule end_ok_trans)
qed

lemma checkRaceFinished_end_ok [simp]: "end_ok r (fst (checkRaceFinished d (r, w)))"
  by (simp add: checkRaceFinished_def Let_def case_prod_unfold)

section \<open>Operations on the participants\<close>

lemma StopTimer_simps [simp]:
  "participants (StopTimer t r) = participants r"
  "departedParticipants (StopTimer t r) = departedParticipants r"
  "evicted (StopTimer t r) = evicted r"
  "totalParticipants (StopTimer t r) = totalParticipants r"
  "active (StopTimer t r) = active r"
  "finished (StopTimer t r) = finished r"
  "cancelled (StopTimer t r) = cancelled r"
  "finishedCount (StopTimer t r) = finishedCount r"
  "broadcast (StopTimer t r) = broadcast r"
  "broadcast_cap (StopTimer t r) = broadcast_cap r"
  "distanceMeters (StopTimer t r) = distanceMeters r"
  "room_id (StopTimer t r) = room_id r"
  "next_timer (StopTimer t r) = next_timer r"
  by (simp_all add: StopTimer_def split: option.splits)

text \<open>How the ranks move with the two maps.\<close>

lemma rank_at_empty: "rank_at [] [] x = None"
  by (cases x) simp

lemma rank_at_live: "rank_at (mput u q live) gone = (rank_at live gone)((True, u) := FinishRank q)"
  by (auto simp: fun_eq_iff)

lemma rank_at_mdel: "rank_at (mdel u live) gone = (rank_at live gone)((True, u) := None)"
  by (auto simp: fun_eq_iff)

lemma rank_at_gone: "rank_at live (mput u q gone) = (rank_at live gone)((False, u) := FinishRank q)"
  by (auto simp: fun_eq_iff)

lemma rank_at_bound:
  assumes "entries_ok r" "rank_at (participants r) (departedParticipants r) x = Some n"
  shows "n \<le> finishedCount r"
  using assms by (cases x) (auto simp: entries_ok_def entry_ok_def split: option.splits if_splits)

lemma room_inv_new [inv_intro]: "room_inv (fst (NewRoomActor d i n cap w))"
  by (simp add: NewRoomActor_def AfterFunc_def room_inv_defs mcount_def Let_def case_prod_unfold
      rank_at_empty inj_map_def)

text \<open>Replacing a live entry by one with the same finish data keeps the invariant.\<close>

lemma room_inv_replace:
  assumes inv: "room_inv r" and p: "mget (participants r) u = Some p"
    and q: "FinishRank q = FinishRank p" "FinishedAt q = FinishedAt p" "UserID q = UserID p"
      "DisconnectedAt q = None \<longrightarrow> graceTimer q = None" "0 \<le> DisconnectedCount q"
  shows "room_inv (setParticipant u q r)"
proof -
  have d: "distinct (mkeys (participants r))" using inv by (simp add: room_inv_def entries_ok_def)
  have "mcount racing (mput u q (participants r)) = mcount racing (participants r)"
    using mcount_mput [OF d, of racing u q] mcount_mdel [OF d p, of racing] q(1)
    by (simp add: racing_def)
  moreover have "rank_at (mput u q (participants r)) (departedParticipants r)
      = rank_at (participants r) (departedParticipants r)"
    using p q(1) by (auto simp: fun_eq_iff)
  then have "ranks_unique (mput u q (participants r)) (departedParticipants r)"
    using inv by (simp add: room_inv_def ranks_unique_def)
  ultimately show ?thesis
    using inv p q by (auto simp: room_inv_def entries_ok_def entry_ok_def counts_ok_def
        setParticipant_def distinct_update)
qed

text \<open>A fresh live entry that is still racing, counted in \<open>totalParticipants\<close>.\<close>

lemma room_inv_add:
  assumes inv: "room_inv r" and p: "mget (participants r) u = None"
    and q: "FinishRank q = None" "FinishedAt q = None" "UserID q = u" "graceTimer q = None"
      "DisconnectedCount q = 0"
  shows "room_inv ((setParticipant u q r)\<lparr>totalParticipants := totalParticipants r + 1\<rparr>)"
proof -
  have "mcount racing (mput u q (participants r)) = mcount racing (participants r) + 1"
    using mcount_mput_new [OF p, of racing q] q(1) by (simp add: racing_def)
  moreover have "ranks_unique (mput u q (participants r)) (departedParticipants r)"
    using inv q(1) by (simp add: room_inv_def ranks_unique_def rank_at_live inj_map_drop)
  ultimately show ?thesis
    using inv p q by (auto simp: room_inv_def entries_ok_def entry_ok_def counts_ok_def
        setParticipant_def distinct_update)
qed

text \<open>A live entry that crosses the line takes the next rank.\<close>

lemma room_inv_finish:
  assumes inv: "room_inv r" and act: "active r" and p: "mget (participants r) u = Some p"
    and np: "FinishRank p = None"
  shows "room_inv ((setParticipant u (p\<lparr>FinishedAt := Some t, FinishRank := Some (finishedCount r + 1)\<rparr>) r)
           \<lparr>finishedCount := finishedCount r + 1\<rparr>)"
    (is "room_inv ((setParticipant u ?q r)\<lparr>finishedCount := _\<rparr>)")
proof -
  have d: "distinct (mkeys (participants r))" using inv by (simp add: room_inv_def entries_ok_def)
  have c: "mcount racing (participants r) = mcount racing (mput u ?q (participants r)) + 1"
    using mcount_mput [OF d, of racing u ?q] mcount_mdel [OF d p, of racing] np
    by (simp add: racing_def)
  have fresh: "rank_at (participants r) (departedParticipants r) x \<noteq> Some (finishedCount r + 1)" for x
    using rank_at_bound [of r x "finishedCount r + 1"] inv by (auto simp: room_inv_def)
  have r: "ranks_unique (mput u ?q (participants r)) (departedParticipants r)"
    using inv fresh by (simp add: room_inv_def ranks_unique_def rank_at_live inj_map_fresh)
  let ?r = "(setParticipant u ?q r)\<lparr>finishedCount := finishedCount r + 1\<rparr>"
  have old: "entry_ok ?r v q" if "entry_ok r v q" for v q
    using that act by (auto simp: entry_ok_def setParticipant_def intro: order_trans)
  have new: "entry_ok ?r u ?q"
    using inv p act by (auto simp: room_inv_def entries_ok_def entry_ok_def setParticipant_def counts_ok_def)
  have "entries_ok ?r"
    using inv old new
    by (auto simp: room_inv_def entries_ok_def setParticipant_def distinct_update simp del: map_of_eq_Some_iff)
  then show ?thesis
    using inv r c act by (simp add: room_inv_def counts_ok_def setParticipant_def)
qed

text \<open>Removing a live entry outright.\<close>

lemma room_inv_remove:
  assumes inv: "room_inv r" and p: "mget (participants r) u = Some p"
  shows "room_inv (r\<lparr>participants := mdel u (participants r)\<rparr>)"
proof -
  have d: "distinct (mkeys (participants r))" using inv by (simp add: room_inv_def entries_ok_def)
  have "mcount racing (mdel u (participants r)) \<le> mcount racing (participants r)"
    using mcount_mdel [OF d p, of racing] by simp
  moreover have "ranks_unique (mdel u (participants r)) (departedParticipants r)"
    using inv by (simp add: room_inv_def ranks_unique_def rank_at_mdel inj_map_drop)
  ultimately show ?thesis
    using inv by (auto simp: room_inv_def entries_ok_def entry_ok_def counts_ok_def
        distinct_delete)
qed

text \<open>Moving a live entry to the departed ones. A second departure of the same user replaces the
  first.\<close>

lemma room_inv_move:
  assumes inv: "room_inv r" and p: "mget (participants r) u = Some p"
  shows "room_inv (r\<lparr>participants := mdel u (participants r),
           departedParticipants := mput u p (departedParticipants r),
           evicted := insert u (evicted r)\<rparr>)"
proof -
  let ?P = "participants r" and ?D = "departedParticipants r"
  have d: "distinct (mkeys ?P)" "distinct (mkeys ?D)"
    using inv by (simp_all add: room_inv_def entries_ok_def)
  have "mcount racing (mdel u ?D) \<le> mcount racing ?D"
  proof (cases "mget ?D u")
    case None
    then show ?thesis using mcount_mdel_notin [of u ?D racing] by (simp add: map_of_eq_None_iff)
  next
    case (Some q)
    then show ?thesis using mcount_mdel [OF d(2) Some, of racing] by simp
  qed
  then have c: "mcount racing (mdel u ?P) + mcount racing (mput u p ?D)
      \<le> mcount racing ?P + mcount racing ?D"
    using mcount_mdel [OF d(1) p, of racing] mcount_mput [OF d(2), of racing u p] by simp
  have "FinishRank p = rank_at ?P ?D (True, u)" using p by simp
  then have "ranks_unique (mdel u ?P) (mput u p ?D)"
    using inv unfolding room_inv_def ranks_unique_def
    by (simp only: rank_at_mdel rank_at_gone) (simp add: inj_map_move del: rank_at.simps)
  then show ?thesis
    using inv p c by (auto simp: room_inv_def entries_ok_def entry_ok_def counts_ok_def
        distinct_delete distinct_update dom_update)
qed

section \<open>Every event keeps the invariant\<close>

lemma room_inv_StopTimer [inv_intro]: "room_inv (StopTimer t r) = room_inv r"
  by (simp add: room_inv_def entries_ok_def entry_ok_def counts_ok_def)

lemma room_inv_timers: "room_inv (r\<lparr>timers := ts, next_timer := n\<rparr>) = room_inv r"
  by (simp add: room_inv_def entries_ok_def entry_ok_def counts_ok_def)

lemma room_inv_replies: "room_inv (r\<lparr>replies := x\<rparr>) = room_inv r"
  by (simp add: room_inv_def entries_ok_def entry_ok_def counts_ok_def)

lemma room_inv_active: "room_inv r \<Longrightarrow> room_inv (r\<lparr>active := True\<rparr>)"
  by (auto simp: room_inv_def entries_ok_def entry_ok_def counts_ok_def)

lemma inv_snapshot: "room_inv r \<Longrightarrow> room_inv (fst (broadcastSnapshot d (r, w)))"
  by (rule end_ok_inv [OF broadcastSnapshot_end_ok])

lemma inv_check: "room_inv r \<Longrightarrow> room_inv (fst (checkRaceFinished d (r, w)))"
  by (rule end_ok_inv [OF checkRaceFinished_end_ok])

lemma inv_expire: "room_inv r \<Longrightarrow> room_inv (fst (expirePendingRoom d (r, w)))"
  by (rule end_ok_inv [OF expirePendingRoom_end_ok])

lemma inv_depart:
  "room_inv r \<Longrightarrow> mget (participants r) u = Some p \<Longrightarrow> room_inv (fst (departParticipant d u p (r, w)))"
  using inv_check [OF room_inv_move] by (simp add: departParticipant_def Let_def case_prod_unfold)

lemma entryD:
  "room_inv r \<Longrightarrow> mget (participants r) u = Some p \<Longrightarrow> entry_ok r u p"
  by (simp add: room_inv_def entries_ok_def)

lemma inv_joined: "room_inv r \<Longrightarrow> room_inv (fst (applyEvent d (ParticipantJoined u n) (r, w)))"
proof (cases "mget (participants r) u")
  case None
  assume "room_inv r"
  from room_inv_add [OF this None] show ?thesis
    by (auto simp: None Let_def case_prod_unfold setParticipant_def intro!: inv_snapshot)
next
  case (Some p)
  assume inv: "room_inv r"
  from inv Some have "entry_ok r u p" by (rule entryD)
  then have "room_inv (setParticipant u (p\<lparr>graceTimer := None, DisconnectedAt := None\<rparr>)
      (StopTimer (graceTimer p) r))"
    using inv Some by (intro room_inv_replace [where p = p]) (auto simp: room_inv_StopTimer entry_ok_def)
  then show ?thesis using inv by (auto simp: Some intro!: inv_snapshot)
qed

lemma inv_telemetry:
  "room_inv r \<Longrightarrow> room_inv (fst (applyEvent d (TelemetryReceived u s n x) (r, w)))"
proof (cases "active r \<and> (\<exists>p. mget (participants r) u = Some p \<and> LastSeq p < s)")
  case True
  assume inv: "room_inv r"
  from True obtain p where p: "mget (participants r) u = Some p" "LastSeq p < s" and a: "active r"
    by blast
  let ?q = "p\<lparr>WordsCorrect := n, LastSeq := s, PaceWatt := x\<rparr>"
  have r1: "room_inv (setParticipant u ?q r)"
    using inv p entryD [OF inv p(1)] by (intro room_inv_replace [where p = p]) (auto simp: entry_ok_def)
  have q: "mget (participants (setParticipant u ?q r)) u = Some ?q"
    by (simp add: setParticipant_def)
  have "FinishRank ?q = None \<Longrightarrow> room_inv ((setParticipant u
      (?q\<lparr>FinishedAt := Some t, FinishRank := Some (finishedCount r + 1)\<rparr>) (setParticipant u ?q r))
      \<lparr>finishedCount := finishedCount r + 1\<rparr>)" for t
    using room_inv_finish [OF r1 _ q, of t] a by (simp add: setParticipant_def)
  then show ?thesis
    using p a r1 by (auto simp: Let_def case_prod_unfold setParticipant_def intro!: inv_check)
next
  case False
  assume "room_inv r"
  with False show ?thesis by (auto split: option.split)
qed

lemma inv_disconnected:
  "room_inv r \<Longrightarrow> room_inv (fst (applyEvent d (ParticipantDisconnected u) (r, w)))"
proof (cases "mget (participants r) u")
  case None
  assume "room_inv r"
  then show ?thesis by (simp add: None)
next
  case (Some p)
  assume inv: "room_inv r"
  have *: "room_inv (setParticipant u (p\<lparr>DisconnectedAt := Some t, DisconnectedCount := DisconnectedCount p + 1,
      graceTimer := Some i\<rparr>) ((StopTimer (graceTimer p) r)\<lparr>timers := ts, next_timer := k\<rparr>))" for t i ts k
    using inv Some entryD [OF inv Some]
    by (intro room_inv_replace [where p = p]) (auto simp: room_inv_StopTimer room_inv_timers entry_ok_def)
  then show ?thesis by (simp add: Some Let_def case_prod_unfold AfterFunc_def)
qed

lemma inv_left: "room_inv r \<Longrightarrow> room_inv (fst (applyEvent d (ParticipantLeft u) (r, w)))"
  by (auto simp: Let_def case_prod_unfold simp del: map_of_eq_Some_iff
      intro!: inv_check room_inv_remove inv_depart split: option.split)

lemma inv_evicted: "room_inv r \<Longrightarrow> room_inv (fst (applyEvent d (ParticipantEvicted u) (r, w)))"
  by (auto intro!: inv_depart split: option.split simp del: map_of_eq_Some_iff)

lemma applyEvent_inv [inv_intro]: "room_inv r \<Longrightarrow> room_inv (fst (applyEvent d ev (r, w)))"
proof (cases ev)
  case (activated prompt)
  assume "room_inv r"
  then have "room_inv (r\<lparr>active := True\<rparr>)" by (rule room_inv_active)
  then show ?thesis
    by (simp add: activated broadcastRaceStarted_def end_ok_inv [OF sendBroadcast_end_ok])
qed (simp_all only: inv_joined inv_telemetry inv_disconnected inv_left inv_evicted,
     simp_all add: room_inv_replies inv_check inv_expire)

lemma applyEvents_inv: "room_inv (fst s) \<Longrightarrow> room_inv (fst (applyEvents d evs s))"
proof (induction evs arbitrary: s)
  case (Cons ev evs)
  then show ?case
    using applyEvent_inv [of "fst s" d ev "snd s"] by (simp add: Cons.IH)
qed simp

end
