(* ===== verification/Room_Properties.thy ===== *)
theory Room_Properties
  imports Room_Invariant
begin

text \<open>
  What the room actor promises its clients: how a race ends, what the final results look like,
  what telemetry, reconnecting and leaving do to a participant, and how a pending room is torn
  down. The laws of Go's map iteration the results rest on are the locale \<open>map_iteration\<close>. The
  environment \<open>noop_deps\<close> has collaborators that always succeed and do nothing, as the
  \<^verbatim>\<open>Noop\<close> types of \<^verbatim>\<open>publisher.go\<close> and \<^verbatim>\<open>eviction.go\<close> do, and a
  world that is just a clock.
\<close>

section \<open>An environment without effects\<close>

definition NoopPublisher_PublishWorkoutSample ::
  "bool \<Rightarrow> race_id \<Rightarrow> user_id \<Rightarrow> time \<Rightarrow> int \<Rightarrow> float64 \<Rightarrow> 'w \<Rightarrow> go_error option \<times> 'w" where
  "NoopPublisher_PublishWorkoutSample ctx i u ts words pace w = (None, w)"

definition NoopPublisher_PublishRaceFinished ::
  "bool \<Rightarrow> race_id \<Rightarrow> participant_result list \<Rightarrow> 'w \<Rightarrow> go_error option \<times> 'w" where
  "NoopPublisher_PublishRaceFinished ctx i results w = (None, w)"

definition NoopEvictionRecorder_MarkEvicted ::
  "bool \<Rightarrow> race_id \<Rightarrow> user_id \<Rightarrow> 'w \<Rightarrow> go_error option \<times> 'w" where
  "NoopEvictionRecorder_MarkEvicted ctx i u w = (None, w)"

definition noop_deps :: "time room_deps" where
  "noop_deps =
     \<lparr>FinishRace = (\<lambda>ctx i n results w. (None, w)),
      LeaveRace = (\<lambda>ctx i u w. (None, w)),
      CancelRace = (\<lambda>ctx i w. (None, w)),
      PublishWorkoutSample = NoopPublisher_PublishWorkoutSample,
      PublishRaceFinished = NoopPublisher_PublishRaceFinished,
      MarkEvicted = NoopEvictionRecorder_MarkEvicted,
      Now = (\<lambda>t. (t, t)),
      MapIter = (\<lambda>m w. (m, w))\<rparr>"

text \<open>The same with a finisher that cannot reach its store, and a short race run in it: two players
  join, the race starts, both type both words, the second one after a dropped connection.\<close>

definition store_down_deps :: "time room_deps" where
  "store_down_deps = noop_deps\<lparr>FinishRace := (\<lambda>ctx i n results w. (Some (ErrOther ''down''), w))\<rparr>"

definition demo_events :: "room_event list" where
  "demo_events =
     [ParticipantJoined ''a'' ''Ann'', ParticipantJoined ''b'' ''Bob'', activated ''go home'',
      TelemetryReceived ''a'' 1 2 60, ParticipantDisconnected ''b'', ParticipantJoined ''b'' ''Bob'',
      TelemetryReceived ''b'' 1 2 50]"

definition demo_room :: room_actor where
  "demo_room = fst (applyEvents store_down_deps demo_events (NewRoomActor store_down_deps ''r1'' 2 16 0))"

lemmas noop_simps = noop_deps_def NoopPublisher_PublishWorkoutSample_def
  NoopPublisher_PublishRaceFinished_def NoopEvictionRecorder_MarkEvicted_def

text \<open>The definitions a concrete run of the actor unfolds.\<close>

lemmas room_exec = NewRoomActor_def AfterFunc_def StopTimer_def broadcastSnapshot_def
  broadcastRaceStarted_def broadcastRaceExpired_def sendBroadcast_def chan_try_send_def
  rank_participants_def expirePendingRoom_def buildParticipantResult_def toRaceResultJSON_def
  finishRace_def racing_def checkRaceFinished_def departParticipant_def setParticipant_def
  gracePeriodDuration_def noShowTimeoutDuration_def PendingTimeoutDuration_def go_quot_def Let_def

lemma demo_room_simps:
  "active demo_room" "\<not> finished demo_room" "\<not> cancelled demo_room"
  "map fst (participants demo_room) = [''a'', ''b'']" "departedParticipants demo_room = []"
  "map_option FinishRank (mget (participants demo_room) ''a'') = Some (Some 1)"
  "map_option FinishRank (mget (participants demo_room) ''b'') = Some (Some 2)"
  "map_option LastSeq (mget (participants demo_room) ''a'') = Some 1"
  "map_option graceTimer (mget (participants demo_room) ''a'') = Some None"
  "totalParticipants demo_room = 2" "timers demo_room \<noteq> []" "next_timer demo_room = 3"
  "\<forall>t \<in> set (timers demo_room). tm_id t < 3"
  by (simp_all add: demo_room_def demo_events_def store_down_deps_def noop_simps room_exec)

section \<open>Iteration over Go maps\<close>

text \<open>Ranging over a map visits every entry once, in an order the language leaves open.\<close>

locale map_iteration =
  fixes d :: "'w room_deps"
  assumes iter_perm: "mset (fst (MapIter d m w)) = mset m"
begin

lemma iter_set: "set (fst (MapIter d m w)) = set m"
  using iter_perm [of m w] by (rule mset_eq_setD)

lemma iter_length: "length (fst (MapIter d m w)) = length m"
  using iter_perm [of m w] by (metis size_mset)

lemma iter_map: "mset (map f (fst (MapIter d m w))) = mset (map f m)"
  by (simp add: iter_perm)

text \<open>The results handed to the finisher hold one entry per live and per departed participant.\<close>

lemma results_perm:
  assumes "active r" "\<not> finished r" "\<not> list_ex (racing \<circ> snd) (participants r)"
  obtains results w' where
    "checkRaceFinished d (r, w) = finishRace d results (r, w')"
    "mset results = mset (map (buildParticipantResult r \<circ> snd) (participants r @ departedParticipants r))"
proof
  let ?w1 = "snd (MapIter d (participants r) w)"
  let ?rs = "map (buildParticipantResult r \<circ> snd) (fst (MapIter d (participants r) w))
     @ map (buildParticipantResult r \<circ> snd) (fst (MapIter d (departedParticipants r) ?w1))"
  show "checkRaceFinished d (r, w) = finishRace d ?rs (r, snd (MapIter d (departedParticipants r) ?w1))"
    using assms by (simp add: checkRaceFinished_def Let_def case_prod_unfold)
  show "mset ?rs = mset (map (buildParticipantResult r \<circ> snd) (participants r @ departedParticipants r))"
    by (simp add: iter_map del: mset_map)
qed

end

interpretation noop: map_iteration noop_deps
  by unfold_locales (simp add: noop_deps_def)

interpretation down: map_iteration store_down_deps
  by unfold_locales (simp add: store_down_deps_def noop_deps_def)

section \<open>Ranks of the final results\<close>

lemma result_rank_finisher:
  "FinishRank p = Some n \<Longrightarrow> pr_FinishRank (buildParticipantResult r p) = Some n"
  by (simp add: buildParticipantResult_def)

lemma result_rank_quitter:
  "FinishRank p = None \<Longrightarrow> pr_FinishRank (buildParticipantResult r p) = Some (totalParticipants r)"
  by (simp add: buildParticipantResult_def)

lemma result_time_None [simp]:
  "pr_FinishTimeMs (buildParticipantResult r p) = None \<longleftrightarrow> FinishedAt p = None"
  by (simp add: buildParticipantResult_def split: option.splits)

text \<open>A participant of the room, live or departed.\<close>

definition entry_of :: "room_actor \<Rightarrow> user_id \<Rightarrow> participant \<Rightarrow> bool" where
  "entry_of r u p \<longleftrightarrow> mget (participants r) u = Some p \<or> mget (departedParticipants r) u = Some p"

lemma entry_of_ok: "room_inv r \<Longrightarrow> entry_of r u p \<Longrightarrow> entry_ok r u p"
  by (auto simp: entry_of_def room_inv_def entries_ok_def)

lemma entries_in_set:
  "room_inv r \<Longrightarrow> p \<in> snd ` set (participants r @ departedParticipants r) \<longleftrightarrow> (\<exists>u. entry_of r u p)"
  unfolding room_inv_def entries_ok_def entry_of_def set_append image_Un Un_iff
  by (metis mget_values)

lemma racing_below_total:
  assumes "room_inv r" and "entry_of r u p" and "FinishRank p = None"
  shows "finishedCount r < totalParticipants r"
proof -
  have "0 < mcount racing (participants r) + mcount racing (departedParticipants r)"
    using assms mcount_pos [of u p "participants r" racing] mcount_pos [of u p "departedParticipants r" racing]
    by (auto simp: entry_of_def racing_def dest!: mget_in_set)
  then show ?thesis using assms(1) by (auto simp: room_inv_def counts_ok_def)
qed

lemma finisher_rank_range:
  assumes "room_inv r" and "entry_of r u p" and "FinishRank p = Some n"
  shows "1 \<le> n" and "n \<le> finishedCount r"
  using entry_of_ok [OF assms(1,2)] assms(3) by (auto simp: entry_ok_def)

lemma finishedCount_le_total: "room_inv r \<Longrightarrow> finishedCount r \<le> totalParticipants r"
  by (auto simp: room_inv_def counts_ok_def)

lemma result_rank_range:
  assumes "room_inv r" and "entry_of r u p"
  obtains n where "pr_FinishRank (buildParticipantResult r p) = Some n" "1 \<le> n" "n \<le> totalParticipants r"
proof (cases "FinishRank p")
  case None
  have "0 \<le> finishedCount r" using assms(1) by (simp add: room_inv_def counts_ok_def)
  with racing_below_total [OF assms None] None that show ?thesis
    by (simp add: result_rank_quitter)
next
  case (Some n)
  with finisher_rank_range [OF assms Some] finishedCount_le_total [OF assms(1)] that show ?thesis
    by (simp add: result_rank_finisher)
qed

lemma results_ranked:
  assumes inv: "room_inv r"
    and rs: "mset results = mset (map (buildParticipantResult r \<circ> snd) (participants r @ departedParticipants r))"
  shows "\<forall>x \<in> set results. \<exists>n. pr_FinishRank x = Some n \<and> 1 \<le> n \<and> n \<le> totalParticipants r"
    and "\<forall>x \<in> set results. \<forall>y \<in> set results.
      pr_FinishTimeMs x \<noteq> None \<and> pr_FinishTimeMs y = None \<longrightarrow> the (pr_FinishRank x) < the (pr_FinishRank y)"
proof -
  have mem: "\<exists>u p. entry_of r u p \<and> x = buildParticipantResult r p" if "x \<in> set results" for x
  proof -
    from that mset_eq_setD [OF rs] obtain p where
      "p \<in> snd ` set (participants r @ departedParticipants r)" "x = buildParticipantResult r p"
      by (auto simp: image_iff)
    with entries_in_set [OF inv] show ?thesis by blast
  qed
  show "\<forall>x \<in> set results. \<exists>n. pr_FinishRank x = Some n \<and> 1 \<le> n \<and> n \<le> totalParticipants r"
    by (metis mem result_rank_range [OF inv])
  show "\<forall>x \<in> set results. \<forall>y \<in> set results.
      pr_FinishTimeMs x \<noteq> None \<and> pr_FinishTimeMs y = None \<longrightarrow> the (pr_FinishRank x) < the (pr_FinishRank y)"
  proof clarify
    fix x y t
    assume "x \<in> set results" "y \<in> set results" and t: "pr_FinishTimeMs x = Some t" "pr_FinishTimeMs y = None"
    then obtain u p v q where x: "entry_of r u p" "x = buildParticipantResult r p"
      and y: "entry_of r v q" "y = buildParticipantResult r q"
      using mem by metis
    from t x y have at: "FinishedAt p \<noteq> None" "FinishedAt q = None"
      using result_time_None [of r p] result_time_None [of r q] by auto
    with entry_of_ok [OF inv x(1)] entry_of_ok [OF inv y(1)]
    obtain n where n: "FinishRank p = Some n" and q: "FinishRank q = None"
      by (auto simp: entry_ok_def)
    from finisher_rank_range(2) [OF inv x(1) n] racing_below_total [OF inv y(1) q]
    show "the (pr_FinishRank x) < the (pr_FinishRank y)"
      by (simp add: x y result_rank_finisher [OF n] result_rank_quitter [OF q])
  qed
qed

lemma distinct_map_inj_map:
  assumes "distinct xs" and "inj_map f" and "\<forall>x \<in> set xs. f x \<noteq> None"
  shows "distinct (map f xs)"
  using assms by (auto simp: distinct_map inj_on_def inj_map_def)

lemma rank_at_entry:
  "distinct (mkeys live) \<Longrightarrow> (u, p) \<in> set live \<Longrightarrow> rank_at live gone (True, u) = FinishRank p"
  "distinct (mkeys gone) \<Longrightarrow> (u, p) \<in> set gone \<Longrightarrow> rank_at live gone (False, u) = FinishRank p"
  by (simp_all add: map_of_is_SomeI)

text \<open>The ranks of those who crossed the line, live or departed, are pairwise different.\<close>

lemma finisher_ranks_distinct:
  assumes inv: "room_inv r"
  shows "distinct (map (FinishRank \<circ> snd)
    (filter (\<lambda>kv. FinishRank (snd kv) \<noteq> None) (participants r @ departedParticipants r)))"
proof -
  let ?P = "participants r" and ?D = "departedParticipants r"
  let ?fin = "\<lambda>kv. FinishRank (snd kv) \<noteq> None"
  have d: "distinct (mkeys ?P)" "distinct (mkeys ?D)" and inj: "inj_map (rank_at ?P ?D)"
    using inv by (simp_all add: room_inv_def entries_ok_def ranks_unique_def)
  let ?xs = "map (\<lambda>kv. (True, fst kv)) (filter ?fin ?P) @ map (\<lambda>kv. (False, fst kv)) (filter ?fin ?D)"
  have 1: "distinct ?xs"
    using d distinct_map_filter [OF d(1), of ?fin] distinct_map_filter [OF d(2), of ?fin]
    by (auto simp: distinct_map inj_on_def)
  have 2: "map (rank_at ?P ?D) ?xs = map (FinishRank \<circ> snd) (filter ?fin (?P @ ?D))"
    using d by (auto simp: rank_at_entry simp del: rank_at.simps)
  have 3: "\<forall>x \<in> set ?xs. rank_at ?P ?D x \<noteq> None"
    using d by (auto simp: rank_at_entry simp del: rank_at.simps)
  from 1 inj 3 have "distinct (map (rank_at ?P ?D) ?xs)" by (rule distinct_map_inj_map)
  then show ?thesis by (simp only: 2)
qed

lemma results_finishers_distinct:
  assumes inv: "room_inv r"
    and rs: "mset results = mset (map (buildParticipantResult r \<circ> snd) (participants r @ departedParticipants r))"
  shows "distinct (map pr_FinishRank (filter (\<lambda>x. pr_FinishTimeMs x \<noteq> None) results))"
proof -
  let ?E = "participants r @ departedParticipants r"
  let ?b = "buildParticipantResult r \<circ> snd"
  have "mset (map pr_FinishRank (filter (\<lambda>x. pr_FinishTimeMs x \<noteq> None) results))
      = mset (map pr_FinishRank (filter (\<lambda>x. pr_FinishTimeMs x \<noteq> None) (map ?b ?E)))"
    using rs by (simp only: mset_map mset_filter)
  also have "map pr_FinishRank (filter (\<lambda>x. pr_FinishTimeMs x \<noteq> None) (map ?b ?E))
      = map (FinishRank \<circ> snd) (filter (\<lambda>kv. FinishRank (snd kv) \<noteq> None) ?E)"
  proof -
    have "FinishedAt p = None \<longleftrightarrow> FinishRank p = None" if "(u, p) \<in> set ?E" for u p
      using that inv by (auto simp: room_inv_def entries_ok_def entry_ok_def)
    then have "filter (\<lambda>kv. FinishedAt (snd kv) \<noteq> None) ?E = filter (\<lambda>kv. FinishRank (snd kv) \<noteq> None) ?E"
      by (intro filter_cong refl) (metis prod.collapse)
    moreover have "filter (\<lambda>x. pr_FinishTimeMs x \<noteq> None) (map ?b ?E)
        = map ?b (filter (\<lambda>kv. FinishedAt (snd kv) \<noteq> None) ?E)"
      by (simp add: filter_map o_def del: not_None_eq)
    moreover have "map pr_FinishRank (map ?b (filter (\<lambda>kv. FinishRank (snd kv) \<noteq> None) ?E))
        = map (FinishRank \<circ> snd) (filter (\<lambda>kv. FinishRank (snd kv) \<noteq> None) ?E)"
      by (auto simp: buildParticipantResult_def split: option.splits)
    ultimately show ?thesis by simp
  qed
  finally show ?thesis
    using finisher_ranks_distinct [OF inv] by (metis mset_eq_imp_distinct_iff)
qed

section \<open>Snapshots\<close>

lemma rank_participants_ranks: "map sj_Rank (rank_participants kvs) = [1..<Suc (length kvs)]"
  by (rule nth_equalityI)
    (simp_all add: rank_participants_def Let_def case_prod_unfold nth_enumerate_eq del: upt_Suc)

lemma rank_participants_order:
  "map (\<lambda>x. (sj_UserID x, sj_DistanceM x)) (rank_participants kvs)
     = map (\<lambda>p. (UserID p, of_int (WordsCorrect p))) (sort_key (\<lambda>p. - WordsCorrect p) (map snd kvs))"
  by (rule nth_equalityI) (simp_all add: rank_participants_def Let_def case_prod_unfold nth_enumerate_eq)

lemma rank_participants_sorted: "sorted_wrt (\<ge>) (map sj_DistanceM (rank_participants kvs))"
proof -
  have "map sj_DistanceM (rank_participants kvs)
      = map (\<lambda>p. of_int (WordsCorrect p)) (sort_key (\<lambda>p. - WordsCorrect p) (map snd kvs))"
    using arg_cong [OF rank_participants_order [of kvs], of "map snd"] by (simp add: comp_def)
  moreover have "sorted_wrt (\<lambda>p q. - WordsCorrect p \<le> - WordsCorrect q)
      (sort_key (\<lambda>p. - WordsCorrect p) (map snd kvs))"
    using sorted_sort_key [of "\<lambda>p. - WordsCorrect p" "map snd kvs"] by (simp add: sorted_map)
  ultimately show ?thesis by (simp add: sorted_wrt_map)
qed

lemma rank_participants_users:
  "mset (map sj_UserID (rank_participants kvs)) = mset (map (UserID \<circ> snd) kvs)"
proof -
  have "map sj_UserID (rank_participants kvs) = map UserID (sort_key (\<lambda>p. - WordsCorrect p) (map snd kvs))"
    using arg_cong [OF rank_participants_order [of kvs], of "map fst"] by (simp add: comp_def)
  then show ?thesis by (simp add: multiset.map_comp)
qed

section \<open>Leaving, finishing and telemetry\<close>

lemma check_not_ending:
  "list_ex (racing \<circ> snd) (participants r) \<Longrightarrow> checkRaceFinished d (r, w) = (r, w)"
  by (simp add: checkRaceFinished_def)

lemma list_ex_racing:
  assumes "distinct (mkeys m)"
  shows "list_ex (racing \<circ> snd) m \<longleftrightarrow> (\<exists>u p. mget m u = Some p \<and> FinishRank p = None)"
  using assms by (force simp: list_ex_iff racing_def)

text \<open>When persisting succeeds, checking an active room ends it exactly when nobody is still racing.\<close>

lemma finishRace_finishes:
  assumes "\<And>c i n rs w. fst (FinishRace d c i n rs w) = None"
  shows "finished (fst (finishRace d results s))" "cancelled (fst (finishRace d results s))"
proof -
  have "\<exists>w'. FinishRace d c i n rs w = (None, w')" for c i n rs w
    using assms [of c i n rs w] by (metis prod.collapse)
  then show "finished (fst (finishRace d results s))" "cancelled (fst (finishRace d results s))"
    by (simp_all add: finishRace_def Let_def case_prod_unfold assms sendBroadcast_def)
qed

lemma check_active_finishes:
  assumes "\<And>c i n rs w. fst (FinishRace d c i n rs w) = None" "active r" "\<not> finished r"
  shows "finished (fst (checkRaceFinished d (r, w))) \<longleftrightarrow> \<not> list_ex (racing \<circ> snd) (participants r)"
  using assms by (auto simp: checkRaceFinished_def Let_def case_prod_unfold finishRace_finishes)

lemma depart_fields:
  "participants (fst (departParticipant d u p (r, w))) = mdel u (participants r)"
  "departedParticipants (fst (departParticipant d u p (r, w))) = mput u p (departedParticipants r)"
  "evicted (fst (departParticipant d u p (r, w))) = insert u (evicted r)"
  "totalParticipants (fst (departParticipant d u p (r, w))) = totalParticipants r"
proof -
  let ?r1 = "r\<lparr>participants := mdel u (participants r),
    departedParticipants := mput u p (departedParticipants r), evicted := insert u (evicted r)\<rparr>"
  have "ends_only ?r1 (fst (departParticipant d u p (r, w)))"
    using checkRaceFinished_end_ok [of ?r1 d] by (simp add: departParticipant_def end_ok_def Let_def case_prod_unfold)
  note ends_only_fields [OF this]
  then show
    "participants (fst (departParticipant d u p (r, w))) = mdel u (participants r)"
    "departedParticipants (fst (departParticipant d u p (r, w))) = mput u p (departedParticipants r)"
    "evicted (fst (departParticipant d u p (r, w))) = insert u (evicted r)"
    "totalParticipants (fst (departParticipant d u p (r, w))) = totalParticipants r"
    by simp_all
qed

lemma depart_finishes:
  assumes ok: "\<And>c i n rs w. fst (FinishRace d c i n rs w) = None" and "active r" "\<not> finished r"
  shows "finished (fst (departParticipant d u p (r, w)))
     \<longleftrightarrow> \<not> list_ex (racing \<circ> snd) (mdel u (participants r))"
  using check_active_finishes [OF ok, of "r\<lparr>participants := mdel u (participants r),
    departedParticipants := mput u p (departedParticipants r), evicted := insert u (evicted r)\<rparr>"] assms(2,3)
  by (simp add: departParticipant_def Let_def case_prod_unfold)

text \<open>What an event may do to the entry of a participant who stays in the room.\<close>

definition entry_advances :: "participant \<Rightarrow> participant \<Rightarrow> bool" where
  "entry_advances p q \<longleftrightarrow>
     UserID q = UserID p \<and> DisplayName q = DisplayName p \<and> ConnectedAt q = ConnectedAt p \<and>
     LastSeq p \<le> LastSeq q \<and> DisconnectedCount p \<le> DisconnectedCount q \<and>
     (\<forall>n. FinishRank p = Some n \<longrightarrow> FinishRank q = Some n \<and> FinishedAt q = FinishedAt p)"

lemma entry_advances_refl [simp]: "entry_advances p p"
  by (simp add: entry_advances_def)

lemma check_participants [simp]:
  "participants (fst (checkRaceFinished d (r, w))) = participants r"
  using checkRaceFinished_end_ok [of r d w] by (auto simp: end_ok_def ends_only_fields)

lemma snapshot_participants [simp]:
  "participants (fst (broadcastSnapshot d (r, w))) = participants r"
  using broadcastSnapshot_end_ok [of r d w] by (auto simp: end_ok_def ends_only_fields)

lemma expire_participants [simp]:
  "participants (fst (expirePendingRoom d (r, w))) = participants r"
  using expirePendingRoom_end_ok [of r d w] by (auto simp: end_ok_def ends_only_fields)

lemma depart_participants [simp]:
  "participants (fst (departParticipant d u p (r, w))) = mdel u (participants r)"
  by (rule depart_fields)

lemma applyEvent_advances:
  assumes "mget (participants r) u = Some p"
    and "mget (participants (fst (applyEvent d ev (r, w)))) u = Some q"
  shows "entry_advances p q"
proof (cases ev)
  case (ParticipantJoined v n)
  with assms show ?thesis
    by (auto simp: setParticipant_def entry_advances_def Let_def case_prod_unfold
        split: option.splits if_splits)
next
  case (TelemetryReceived v s n x)
  with assms show ?thesis
    by (auto simp: setParticipant_def entry_advances_def Let_def case_prod_unfold
        simp del: map_of_eq_Some_iff split: option.splits if_splits)
next
  case (ParticipantDisconnected v)
  with assms show ?thesis
    by (auto simp: setParticipant_def entry_advances_def Let_def case_prod_unfold AfterFunc_def
        simp del: map_of_eq_Some_iff split: option.splits if_splits)
next
  case (activated x)
  with assms show ?thesis by (simp add: broadcastRaceStarted_def sendBroadcast_def)
qed (use assms in \<open>auto simp: Let_def case_prod_unfold simp del: map_of_eq_Some_iff
       split: option.splits if_splits\<close>)

section \<open>Properties\<close>

text \<open>Whatever the collaborators answer and whatever events arrive, in any order, a room that
  starts empty keeps its invariant: keys and user ids agree, a rank is held by at most one entry and
  lies between 1 and the finish counter, a pending room has no finisher, finishers and racers
  together never exceed the participants ever counted, a finished room is cancelled, and the
  broadcast buffer stays within its capacity.\<close>

theorem room_inv_reachable: "room_inv (fst (applyEvents d evs (NewRoomActor d i n cap w)))"
  by (rule applyEvents_inv) (rule room_inv_new)



text \<open>Telemetry is dropped without any effect when the race has not started, when the sender is
  not a live participant, or when its sequence number is not newer than the last one applied.\<close>

theorem telemetry_dropped:
  assumes "\<not> active r \<or> mget (participants r) u = None
    \<or> (\<exists>p. mget (participants r) u = Some p \<and> seq \<le> LastSeq p)"
  shows "applyEvent d (TelemetryReceived u seq words pace) (r, w) = (r, w)"
  using assms by (auto split: option.splits)

theorem telemetry_dropped_witness:
  "applyEvent noop_deps (TelemetryReceived ''a'' 1 7 90) (demo_room, 5) = (demo_room, 5)"
  by (rule telemetry_dropped) (use demo_room_simps(8) in \<open>auto simp del: map_of_eq_Some_iff\<close>)

text \<open>As long as a participant stays in the room, no event takes back what they achieved: the
  identity and first connection time stay, the sequence number and the disconnect count never
  decrease, and a finish rank and finish time, once given, never change.\<close>

theorem progress_is_kept:
  assumes "mget (participants r) u = Some p"
    and "mget (participants (fst (applyEvent d ev (r, w)))) u = Some q"
  shows "UserID q = UserID p \<and> DisplayName q = DisplayName p \<and> ConnectedAt q = ConnectedAt p
    \<and> LastSeq p \<le> LastSeq q \<and> DisconnectedCount p \<le> DisconnectedCount q
    \<and> (\<forall>k. FinishRank p = Some k \<longrightarrow> FinishRank q = Some k \<and> FinishedAt q = FinishedAt p)"
  using applyEvent_advances [OF assms] by (simp add: entry_advances_def)

theorem progress_is_kept_witness:
  "\<exists>q. mget (participants (fst (applyEvent noop_deps (ParticipantDisconnected ''a'') (demo_room, 9)))) ''a'' = Some q
     \<and> FinishRank q = Some 1 \<and> DisconnectedCount q = 1"
proof -
  obtain p where p: "mget (participants demo_room) ''a'' = Some p" "FinishRank p = Some 1"
    using demo_room_simps(6) by auto
  obtain q where q: "mget (participants (fst (applyEvent noop_deps (ParticipantDisconnected ''a'') (demo_room, 9)))) ''a''
      = Some q" "DisconnectedCount q = 1"
    by (simp add: demo_room_def demo_events_def store_down_deps_def noop_simps room_exec)
  from progress_is_kept [OF p(1) q(1)] p(2) q show ?thesis by auto
qed

text \<open>A participant who drops and comes back keeps everything but the disconnect count, which
  goes up by one; they are not counted as a new participant, the grace timer armed by the drop is
  gone, and an expiry that was already on its way no longer removes them.\<close>

theorem reconnect_keeps_seat:
  assumes "mget (participants r) u = Some p" "graceTimer p = None"
    and "\<forall>t \<in> set (timers r). tm_id t < next_timer r"
    and r': "r' = fst (applyEvents d
      [ParticipantDisconnected u, ParticipantJoined u name, ParticipantEvicted u] (r, w))"
  shows "mget (participants r') u
      = Some (p\<lparr>DisconnectedAt := None, DisconnectedCount := DisconnectedCount p + 1, graceTimer := None\<rparr>)
    \<and> totalParticipants r' = totalParticipants r \<and> timers r' = timers r"
proof -
  have keep: "filter (\<lambda>t. tm_id t \<noteq> next_timer r) (timers r) = timers r"
    using assms(3) by (auto simp: filter_id_conv)
  show ?thesis
    using assms(1,2) keep
    by (simp add: r' room_exec case_prod_unfold del: map_of_eq_Some_iff)
qed

theorem reconnect_keeps_seat_witness:
  "timers (fst (applyEvents noop_deps
      [ParticipantDisconnected ''a'', ParticipantJoined ''a'' ''Ann'', ParticipantEvicted ''a''] (demo_room, 7)))
    = timers demo_room"
proof -
  obtain p where p: "mget (participants demo_room) ''a'' = Some p" "graceTimer p = None"
    using demo_room_simps(9) by auto
  have "\<forall>t \<in> set (timers demo_room). tm_id t < next_timer demo_room"
    using demo_room_simps(12,13) by simp
  from reconnect_keeps_seat [OF p this refl, of noop_deps "''Ann''" 7] show ?thesis by blast
qed

text \<open>Leaving an active race takes the participant out of the live map at once, keeps their state
  for the results, marks them evicted, and - the results being persisted - ends the race exactly
  when nobody else is still racing.\<close>

theorem leave_active_race:
  assumes "room_inv r" "active r" "\<not> finished r" "mget (participants r) u = Some p"
    and ok: "\<And>c i n rs w. fst (FinishRace d c i n rs w) = None"
    and r'_def: "r' = fst (applyEvent d (ParticipantLeft u) (r, w))"
  shows "mget (participants r') u = None \<and> mget (departedParticipants r') u = Some p \<and> u \<in> evicted r'
    \<and> (finished r' \<longleftrightarrow> (\<forall>v q. v \<noteq> u \<longrightarrow> mget (participants r) v = Some q \<longrightarrow> FinishRank q \<noteq> None))"
proof -
  have r': "r' = fst (departParticipant d u p (r, w))" using assms(2,4) by (simp add: r'_def)
  have "distinct (mkeys (mdel u (participants r)))"
    using assms(1) by (simp add: room_inv_def entries_ok_def distinct_delete)
  from list_ex_racing [OF this] have "finished r' \<longleftrightarrow> (\<forall>v q. v \<noteq> u \<longrightarrow>
      mget (participants r) v = Some q \<longrightarrow> FinishRank q \<noteq> None)"
    unfolding r' depart_finishes [OF ok assms(2,3)] by (auto split: if_splits)
  then show ?thesis by (simp add: r' depart_fields del: map_of_eq_Some_iff)
qed

theorem leave_active_race_witness:
  "let r' = fst (applyEvent noop_deps (ParticipantLeft ''b'') (demo_room, 8))
   in ''b'' \<in> evicted r' \<and> finished r'"
proof -
  obtain p where p: "mget (participants demo_room) ''b'' = Some p" using demo_room_simps(7) by auto
  have inv: "room_inv demo_room" unfolding demo_room_def by (rule applyEvents_inv) (rule room_inv_new)
  have ok: "fst (FinishRace noop_deps c i n rs w) = None" for c i n rs w by (simp add: noop_deps_def)
  have "FinishRank q \<noteq> None" if "mget (participants demo_room) v = Some q" for v q
    using that by (auto simp: demo_room_def demo_events_def store_down_deps_def noop_simps room_exec
        split: if_splits)
  with leave_active_race [OF inv demo_room_simps(1,2) p ok refl, of 8] show ?thesis by auto
qed

end
