(* ===== verification/Room_Run.thy ===== *)
theory Room_Run
  imports Room_Properties
begin

text \<open>
  The goroutine of a room: \<^verbatim>\<open>RoomActor.Run\<close>'s select loop over the inbox, the ticker and the
  context, with the goroutines around it. \<^verbatim>\<open>RoomActor.Send\<close> is two steps: the caller offers an
  event, and either the inbox takes it (when the buffer has room) or a cancelled context lets the
  caller go. A timer that fires becomes a caller of \<^verbatim>\<open>Send\<close>. Go's select picks any ready
  case, so the steps are a relation and every interleaving is a run.
\<close>

section \<open>The state of a running room\<close>

record 'w room_run =
  running :: bool
  actor :: room_actor
  world :: 'w
  senders :: "room_event list" \<comment> \<open>goroutines inside \<^verbatim>\<open>Send\<close>, by the event they offer\<close>

text \<open>The events that reach \<^verbatim>\<open>Send\<close> from outside the package or through its methods
  \<^verbatim>\<open>MarkActive\<close> and \<^verbatim>\<open>IsEvicted\<close>; the other three come from timers only.\<close>

fun external :: "room_event \<Rightarrow> bool" where
  "external (ParticipantEvicted u) = False"
| "external noShowTimeout = False"
| "external pendingExpired = False"
| "external _ = True"

definition init_run :: "'w room_deps \<Rightarrow> race_id \<Rightarrow> int \<Rightarrow> nat \<Rightarrow> 'w \<Rightarrow> 'w room_run" where
  "init_run d i n cap w =
     (let (r, w') = NewRoomActor d i n cap w
      in \<lparr>running = True, actor = r, world = w', senders = []\<rparr>)"

text \<open>One turn of the loop body of \<^verbatim>\<open>Run\<close>: apply the event at the head of the inbox, or
  broadcast on a tick.\<close>

definition Run_receive :: "'w room_deps \<Rightarrow> room_event \<Rightarrow> room_event list \<Rightarrow> 'w room_run \<Rightarrow> 'w room_run" where
  "Run_receive d ev rest s =
     (let (r, w) = applyEvent d ev ((actor s)\<lparr>inbox := rest\<rparr>, world s)
      in s\<lparr>actor := r, world := w\<rparr>)"

definition Run_tick :: "'w room_deps \<Rightarrow> 'w room_run \<Rightarrow> 'w room_run" where
  "Run_tick d s =
     (let (r, w) = broadcastSnapshot d (actor s, world s)
      in s\<lparr>actor := r, world := w\<rparr>)"

definition Send_offer :: "room_event \<Rightarrow> 'w room_run \<Rightarrow> 'w room_run" where
  "Send_offer ev s = s\<lparr>senders := senders s @ [ev]\<rparr>"

definition Send_deliver :: "room_event \<Rightarrow> 'w room_run \<Rightarrow> 'w room_run" where
  "Send_deliver ev s =
     s\<lparr>actor := (actor s)\<lparr>inbox := inbox (actor s) @ [ev]\<rparr>, senders := remove1 ev (senders s)\<rparr>"

definition timer_fires :: "room_timer \<Rightarrow> 'w room_run \<Rightarrow> 'w room_run" where
  "timer_fires t s =
     Send_offer (tm_event t) (s\<lparr>actor := (actor s)\<lparr>timers := remove1 t (timers (actor s))\<rparr>\<rparr>)"

inductive run_step :: "'w room_deps \<Rightarrow> ('w \<Rightarrow> 'w \<Rightarrow> bool) \<Rightarrow> 'w room_run \<Rightarrow> 'w room_run \<Rightarrow> bool"
  for d :: "'w room_deps" and env :: "'w \<Rightarrow> 'w \<Rightarrow> bool" where
  receive: "running s \<Longrightarrow> inbox (actor s) = ev # rest \<Longrightarrow> run_step d env s (Run_receive d ev rest s)"
| tick: "running s \<Longrightarrow> run_step d env s (Run_tick d s)"
| return: "running s \<Longrightarrow> cancelled (actor s) \<Longrightarrow> run_step d env s (s\<lparr>running := False\<rparr>)"
| offer: "external ev \<Longrightarrow> run_step d env s (Send_offer ev s)"
| deliver: "ev \<in> set (senders s) \<Longrightarrow> length (inbox (actor s)) < inboxCapacity \<Longrightarrow>
    run_step d env s (Send_deliver ev s)"
| give_up: "ev \<in> set (senders s) \<Longrightarrow> cancelled (actor s) \<Longrightarrow>
    run_step d env s (s\<lparr>senders := remove1 ev (senders s)\<rparr>)"
| fire: "t \<in> set (timers (actor s)) \<Longrightarrow> tm_at t \<le> fst (Now d (world s)) \<Longrightarrow>
    run_step d env s (timer_fires t s)"
| cancel: "run_step d env s (s\<lparr>actor := (actor s)\<lparr>cancelled := True\<rparr>\<rparr>)"
| world: "env (world s) w' \<Longrightarrow> run_step d env s (s\<lparr>world := w'\<rparr>)"

inductive reachable_run ::
  "'w room_deps \<Rightarrow> ('w \<Rightarrow> 'w \<Rightarrow> bool) \<Rightarrow> 'w room_run \<Rightarrow> 'w room_run \<Rightarrow> bool"
  for d :: "'w room_deps" and env :: "'w \<Rightarrow> 'w \<Rightarrow> bool" and s0 :: "'w room_run" where
  start: "reachable_run d env s0 s0"
| step: "reachable_run d env s0 s \<Longrightarrow> run_step d env s t \<Longrightarrow> reachable_run d env s0 t"

inductive_cases run_stepE: "run_step d env s t"

lemmas run_defs = Run_receive_def Run_tick_def Send_offer_def Send_deliver_def timer_fires_def

section \<open>Invariants of every reachable state\<close>

lemma room_inv_inbox [simp]: "room_inv (r\<lparr>inbox := q\<rparr>) = room_inv r"
  by (simp add: room_inv_def entries_ok_def entry_ok_def counts_ok_def)

lemma room_inv_drop_timer [simp]: "room_inv (r\<lparr>timers := ts\<rparr>) = room_inv r"
  by (simp add: room_inv_def entries_ok_def entry_ok_def counts_ok_def)

lemma room_inv_cancel: "room_inv r \<Longrightarrow> room_inv (r\<lparr>cancelled := True\<rparr>)"
  by (simp add: room_inv_def entries_ok_def entry_ok_def counts_ok_def)

lemma check_inbox [simp]: "inbox (fst (checkRaceFinished d (r, w))) = inbox r"
  using checkRaceFinished_end_ok [of r d w] by (auto simp: end_ok_def ends_only_fields)

lemma snapshot_inbox [simp]: "inbox (fst (broadcastSnapshot d (r, w))) = inbox r"
  using broadcastSnapshot_end_ok [of r d w] by (auto simp: end_ok_def ends_only_fields)

lemma expire_inbox [simp]: "inbox (fst (expirePendingRoom d (r, w))) = inbox r"
  using expirePendingRoom_end_ok [of r d w] by (auto simp: end_ok_def ends_only_fields)

lemma StopTimer_inbox [simp]: "inbox (StopTimer t r) = inbox r"
  by (simp add: StopTimer_def split: option.splits)

lemma setParticipant_inbox [simp]: "inbox (setParticipant u p r) = inbox r"
  by (simp add: setParticipant_def)

lemma applyEvent_inbox [simp]: "inbox (fst (applyEvent d ev (r, w))) = inbox r"
  by (cases ev) (auto simp: Let_def case_prod_unfold AfterFunc_def departParticipant_def
      broadcastRaceStarted_def sendBroadcast_def split: option.splits)

definition run_inv :: "'w room_run \<Rightarrow> bool" where
  "run_inv s \<longleftrightarrow> room_inv (actor s) \<and> length (inbox (actor s)) \<le> inboxCapacity"

lemma init_run_inv: "run_inv (init_run d i n cap w)"
  using room_inv_new [of d i n cap w]
  by (simp add: init_run_def run_inv_def case_prod_unfold Let_def)
    (simp add: NewRoomActor_def AfterFunc_def Let_def case_prod_unfold)

lemma run_step_inv: "run_step d env s t \<Longrightarrow> run_inv s \<Longrightarrow> run_inv t"
proof (induction rule: run_step.induct)
  case (receive s ev rest)
  then show ?case
    using applyEvent_inv [of "(actor s)\<lparr>inbox := rest\<rparr>" d ev "world s"]
    by (simp add: run_inv_def Run_receive_def case_prod_unfold Let_def)
next
  case (tick s)
  then show ?case
    using inv_snapshot [of "actor s" d "world s"]
    by (simp add: run_inv_def Run_tick_def case_prod_unfold Let_def)
qed (auto simp: run_inv_def run_defs room_inv_cancel)

lemma reachable_run_inv:
  "reachable_run d env s0 s \<Longrightarrow> run_inv s0 \<Longrightarrow> run_inv s"
  by (induction rule: reachable_run.induct) (auto intro: run_step_inv)

section \<open>A pending room never loses its expiry\<close>

text \<open>The two timers of the constructor have the identities 0 and 1, grace timers start at 2.\<close>

definition grace_ids :: "room_actor \<Rightarrow> bool" where
  "grace_ids r \<longleftrightarrow> 2 \<le> next_timer r \<and>
     (\<forall>u p k. mget (participants r) u = Some p \<and> graceTimer p = Some k \<longrightarrow> 2 \<le> k)"

definition early_timers :: "room_actor \<Rightarrow> room_timer set" where
  "early_timers r = {t \<in> set (timers r). tm_id t < 2}"

definition expiry_armed :: "'w room_run \<Rightarrow> bool" where
  "expiry_armed s \<longleftrightarrow>
     (\<exists>t \<in> early_timers (actor s). tm_event t = pendingExpired) \<or>
     pendingExpired \<in> set (senders s) \<or> pendingExpired \<in> set (inbox (actor s))"

text \<open>Being active, finished or cancelled is for ever.\<close>

definition moved_on :: "room_actor \<Rightarrow> bool" where
  "moved_on r \<longleftrightarrow> active r \<or> finished r \<or> cancelled r"

definition expiry_inv :: "'w room_run \<Rightarrow> bool" where
  "expiry_inv s \<longleftrightarrow> grace_ids (actor s) \<and>
     (moved_on (actor s) \<or> expiry_armed s)"

lemma end_ok_timers:
  assumes "end_ok r r'"
  shows "grace_ids r' = grace_ids r" "early_timers r' = early_timers r"
    "active r' = active r"
  using assms by (auto simp: end_ok_def grace_ids_def early_timers_def ends_only_fields)

lemma early_StopTimer:
  "(\<And>k. t = Some k \<Longrightarrow> 2 \<le> k) \<Longrightarrow> early_timers (StopTimer t r) = early_timers r"
  by (auto simp: StopTimer_def early_timers_def split: option.splits)

lemma grace_idsD:
  "grace_ids r \<Longrightarrow> mget (participants r) u = Some p \<Longrightarrow> graceTimer p = Some k \<Longrightarrow> 2 \<le> k"
  by (auto simp: grace_ids_def)

lemma grace_ids_set:
  "grace_ids r \<Longrightarrow> (\<And>k. graceTimer p = Some k \<Longrightarrow> 2 \<le> k) \<Longrightarrow> grace_ids (setParticipant u p r)"
  by (auto simp: grace_ids_def setParticipant_def simp del: map_of_eq_Some_iff split: if_splits)

lemma grace_ids_StopTimer [simp]: "grace_ids (StopTimer t r) = grace_ids r"
  by (simp add: grace_ids_def)

lemma timers_count [simp]:
  "grace_ids (r\<lparr>finishedCount := c\<rparr>) = grace_ids r"
  "early_timers (r\<lparr>finishedCount := c\<rparr>) = early_timers r"
  "grace_ids (r\<lparr>totalParticipants := c\<rparr>) = grace_ids r"
  "early_timers (r\<lparr>totalParticipants := c\<rparr>) = early_timers r"
  by (simp_all add: grace_ids_def early_timers_def)

lemma early_set [simp]: "early_timers (setParticipant u p r) = early_timers r"
  by (simp add: early_timers_def setParticipant_def)

lemma timers_joined:
  assumes "grace_ids r"
  shows "grace_ids (fst (applyEvent d (ParticipantJoined u n) (r, w)))
    \<and> early_timers (fst (applyEvent d (ParticipantJoined u n) (r, w))) = early_timers r"
proof (cases "mget (participants r) u")
  case None
  have "grace_ids (setParticipant u p r)" if "graceTimer p = None" for p
    by (rule grace_ids_set [OF assms]) (simp add: that)
  then show ?thesis
    by (simp add: None Let_def case_prod_unfold end_ok_timers [OF broadcastSnapshot_end_ok])
next
  case (Some p)
  then show ?thesis
    using assms early_StopTimer [of "graceTimer p" r] grace_idsD [OF assms Some]
    by (auto simp: end_ok_timers [OF broadcastSnapshot_end_ok] intro!: grace_ids_set)
qed

lemma timers_disconnected:
  assumes "grace_ids r"
  shows "grace_ids (fst (applyEvent d (ParticipantDisconnected u) (r, w)))
    \<and> early_timers (fst (applyEvent d (ParticipantDisconnected u) (r, w))) = early_timers r"
proof (cases "mget (participants r) u")
  case None
  then show ?thesis using assms by simp
next
  case (Some p)
  have n: "2 \<le> next_timer r" using assms by (simp add: grace_ids_def)
  let ?r = "\<lambda>t k. (StopTimer (graceTimer p) r)\<lparr>timers := timers (StopTimer (graceTimer p) r)
      @ [\<lparr>tm_id = next_timer r, tm_at = t, tm_event = ParticipantEvicted u\<rparr>], next_timer := Suc (next_timer r)\<rparr>"
  have "early_timers (?r t k) = early_timers r" for t k
    using n early_StopTimer [of "graceTimer p" r] grace_idsD [OF assms Some]
    by (auto simp: early_timers_def)
  moreover have "grace_ids (?r t k)" for t k
    using assms by (auto simp: grace_ids_def)
  ultimately show ?thesis
    using n by (auto simp: Some Let_def case_prod_unfold AfterFunc_def intro!: grace_ids_set)
qed

lemma timers_telemetry:
  assumes "grace_ids r"
  shows "grace_ids (fst (applyEvent d (TelemetryReceived u s n x) (r, w)))
    \<and> early_timers (fst (applyEvent d (TelemetryReceived u s n x) (r, w))) = early_timers r"
proof (cases "mget (participants r) u")
  case None
  then show ?thesis using assms by simp
next
  case (Some p)
  then show ?thesis
    using assms grace_idsD [OF assms Some]
    by (auto simp: Let_def case_prod_unfold end_ok_timers [OF checkRaceFinished_end_ok]
        intro!: grace_ids_set)
qed

lemma grace_ids_mdel: "grace_ids r \<Longrightarrow> grace_ids (r\<lparr>participants := mdel u (participants r)\<rparr>)"
  by (auto simp: grace_ids_def simp del: map_of_eq_Some_iff split: if_splits)

lemma timers_depart:
  assumes "grace_ids r"
  shows "grace_ids (fst (departParticipant d u p (r, w)))
    \<and> early_timers (fst (departParticipant d u p (r, w))) = early_timers r"
  using grace_ids_mdel [OF assms, of u]
  by (simp add: departParticipant_def Let_def case_prod_unfold end_ok_timers [OF checkRaceFinished_end_ok])
    (simp add: grace_ids_def early_timers_def)

lemma applyEvent_timers:
  assumes "grace_ids r"
  shows "grace_ids (fst (applyEvent d ev (r, w)))
    \<and> early_timers (fst (applyEvent d ev (r, w))) = early_timers r"
proof (cases ev)
  case (ParticipantLeft u)
  have "early_timers (r\<lparr>participants := m\<rparr>) = early_timers r" for m by (simp add: early_timers_def)
  then show ?thesis
    using grace_ids_mdel [OF assms] assms ParticipantLeft
    by (cases "mget (participants r) u")
      (simp_all add: Let_def case_prod_unfold end_ok_timers [OF checkRaceFinished_end_ok]
        timers_depart [OF assms])
next
  case (ParticipantEvicted u)
  with assms show ?thesis
    by (cases "mget (participants r) u") (simp_all add: timers_depart [OF assms])
next
  case (activated x)
  with assms show ?thesis
    by (simp add: broadcastRaceStarted_def end_ok_timers [OF sendBroadcast_end_ok])
      (simp add: grace_ids_def early_timers_def)
next
  case (evictionQuery u c)
  with assms show ?thesis by (simp add: grace_ids_def early_timers_def)
qed (simp_all only: timers_joined [OF assms] timers_disconnected [OF assms] timers_telemetry [OF assms],
     simp_all add: assms end_ok_timers [OF checkRaceFinished_end_ok] end_ok_timers [OF expirePendingRoom_end_ok])

lemma moved_on_simps [simp]:
  "moved_on (setParticipant u p r) = moved_on r"
  "moved_on (StopTimer t r) = moved_on r"
  "moved_on (sendBroadcast m r) = moved_on r"
  "moved_on (r\<lparr>inbox := q\<rparr>) = moved_on r"
  "moved_on (r\<lparr>participants := ps\<rparr>) = moved_on r"
  "moved_on (r\<lparr>departedParticipants := ps\<rparr>) = moved_on r"
  "moved_on (r\<lparr>evicted := e\<rparr>) = moved_on r"
  "moved_on (r\<lparr>totalParticipants := n\<rparr>) = moved_on r"
  "moved_on (r\<lparr>finishedCount := n\<rparr>) = moved_on r"
  "moved_on (r\<lparr>tickCount := n\<rparr>) = moved_on r"
  "moved_on (r\<lparr>timers := ts\<rparr>) = moved_on r"
  "moved_on (r\<lparr>next_timer := k\<rparr>) = moved_on r"
  "moved_on (r\<lparr>replies := rs\<rparr>) = moved_on r"
  by (simp_all add: moved_on_def setParticipant_def sendBroadcast_def)

lemma moved_on_snapshot [simp]: "moved_on (fst (broadcastSnapshot d (r, w))) = moved_on r"
  by (simp add: broadcastSnapshot_eq)

lemma moved_on_expire: "moved_on r \<Longrightarrow> moved_on (fst (expirePendingRoom d (r, w)))"
  by (simp add: expirePendingRoom_def broadcastRaceExpired_def moved_on_def sendBroadcast_def
      split: prod.splits option.splits)

lemma moved_on_finish: "moved_on r \<Longrightarrow> moved_on (fst (finishRace d results (r, w)))"
  using moved_on_snapshot [of d r w]
  by (auto simp: finishRace_def Let_def case_prod_unfold moved_on_def sendBroadcast_def
      split: option.splits)

lemma moved_on_check: "moved_on r \<Longrightarrow> moved_on (fst (checkRaceFinished d (r, w)))"
  by (simp add: checkRaceFinished_def Let_def case_prod_unfold moved_on_expire moved_on_finish)

lemma moved_on_event: "moved_on r \<Longrightarrow> moved_on (fst (applyEvent d ev (r, w)))"
  by (cases ev) (auto simp: Let_def case_prod_unfold AfterFunc_def departParticipant_def
      broadcastRaceStarted_def moved_on_check moved_on_expire split: option.splits,
      simp add: moved_on_def)

text \<open>With a store that can cancel, the expiry of a pending room ends it.\<close>

lemma expire_moves_on:
  assumes "\<And>c i w. fst (CancelRace d c i w) = None"
  shows "moved_on (fst (expirePendingRoom d (r, w)))"
proof -
  obtain w' where "CancelRace d (cancelled r) (room_id r) w = (None, w')"
    using assms [of "cancelled r" "room_id r" w] by (metis prod.collapse)
  then show ?thesis by (simp add: expirePendingRoom_def moved_on_def)
qed

lemma pendingExpired_moves_on:
  assumes "\<And>c i w. fst (CancelRace d c i w) = None"
  shows "moved_on (fst (applyEvent d pendingExpired (r, w)))"
  using expire_moves_on [OF assms] by (auto simp: moved_on_def)

lemma init_run_expiry: "expiry_inv (init_run d i n cap w)"
proof -
  have "actor (init_run d i n cap w) = fst (NewRoomActor d i n cap w)"
    by (simp add: init_run_def Let_def case_prod_unfold)
  moreover have "\<exists>a b. timers (fst (NewRoomActor d i n cap w)) =
      [\<lparr>tm_id = 0, tm_at = a, tm_event = noShowTimeout\<rparr>, \<lparr>tm_id = 1, tm_at = b, tm_event = pendingExpired\<rparr>]"
    "next_timer (fst (NewRoomActor d i n cap w)) = 2" "participants (fst (NewRoomActor d i n cap w)) = []"
    by (simp_all add: NewRoomActor_def AfterFunc_def Let_def case_prod_unfold)
  ultimately show ?thesis
    by (auto simp: expiry_inv_def grace_ids_def expiry_armed_def early_timers_def)
qed

lemma receive_expiry:
  assumes ok: "\<And>c i w. fst (CancelRace d c i w) = None"
    and inv: "expiry_inv s" and q: "inbox (actor s) = ev # rest"
  shows "expiry_inv (Run_receive d ev rest s)"
proof -
  let ?r = "(actor s)\<lparr>inbox := rest\<rparr>" and ?r' = "fst (applyEvent d ev ((actor s)\<lparr>inbox := rest\<rparr>, world s))"
  have s': "actor (Run_receive d ev rest s) = ?r'" "senders (Run_receive d ev rest s) = senders s"
    by (simp_all add: Run_receive_def Let_def case_prod_unfold)
  have g: "grace_ids ?r" using inv by (simp add: expiry_inv_def grace_ids_def)
  have e: "early_timers ?r = early_timers (actor s)" by (simp add: early_timers_def)
  have "moved_on ?r' \<or> expiry_armed (Run_receive d ev rest s)"
  proof (cases "moved_on (actor s) \<or> ev = pendingExpired")
    case True
    then show ?thesis
      using pendingExpired_moves_on [OF ok, of ?r "world s"] moved_on_event [of ?r d ev "world s"] by auto
  next
    case False
    with inv have "expiry_armed s" by (simp add: expiry_inv_def)
    then show ?thesis
      using False q by (auto simp: expiry_armed_def s' applyEvent_timers [OF g] e)
  qed
  then show ?thesis by (simp add: expiry_inv_def s' applyEvent_timers [OF g])
qed

lemma timer_fires_expiry:
  assumes "expiry_inv s" "t \<in> set (timers (actor s))"
  shows "expiry_inv (timer_fires t s)"
proof -
  have "expiry_armed (timer_fires t s)" if "expiry_armed s"
  proof (cases "tm_event t = pendingExpired")
    case True
    then show ?thesis by (simp add: expiry_armed_def timer_fires_def Send_offer_def)
  next
    case False
    then have "x \<in> set (remove1 t (timers (actor s)))"
      if "x \<in> set (timers (actor s))" "tm_event x = pendingExpired" for x
      using that by (metis in_set_remove1)
    with that False show ?thesis
      by (auto simp: expiry_armed_def timer_fires_def Send_offer_def early_timers_def)
  qed
  then show ?thesis
    using assms(1) by (auto simp: expiry_inv_def grace_ids_def timer_fires_def Send_offer_def)
qed

lemma run_step_expiry:
  assumes "run_step d env s t" and ok: "\<And>c i w. fst (CancelRace d c i w) = None" and "expiry_inv s"
  shows "expiry_inv t"
  using assms(1,3)
proof (induction rule: run_step.induct)
  case (receive s ev rest)
  then show ?case using receive_expiry [OF ok] by blast
next
  case (tick s)
  then show ?case
    by (simp add: expiry_inv_def expiry_armed_def Run_tick_def Let_def case_prod_unfold
        end_ok_timers [OF broadcastSnapshot_end_ok])
next
  case (deliver ev s)
  then show ?case
    by (cases "ev = pendingExpired")
      (auto simp: expiry_inv_def expiry_armed_def Send_deliver_def grace_ids_def early_timers_def in_set_remove1)
next
  case (fire t s)
  then show ?case by (simp add: timer_fires_expiry)
qed (auto simp: expiry_inv_def expiry_armed_def Send_offer_def moved_on_def grace_ids_def early_timers_def)

lemma reachable_run_expiry:
  "reachable_run d env s0 s \<Longrightarrow> (\<And>c i w. fst (CancelRace d c i w) = None) \<Longrightarrow> expiry_inv s0 \<Longrightarrow> expiry_inv s"
  by (induction rule: reachable_run.induct) (auto intro: run_step_expiry)

section \<open>A cancelled room stays cancelled\<close>

lemma finishRace_cancelled: "cancelled r \<Longrightarrow> cancelled (fst (finishRace d results (r, w)))"
  by (auto simp: finishRace_def Let_def case_prod_unfold sendBroadcast_def broadcastSnapshot_def split: option.split)

lemma expirePendingRoom_cancelled: "cancelled r \<Longrightarrow> cancelled (fst (expirePendingRoom d (r, w)))"
  by (auto simp: expirePendingRoom_def broadcastRaceExpired_def sendBroadcast_def split: option.split prod.split)

lemma checkRaceFinished_cancelled: "cancelled r \<Longrightarrow> cancelled (fst (checkRaceFinished d (r, w)))"
  by (auto simp: checkRaceFinished_def Let_def case_prod_unfold finishRace_cancelled expirePendingRoom_cancelled)

lemma applyEvent_cancelled: "cancelled r \<Longrightarrow> cancelled (fst (applyEvent d ev (r, w)))"
  by (cases ev) (auto simp: Let_def case_prod_unfold AfterFunc_def departParticipant_def setParticipant_def
      broadcastRaceStarted_def broadcastSnapshot_def sendBroadcast_def StopTimer_def
      checkRaceFinished_cancelled expirePendingRoom_cancelled split: option.splits)

lemma run_step_cancelled: "run_step d env s t \<Longrightarrow> cancelled (actor s) \<Longrightarrow> cancelled (actor t)"
  by (induction rule: run_step.induct)
    (simp_all add: run_defs Let_def case_prod_unfold broadcastSnapshot_def sendBroadcast_def applyEvent_cancelled)

section \<open>Properties\<close>

text \<open>C2: In every state a running room can reach, with any interleaving of the inbox, the ticker,
  timers, senders and cancellation, and with a world that changes underneath it, the actor's
  invariant holds and the inbox never holds more than its 64 slots.\<close>

theorem running_room_inv:
  assumes "reachable_run d env (init_run d i n cap w) s"
  shows "room_inv (actor s) \<and> length (inbox (actor s)) \<le> 64"
  using reachable_run_inv [OF assms init_run_inv] by (simp add: run_inv_def inboxCapacity_def)

theorem running_room_inv_witness:
  "\<exists>s. reachable_run noop_deps (\<lambda>_ _. False) (init_run noop_deps ''r1'' 2 16 0) s
     \<and> inbox (actor s) = [ParticipantLeft ''a''] \<and> room_inv (actor s)"
proof -
  let ?s0 = "init_run noop_deps ''r1'' 2 16 0"
  let ?s1 = "Send_offer (ParticipantLeft ''a'') ?s0"
  let ?s2 = "Send_deliver (ParticipantLeft ''a'') ?s1"
  have s1: "reachable_run noop_deps (\<lambda>_ _. False) ?s0 ?s1"
    by (rule reachable_run.step [OF reachable_run.start run_step.offer]) simp
  have q: "inbox (actor ?s1) = []" "ParticipantLeft ''a'' \<in> set (senders ?s1)"
    by (simp_all add: init_run_def Send_offer_def NewRoomActor_def AfterFunc_def noop_simps noop_deps_def)
  have s2: "reachable_run noop_deps (\<lambda>_ _. False) ?s0 ?s2"
    by (rule reachable_run.step [OF s1 run_step.deliver [OF q(2)]]) (simp add: q inboxCapacity_def)
  have "inbox (actor ?s2) = [ParticipantLeft ''a'']" using q by (simp add: Send_deliver_def)
  with s2 running_room_inv [OF s2] show ?thesis by blast
qed



end
