(* ===== verification/Room_Endings.thy ===== *)
theory Room_Endings
  imports Room_Run
begin

text \<open>
  Further promises of the room actor: what a snapshot tells the listeners, what accepted telemetry
  does, when a lobby is torn down, and that a room that has ended stays ended without touching its
  store again. The last section runs the actor on the schedules where it does not do what its
  comments say.
\<close>

section \<open>Rooms that are over\<close>

lemma check_finished [simp]: "finished r \<Longrightarrow> checkRaceFinished d (r, w) = (r, w)"
  by (simp add: checkRaceFinished_def)

lemma check_finishedCount [simp]:
  "finishedCount (fst (checkRaceFinished d (r, w))) = finishedCount r"
  using checkRaceFinished_end_ok [of r d w] by (auto simp: end_ok_def ends_only_fields)

lemma snapshot_flags [simp]:
  "finished (fst (broadcastSnapshot d (r, w))) = finished r"
  "cancelled (fst (broadcastSnapshot d (r, w))) = cancelled r"
  "active (fst (broadcastSnapshot d (r, w))) = active r"
  by (simp_all add: broadcastSnapshot_eq sendBroadcast_def)

lemma setParticipant_flags [simp]:
  "finished (setParticipant u p r) = finished r"
  "cancelled (setParticipant u p r) = cancelled r"
  "active (setParticipant u p r) = active r"
  by (simp_all add: setParticipant_def)

lemma snapshot_store [simp]:
  "broadcastSnapshot (d\<lparr>FinishRace := f, CancelRace := c, PublishRaceFinished := p\<rparr>) s = broadcastSnapshot d s"
  by (simp add: broadcastSnapshot_def)

lemma AfterFunc_store [simp]:
  "AfterFunc (d\<lparr>FinishRace := f, CancelRace := c, PublishRaceFinished := p\<rparr>) = AfterFunc d"
  by (simp add: AfterFunc_def fun_eq_iff)

section \<open>Lobbies\<close>

lemma check_lobby:
  assumes "room_inv r" "\<not> active r" "participants r \<noteq> []"
  shows "checkRaceFinished d (r, w) = (r, w)"
proof -
  obtain u p where up: "(u, p) \<in> set (participants r)" using assms(3) by (cases "participants r") auto
  then have "racing p"
    using assms(1,2) by (auto simp: room_inv_def entries_ok_def entry_ok_def racing_def)
  with up show ?thesis by (intro check_not_ending) (force simp: list_ex_iff)
qed

definition demo_lobby :: room_actor where
  "demo_lobby = fst (applyEvents noop_deps [ParticipantJoined ''b'' ''Bob'', ParticipantJoined ''a'' ''Ann'']
     (NewRoomActor noop_deps ''r1'' 2 16 0))"

section \<open>Properties\<close>

text \<open>C25: A snapshot tells every listener about exactly the live participants: the message carries the
  next tick number, ranks 1 to n in list order, nobody with fewer words ahead of somebody with
  more, and the users listed are a permutation of the live ones. It is queued behind the messages
  already buffered, or dropped when the buffer is full, and changes nothing else.\<close>

theorem snapshot_ranking:
  assumes "map_iteration d" "room_inv r"
  shows "\<exists>js. fst (broadcastSnapshot d (r, w))
      = r\<lparr>tickCount := tickCount r + 1,
          broadcast := (if length (broadcast r) < broadcast_cap r
                        then broadcast r @ [RaceStateMessage (tickCount r + 1) js] else broadcast r)\<rparr>
    \<and> map sj_Rank js = [1..<Suc (length (participants r))]
    \<and> sorted_wrt (\<ge>) (map sj_DistanceM js)
    \<and> mset (map sj_UserID js) = mset (mkeys (participants r))"
proof (intro exI conjI)
  let ?kvs = "fst (MapIter d (participants r) w)"
  show "fst (broadcastSnapshot d (r, w))
      = r\<lparr>tickCount := tickCount r + 1,
          broadcast := (if length (broadcast r) < broadcast_cap r
            then broadcast r @ [RaceStateMessage (tickCount r + 1) (rank_participants ?kvs)] else broadcast r)\<rparr>"
    by (simp add: broadcastSnapshot_eq sendBroadcast_def chan_try_send_def)
  show "map sj_Rank (rank_participants ?kvs) = [1..<Suc (length (participants r))]"
    using rank_participants_ranks [of ?kvs] map_iteration.iter_length [OF assms(1), of "participants r" w]
    by simp
  show "sorted_wrt (\<ge>) (map sj_DistanceM (rank_participants ?kvs))" by (rule rank_participants_sorted)
  have "UserID p = u" if "(u, p) \<in> set (participants r)" for u p
    using that assms(2) by (auto simp: room_inv_def entries_ok_def entry_ok_def)
  then have "map (UserID \<circ> snd) (participants r) = mkeys (participants r)" by auto
  then show "mset (map sj_UserID (rank_participants ?kvs)) = mset (mkeys (participants r))"
    using rank_participants_users [of ?kvs] map_iteration.iter_map [OF assms(1), of "UserID \<circ> snd" "participants r" w]
    by (simp only:)
qed

theorem snapshot_ranking_witness:
  "\<exists>js. broadcast (fst (broadcastSnapshot noop_deps (demo_room, 4)))
      = broadcast demo_room @ [RaceStateMessage (tickCount demo_room + 1) js]
    \<and> mset (map sj_UserID js) = {#''a'', ''b''#}"
proof -
  have inv: "room_inv demo_room" unfolding demo_room_def by (rule applyEvents_inv) (rule room_inv_new)
  have "length (broadcast demo_room) < broadcast_cap demo_room"
    by (simp add: demo_room_def demo_events_def store_down_deps_def noop_simps room_exec)
  with snapshot_ranking [OF noop.map_iteration_axioms inv, of 4] demo_room_simps(4) show ?thesis by auto
qed

text \<open>C23: Accepted telemetry replaces the words, pace and sequence number of its sender, publishes
  exactly these values as a workout sample, and gives a sender who reaches the race's length for
  the first time the next finish rank; the sender's other data and everybody else's entry stay.\<close>

theorem telemetry_applied:
  assumes "active r" "mget (participants r) u = Some p" "LastSeq p < seq"
    and "(r', w') = applyEvent d (TelemetryReceived u seq words pace) (r, w)"
    and "wp = snd (PublishWorkoutSample d (cancelled r) (room_id r) u (fst (Now d w)) words pace (snd (Now d w)))"
  shows "\<exists>t k. participants r' = mput u (p\<lparr>WordsCorrect := words, LastSeq := seq, PaceWatt := pace,
             FinishedAt := t, FinishRank := k\<rparr>) (participants r)
    \<and> (if FinishRank p = None \<and> distanceMeters r \<le> words
       then t = Some (fst (Now d wp)) \<and> k = Some (finishedCount r + 1)
         \<and> finishedCount r' = finishedCount r + 1
         \<and> (\<exists>r1. (r', w') = checkRaceFinished d (r1, snd (Now d wp)))
       else t = FinishedAt p \<and> k = FinishRank p
         \<and> finishedCount r' = finishedCount r \<and> w' = wp)"
proof (cases "FinishRank p = None \<and> distanceMeters r \<le> words")
  case True
  let ?q = "p\<lparr>WordsCorrect := words, LastSeq := seq, PaceWatt := pace,
    FinishedAt := Some (fst (Now d wp)), FinishRank := Some (finishedCount r + 1)\<rparr>"
  let ?r1 = "(setParticipant u ?q r)\<lparr>finishedCount := finishedCount r + 1\<rparr>"
  have run: "(r', w') = checkRaceFinished d (?r1, snd (Now d wp))"
    using assms True by (simp add: Let_def case_prod_unfold setParticipant_def del: map_of_eq_Some_iff)
  then have r': "r' = fst (checkRaceFinished d (?r1, snd (Now d wp)))" by (metis fst_conv)
  have "participants r' = mput u ?q (participants r)" "finishedCount r' = finishedCount r + 1"
    by (simp_all add: r' setParticipant_def)
  with True run show ?thesis by auto
next
  case False
  with assms show ?thesis
    by (auto simp: Let_def case_prod_unfold setParticipant_def simp del: map_of_eq_Some_iff)
qed

theorem telemetry_applied_witness:
  "\<exists>q. mget (participants (fst (applyEvent noop_deps (TelemetryReceived ''a'' 2 3 90) (demo_room, 5)))) ''a''
      = Some q \<and> FinishRank q = Some 1 \<and> WordsCorrect q = 3"
proof -
  obtain p where p: "mget (participants demo_room) ''a'' = Some p" "LastSeq p = 1" "FinishRank p = Some 1"
    using demo_room_simps(6,8) by auto
  then have "LastSeq p < 2" by simp
  from telemetry_applied [OF demo_room_simps(1) p(1) this prod.collapse refl, of noop_deps 3 90 5] p(3)
  show ?thesis by auto
qed

text \<open>A lobby with somebody in it is torn down by nothing but its expiry: any other event that
  leaves at least one participant in the room keeps it open.\<close>

theorem lobby_stays_open:
  assumes "room_inv r" "\<not> active r" "\<not> finished r" "ev \<noteq> pendingExpired"
    and "r' = fst (applyEvent d ev (r, w))" "participants r' \<noteq> []"
  shows "\<not> finished r' \<and> cancelled r' = cancelled r"
proof (cases ev)
  case (ParticipantEvicted u)
  show ?thesis
  proof (cases "mget (participants r) u")
    case (Some p)
    let ?r1 = "r\<lparr>participants := mdel u (participants r),
      departedParticipants := mput u p (departedParticipants r), evicted := insert u (evicted r)\<rparr>"
    have "participants r' = participants r \<or> participants r' = mdel u (participants r)"
      using assms(5) Some ParticipantEvicted by simp
    moreover have "checkRaceFinished d (?r1, v) = (?r1, v)" if "mdel u (participants r) \<noteq> []" for v
      using check_lobby [OF room_inv_move [OF assms(1) Some]] assms(2) that by simp
    ultimately show ?thesis
      using assms Some ParticipantEvicted
      by (auto simp: departParticipant_def Let_def case_prod_unfold simp del: map_of_eq_Some_iff)
  qed (use assms ParticipantEvicted in simp)
next
  case (ParticipantLeft u)
  show ?thesis
  proof (cases "mget (participants r) u")
    case (Some p)
    have "checkRaceFinished d (r\<lparr>participants := mdel u (participants r)\<rparr>, v)
        = (r\<lparr>participants := mdel u (participants r)\<rparr>, v)" if "mdel u (participants r) \<noteq> []" for v
      using check_lobby [OF room_inv_remove [OF assms(1) Some]] assms(2) that by simp
    then show ?thesis
      using assms Some ParticipantLeft
      by (auto simp: Let_def case_prod_unfold simp del: map_of_eq_Some_iff)
  qed (use assms ParticipantLeft in simp)
next
  case noShowTimeout
  with assms show ?thesis by (simp add: check_lobby)
qed (use assms in \<open>auto simp: Let_def case_prod_unfold AfterFunc_def broadcastRaceStarted_def
       sendBroadcast_def split: option.splits\<close>)

theorem lobby_stays_open_witness:
  "\<not> finished (fst (applyEvent noop_deps (ParticipantLeft ''a'') (demo_lobby, 0)))"
proof -
  have "room_inv demo_lobby" unfolding demo_lobby_def by (rule applyEvents_inv) (rule room_inv_new)
  moreover have "\<not> active demo_lobby" "\<not> finished demo_lobby"
    "participants (fst (applyEvent noop_deps (ParticipantLeft ''a'') (demo_lobby, 0))) \<noteq> []"
    by (simp_all add: demo_lobby_def noop_simps room_exec)
  ultimately show ?thesis
    using lobby_stays_open [of demo_lobby "ParticipantLeft ''a''" _ noop_deps 0] by simp
qed

text \<open>C24: A room that has ended stays ended, and no event makes it finish, cancel or publish the race
  again: every event does the same whatever these three collaborators would do.\<close>

theorem ended_room_is_final:
  assumes "finished r"
  shows "applyEvent (d\<lparr>FinishRace := f, CancelRace := c, PublishRaceFinished := p\<rparr>) ev (r, w)
      = applyEvent d ev (r, w)
    \<and> finished (fst (applyEvent d ev (r, w)))"
  using assms
  by (cases ev) (auto simp: departParticipant_def Let_def case_prod_unfold broadcastRaceStarted_def
      sendBroadcast_def AfterFunc_def split: option.split)

theorem ended_room_is_final_witness:
  "let r = fst (applyEvent noop_deps pendingExpired (demo_lobby, 0))
   in applyEvent noop_deps noShowTimeout (r, 0) = applyEvent store_down_deps noShowTimeout (r, 0)
      \<and> finished (fst (applyEvent noop_deps noShowTimeout (r, 0)))"
proof -
  let ?r = "fst (applyEvent noop_deps pendingExpired (demo_lobby, 0))"
  have "finished ?r" by (simp add: demo_lobby_def noop_simps room_exec)
  from ended_room_is_final [OF this, where d = noop_deps and f = "\<lambda>ctx i n results w. (Some (ErrOther ''down''), w)"
      and c = "CancelRace noop_deps" and p = "PublishRaceFinished noop_deps" and ev = noShowTimeout and w = 0]
  show ?thesis by (simp add: store_down_deps_def)
qed

section \<open>Schedules where the actor departs from its comments\<close>

text \<open>The only participant of a started race leaves without finishing: the result the listeners and
  the store get has rank 1 and no finish time, and rank 1 is what counts as a win.\<close>

lemma lone_quitter_ranked_first:
  "RaceFinishedMessage [\<lparr>rj_UserID = ''a'', rj_FinishRank = Some 1, rj_FinishTimeMs = None, rj_AvgPaceWatt = 0\<rparr>]
     \<in> set (broadcast (fst (applyEvents noop_deps
         [ParticipantJoined ''a'' ''Ann'', activated ''go'', ParticipantLeft ''a''] (NewRoomActor noop_deps ''r1'' 2 16 0))))"
  by (simp add: noop_simps room_exec)

text \<open>Leaving a lobby and joining it again counts one user twice in \<^verbatim>\<open>totalParticipants\<close>.\<close>

lemma lobby_rejoin_counted_twice:
  "let r = fst (applyEvents noop_deps [ParticipantLeft ''a'', ParticipantJoined ''a'' ''Ann''] (demo_lobby, 0))
   in length (participants r) = 2 \<and> departedParticipants r = [] \<and> totalParticipants r = 3"
  by (simp add: demo_lobby_def noop_simps room_exec)

text \<open>Leaving a lobby does not stop the grace timer of an earlier drop. After a rejoin and a second
  drop that timer still holds an eviction of the user, ahead of the timer the second drop armed,
  and its event removes the user.\<close>

lemma stale_grace_timer_evicts:
  "let r = fst (applyEvents noop_deps [ParticipantDisconnected ''a'', ParticipantLeft ''a'',
             ParticipantJoined ''a'' ''Ann'', ParticipantDisconnected ''a''] (demo_lobby, 0))
   in (\<exists>t \<in> set (timers r). tm_event t = ParticipantEvicted ''a''
        \<and> map_option graceTimer (mget (participants r) ''a'') = Some (Some 3) \<and> tm_id t = 2)
      \<and> mget (participants (fst (applyEvent noop_deps (ParticipantEvicted ''a'') (r, 0)))) ''a'' = None"
  by (simp add: demo_lobby_def noop_simps room_exec)

text \<open>With two connections of one user, the drop of one arms the grace timer and the telemetry of
  the other does not stop it: the timer evicts a user who is typing.\<close>

lemma second_tab_evicted:
  "let r = fst (applyEvents noop_deps [activated ''go'', ParticipantJoined ''a'' ''Ann'', ParticipantDisconnected ''a'',
             TelemetryReceived ''a'' 1 1 60, ParticipantEvicted ''a''] (demo_lobby, 0))
   in mget (participants r) ''a'' = None \<and> ''a'' \<in> evicted r"
  by (simp add: demo_lobby_def noop_simps room_exec)

text \<open>A user evicted from an active race who joins again over an open connection is a new
  participant beside their departed self: the results list the user twice.\<close>

lemma evicted_user_rejoins:
  "let r = fst (applyEvents noop_deps [activated ''go'', ParticipantDisconnected ''a'', ParticipantEvicted ''a'',
             ParticipantJoined ''a'' ''Ann''] (demo_lobby, 0))
   in mget (participants r) ''a'' \<noteq> None \<and> mget (departedParticipants r) ''a'' \<noteq> None
      \<and> ''a'' \<in> evicted r \<and> totalParticipants r = 3"
  by (simp add: demo_lobby_def noop_simps room_exec)

text \<open>An expiry that reaches the inbox before the activation of a race that has just been started
  ends the room; the activation then only marks the ended room active.\<close>

lemma expiry_before_activation:
  "let r = fst (applyEvents noop_deps [pendingExpired, activated ''go''] (demo_lobby, 0))
   in finished r \<and> cancelled r \<and> active r \<and> RaceExpiredMessage \<in> set (broadcast r)"
  by (simp add: demo_lobby_def noop_simps room_exec)

end
