(* ===== verification/Room_Registry.thy ===== *)
theory Room_Registry
  imports Room_Endings
begin

text \<open>
  The registry of the rooms an instance runs (\<^verbatim>\<open>internal/room/registry.go\<close>): the map from
  race to actor, \<^verbatim>\<open>Spawn\<close> and \<^verbatim>\<open>Remove\<close>, and the goroutines a spawned room
  brings with it - the actor's own loop, the one that cleans the map when the actor is done, the
  feeder of the inbox, the drain of the broadcasts and the heartbeat. Actor pointers are numbers
  into a heap of running rooms, so the identity test of \<^verbatim>\<open>cleanupWhenDone\<close> is a
  comparison of pointers. The locator and the bus are the interfaces \<^verbatim>\<open>RoomLocator\<close>
  and \<^verbatim>\<open>RoomBus\<close> (\<open>registry_deps\<close>).
\<close>

section \<open>Data\<close>

record 'w registry_deps =
  loc_Claim :: "bool \<Rightarrow> race_id \<Rightarrow> 'w \<Rightarrow> (bool \<times> go_error option) \<times> 'w"
  loc_Refresh :: "bool \<Rightarrow> race_id \<Rightarrow> 'w \<Rightarrow> go_error option \<times> 'w"
  loc_Release :: "bool \<Rightarrow> race_id \<Rightarrow> 'w \<Rightarrow> go_error option \<times> 'w"
  bus_SubscribeIn :: "bool \<Rightarrow> race_id \<Rightarrow> 'w \<Rightarrow> go_error option \<times> 'w"
  bus_PublishOut :: "bool \<Rightarrow> race_id \<Rightarrow> room_msg \<Rightarrow> 'w \<Rightarrow> go_error option \<times> 'w"
  bus_PublishRoomClosed :: "bool \<Rightarrow> race_id \<Rightarrow> 'w \<Rightarrow> go_error option \<times> 'w"

text \<open>Where a goroutine that drains a broadcast channel stands: in the outer select, in the inner
  loop it enters once the context is done.\<close>

datatype drain_phase = Selecting | Draining

datatype goroutine =
    cleanupWhenDone_g race_id nat
  | feedInbox_g race_id nat
  | drainBroadcast_g race_id nat drain_phase
  | heartbeat_g race_id nat

datatype bus_call = Call_PublishOut room_msg | Call_PublishRoomClosed

text \<open>\<open>bus_calls\<close> is a history variable: the calls made to the bus, each with the actor it is made
  for. \<open>closed_ctx\<close> is the state of the process's root context.\<close>

record 'w registry =
  rooms :: "(race_id \<times> nat) list"
  heap :: "nat \<Rightarrow> 'w room_run option"
  next_actor :: nat
  goroutines :: "goroutine list"
  bus_calls :: "(nat \<times> bus_call) list"
  root_done :: bool

definition broadcastBufferSize :: nat where
  "broadcastBufferSize = 16"

definition NewRegistry :: "'w registry" where
  "NewRegistry = \<lparr>rooms = [], heap = (\<lambda>_. None), next_actor = 0, goroutines = [],
     bus_calls = [], root_done = False\<rparr>"

section \<open>Operations\<close>

definition Spawn ::
  "'w room_deps \<Rightarrow> 'w registry_deps \<Rightarrow> race_id \<Rightarrow> int \<Rightarrow> 'w registry \<times> 'w \<Rightarrow> nat \<times> 'w registry \<times> 'w" where
  "Spawn d rd i distance = (\<lambda>(reg, w).
     let k = next_actor reg;
         run = init_run d i distance broadcastBufferSize w;
         run = run\<lparr>actor := (actor run)\<lparr>cancelled := root_done reg\<rparr>\<rparr>;
         reg = reg\<lparr>rooms := mput i k (rooms reg), heap := (heap reg)(k \<mapsto> run), next_actor := Suc k\<rparr>;
         (_, w) = loc_Claim rd (root_done reg) i (world run);
         (err, w) = bus_SubscribeIn rd (root_done reg) i w;
         gs = [cleanupWhenDone_g i k] @ (if err = None then [feedInbox_g i k] else [])
              @ [drainBroadcast_g i k Selecting, heartbeat_g i k]
     in (k, reg\<lparr>goroutines := goroutines reg @ gs\<rparr>, w))"

definition Get :: "race_id \<Rightarrow> 'w registry \<Rightarrow> nat option" where
  "Get i reg = mget (rooms reg) i"

definition Count :: "'w registry \<Rightarrow> nat" where
  "Count reg = length (rooms reg)"

definition actor_of :: "'w registry \<Rightarrow> nat \<Rightarrow> room_actor" where
  "actor_of reg k = actor (the (heap reg k))"

definition InboxBufferUsage :: "'w registry \<Rightarrow> nat" where
  "InboxBufferUsage reg = sum_list (map (\<lambda>(_, k). length (inbox (actor_of reg k))) (rooms reg))"

definition BroadcastBufferUsage :: "'w registry \<Rightarrow> nat" where
  "BroadcastBufferUsage reg = sum_list (map (\<lambda>(_, k). length (broadcast (actor_of reg k))) (rooms reg))"

definition set_actor :: "nat \<Rightarrow> room_actor \<Rightarrow> 'w registry \<Rightarrow> 'w registry" where
  "set_actor k r reg = reg\<lparr>heap := (heap reg)(k \<mapsto> (the (heap reg k))\<lparr>actor := r\<rparr>)\<rparr>"

definition Remove :: "race_id \<Rightarrow> 'w registry \<Rightarrow> 'w registry" where
  "Remove i reg = (case mget (rooms reg) i of
       None \<Rightarrow> reg
     | Some k \<Rightarrow>
         let reg = reg\<lparr>rooms := mdel i (rooms reg)\<rparr>
         in set_actor k ((actor_of reg k)\<lparr>cancelled := True\<rparr>) reg)"

section \<open>Goroutines\<close>

text \<open>\<^verbatim>\<open>cleanupWhenDone\<close> after its wait: drop the entry if it still is this actor's, then
  release the claim with a fresh context.\<close>

definition cleanupWhenDone ::
  "'w registry_deps \<Rightarrow> race_id \<Rightarrow> nat \<Rightarrow> 'w registry \<times> 'w \<Rightarrow> 'w registry \<times> 'w" where
  "cleanupWhenDone rd i k = (\<lambda>(reg, w).
     let reg = (if mget (rooms reg) i = Some k then reg\<lparr>rooms := mdel i (rooms reg)\<rparr> else reg);
         (_, w) = loc_Release rd False i w
     in (reg, w))"

definition heartbeat ::
  "'w registry_deps \<Rightarrow> race_id \<Rightarrow> nat \<Rightarrow> 'w registry \<times> 'w \<Rightarrow> 'w registry \<times> 'w" where
  "heartbeat rd i k = (\<lambda>(reg, w). (reg, snd (loc_Refresh rd (cancelled (actor_of reg k)) i w)))"

text \<open>One message taken from the channel and published, in either loop of
  \<^verbatim>\<open>drainBroadcast\<close>, and the end of the inner loop.\<close>

definition drain_publish ::
  "'w registry_deps \<Rightarrow> race_id \<Rightarrow> nat \<Rightarrow> 'w registry \<times> 'w \<Rightarrow> 'w registry \<times> 'w" where
  "drain_publish rd i k = (\<lambda>(reg, w).
     let m = hd (broadcast (actor_of reg k));
         reg = set_actor k ((actor_of reg k)\<lparr>broadcast := tl (broadcast (actor_of reg k))\<rparr>) reg;
         (_, w) = bus_PublishOut rd False i m w
     in (reg\<lparr>bus_calls := bus_calls reg @ [(k, Call_PublishOut m)]\<rparr>, w))"

definition drain_close ::
  "'w registry_deps \<Rightarrow> race_id \<Rightarrow> nat \<Rightarrow> 'w registry \<times> 'w \<Rightarrow> 'w registry \<times> 'w" where
  "drain_close rd i k = (\<lambda>(reg, w).
     let (_, w) = bus_PublishRoomClosed rd False i w
     in (reg\<lparr>bus_calls := bus_calls reg @ [(k, Call_PublishRoomClosed)],
             goroutines := remove1 (drainBroadcast_g i k Draining) (goroutines reg)\<rparr>, w))"

text \<open>The inner loop with nothing else running: publish until the channel is empty, then close.\<close>

function drain_rest ::
  "'w registry_deps \<Rightarrow> race_id \<Rightarrow> nat \<Rightarrow> 'w registry \<times> 'w \<Rightarrow> 'w registry \<times> 'w" where
  "drain_rest rd i k s =
     (if broadcast (actor_of (fst s) k) = [] then drain_close rd i k s
      else drain_rest rd i k (drain_publish rd i k s))"
  by pat_completeness auto

lemma actor_of_set [simp]: "actor_of (set_actor k r reg) k' = (if k' = k then r else actor_of reg k')"
  by (simp add: actor_of_def set_actor_def)

lemma actor_of_simps [simp]:
  "actor_of (reg\<lparr>bus_calls := c\<rparr>) k = actor_of reg k"
  "actor_of (reg\<lparr>goroutines := g\<rparr>) k = actor_of reg k"
  "actor_of (reg\<lparr>rooms := m\<rparr>) k = actor_of reg k"
  by (simp_all add: actor_of_def)

lemma drain_publish_buffer:
  "broadcast (actor_of (fst (drain_publish rd i k (reg, w))) k) = tl (broadcast (actor_of reg k))"
  by (simp add: drain_publish_def Let_def case_prod_unfold)

termination drain_rest
proof (relation "measure (\<lambda>(rd, i, k, s). length (broadcast (actor_of (fst s) k)))")
  fix rd :: "'w registry_deps" and i k and s :: "'w registry \<times> 'w"
  assume "broadcast (actor_of (fst s) k) \<noteq> []"
  then show "((rd, i, k, drain_publish rd i k s), rd, i, k, s)
      \<in> measure (\<lambda>(rd, i, k, s). length (broadcast (actor_of (fst s) k)))"
    using drain_publish_buffer [of rd i k "fst s" "snd s"] by simp
qed simp

text \<open>\<^verbatim>\<open>NoopLocator\<close> and \<^verbatim>\<open>NoopRoomBus\<close>.\<close>

definition noop_registry_deps :: "'w registry_deps" where
  "noop_registry_deps =
     \<lparr>loc_Claim = (\<lambda>ctx i w. ((True, None), w)), loc_Refresh = (\<lambda>ctx i w. (None, w)),
      loc_Release = (\<lambda>ctx i w. (None, w)), bus_SubscribeIn = (\<lambda>ctx i w. (None, w)),
      bus_PublishOut = (\<lambda>ctx i m w. (None, w)), bus_PublishRoomClosed = (\<lambda>ctx i w. (None, w))\<rparr>"

section \<open>Every interleaving\<close>

text \<open>The steps of an instance: the callers of \<^verbatim>\<open>Spawn\<close> and \<^verbatim>\<open>Remove\<close>, the
  loops of the rooms with their timers and senders (\<open>run_step\<close>, which also lets a room's context
  be cancelled from outside), and the goroutines of the registry. \<^verbatim>\<open>feedInbox\<close> hands an
  event over when the inbox has room, or drops it when the actor is done, as \<^verbatim>\<open>Send\<close>
  does.\<close>

inductive reg_step ::
  "'w room_deps \<Rightarrow> 'w registry_deps \<Rightarrow> ('w \<Rightarrow> 'w \<Rightarrow> bool) \<Rightarrow> 'w registry \<times> 'w \<Rightarrow> 'w registry \<times> 'w \<Rightarrow> bool"
  for d :: "'w room_deps" and rd :: "'w registry_deps" and env :: "'w \<Rightarrow> 'w \<Rightarrow> bool" where
  spawn: "reg_step d rd env (reg, w) (snd (Spawn d rd i n (reg, w)))"
| remove: "reg_step d rd env (reg, w) (Remove i reg, w)"
| room: "heap reg k = Some s \<Longrightarrow> run_step d (\<lambda>_ _. False) (s\<lparr>world := w\<rparr>) t \<Longrightarrow>
    reg_step d rd env (reg, w) (reg\<lparr>heap := (heap reg)(k \<mapsto> t)\<rparr>, world t)"
| cleanup: "cleanupWhenDone_g i k \<in> set (goroutines reg) \<Longrightarrow> cancelled (actor_of reg k) \<Longrightarrow>
    cleanupWhenDone rd i k (reg, w) = (reg', w') \<Longrightarrow>
    reg_step d rd env (reg, w)
      (reg'\<lparr>goroutines := remove1 (cleanupWhenDone_g i k) (goroutines reg')\<rparr>, w')"
| feed: "feedInbox_g i k \<in> set (goroutines reg) \<Longrightarrow> external ev \<Longrightarrow>
    length (inbox (actor_of reg k)) < inboxCapacity \<Longrightarrow>
    reg_step d rd env (reg, w) (set_actor k ((actor_of reg k)\<lparr>inbox := inbox (actor_of reg k) @ [ev]\<rparr>) reg, w)"
| feed_end: "feedInbox_g i k \<in> set (goroutines reg) \<Longrightarrow>
    reg_step d rd env (reg, w) (reg\<lparr>goroutines := remove1 (feedInbox_g i k) (goroutines reg)\<rparr>, w)"
| drain: "drainBroadcast_g i k ph \<in> set (goroutines reg) \<Longrightarrow> broadcast (actor_of reg k) \<noteq> [] \<Longrightarrow>
    reg_step d rd env (reg, w) (drain_publish rd i k (reg, w))"
| drain_done: "drainBroadcast_g i k Selecting \<in> set (goroutines reg) \<Longrightarrow> cancelled (actor_of reg k) \<Longrightarrow>
    reg_step d rd env (reg, w)
      (reg\<lparr>goroutines := drainBroadcast_g i k Draining #
              remove1 (drainBroadcast_g i k Selecting) (goroutines reg)\<rparr>, w)"
| drain_end: "drainBroadcast_g i k Draining \<in> set (goroutines reg) \<Longrightarrow> broadcast (actor_of reg k) = [] \<Longrightarrow>
    reg_step d rd env (reg, w) (drain_close rd i k (reg, w))"
| beat: "heartbeat_g i k \<in> set (goroutines reg) \<Longrightarrow>
    reg_step d rd env (reg, w) (heartbeat rd i k (reg, w))"
| beat_end: "heartbeat_g i k \<in> set (goroutines reg) \<Longrightarrow> cancelled (actor_of reg k) \<Longrightarrow>
    reg_step d rd env (reg, w) (reg\<lparr>goroutines := remove1 (heartbeat_g i k) (goroutines reg)\<rparr>, w)"
| root: "reg_step d rd env (reg, w) (reg\<lparr>root_done := True\<rparr>, w)"
| world: "env w w' \<Longrightarrow> reg_step d rd env (reg, w) (reg, w')"

inductive reachable_reg ::
  "'w room_deps \<Rightarrow> 'w registry_deps \<Rightarrow> ('w \<Rightarrow> 'w \<Rightarrow> bool) \<Rightarrow> 'w registry \<times> 'w \<Rightarrow> bool"
  for d :: "'w room_deps" and rd :: "'w registry_deps" and env :: "'w \<Rightarrow> 'w \<Rightarrow> bool" where
  start: "reachable_reg d rd env (NewRegistry, w)"
| step: "reachable_reg d rd env s \<Longrightarrow> reg_step d rd env s t \<Longrightarrow> reachable_reg d rd env t"

section \<open>The map and its actors\<close>

definition heap_ok :: "'w registry \<Rightarrow> bool" where
  "heap_ok reg \<longleftrightarrow> (\<forall>k s. heap reg k = Some s \<longrightarrow> k < next_actor reg \<and> run_inv s)"

definition rooms_ok :: "'w registry \<Rightarrow> bool" where
  "rooms_ok reg \<longleftrightarrow> distinct (mkeys (rooms reg)) \<and>
     (\<forall>i k. mget (rooms reg) i = Some k \<longrightarrow>
        heap reg k \<noteq> None \<and> room_id (actor_of reg k) = i \<and> cleanupWhenDone_g i k \<in> set (goroutines reg))"

lemma applyEvent_room_id [simp]: "room_id (fst (applyEvent d ev (r, w))) = room_id r"
proof -
  have check: "room_id (fst (checkRaceFinished d (r, w))) = room_id r" for r w
    using checkRaceFinished_end_ok [of r d w] by (auto simp: end_ok_def ends_only_fields)
  have snap: "room_id (fst (broadcastSnapshot d (r, w))) = room_id r" for r w
    using broadcastSnapshot_end_ok [of r d w] by (auto simp: end_ok_def ends_only_fields)
  have expire: "room_id (fst (expirePendingRoom d (r, w))) = room_id r" for r w
    using expirePendingRoom_end_ok [of r d w] by (auto simp: end_ok_def ends_only_fields)
  show ?thesis
    by (cases ev) (auto simp: Let_def case_prod_unfold AfterFunc_def departParticipant_def setParticipant_def
      broadcastRaceStarted_def sendBroadcast_def check snap expire split: option.splits)
qed

lemma run_step_room_id: "run_step d env s t \<Longrightarrow> room_id (actor t) = room_id (actor s)"
  by (induction rule: run_step.induct)
    (simp_all add: run_defs Let_def case_prod_unfold broadcastSnapshot_eq sendBroadcast_def)

lemma run_inv_world [simp]: "run_inv (s\<lparr>world := w\<rparr>) = run_inv s"
  by (simp add: run_inv_def)

lemma run_inv_broadcast:
  "run_inv s \<Longrightarrow> run_inv (s\<lparr>actor := (actor s)\<lparr>broadcast := tl (broadcast (actor s))\<rparr>\<rparr>)"
  by (auto simp: run_inv_def end_ok_def ends_only_def intro!: end_ok_inv [of "actor s"])

lemma run_inv_cancel: "run_inv s \<Longrightarrow> run_inv (s\<lparr>actor := (actor s)\<lparr>cancelled := b \<or> cancelled (actor s)\<rparr>\<rparr>)"
  by (cases b) (auto simp: run_inv_def room_inv_cancel)

lemma run_inv_push:
  "run_inv s \<Longrightarrow> length (inbox (actor s)) < inboxCapacity \<Longrightarrow>
   run_inv (s\<lparr>actor := (actor s)\<lparr>inbox := inbox (actor s) @ [ev]\<rparr>\<rparr>)"
  by (simp add: run_inv_def)

lemma init_run_fresh:
  "run_inv ((init_run d i n cap w)\<lparr>actor := (actor (init_run d i n cap w))\<lparr>cancelled := b\<rparr>\<rparr>)"
  "room_id (actor (init_run d i n cap w)) = i"
proof -
  have c: "\<not> cancelled (actor (init_run d i n cap w))"
    "room_id (actor (init_run d i n cap w)) = i"
    by (simp_all add: init_run_def NewRoomActor_def AfterFunc_def Let_def case_prod_unfold)
  show "run_inv ((init_run d i n cap w)\<lparr>actor := (actor (init_run d i n cap w))\<lparr>cancelled := b\<rparr>\<rparr>)"
    using run_inv_cancel [OF init_run_inv [of d i n cap w], of b] c by simp
  show "room_id (actor (init_run d i n cap w)) = i" by (rule c)
qed

fun gor_actor :: "goroutine \<Rightarrow> nat" where
  "gor_actor (cleanupWhenDone_g i k) = k"
| "gor_actor (feedInbox_g i k) = k"
| "gor_actor (drainBroadcast_g i k ph) = k"
| "gor_actor (heartbeat_g i k) = k"

definition reg_inv :: "'w registry \<Rightarrow> bool" where
  "reg_inv reg \<longleftrightarrow> heap_ok reg \<and> rooms_ok reg \<and> (\<forall>g \<in> set (goroutines reg). heap reg (gor_actor g) \<noteq> None)"

lemmas reg_inv_defs = reg_inv_def heap_ok_def rooms_ok_def

text \<open>Replacing an actor of the heap by one of the same race keeps the invariant.\<close>

lemma reg_inv_heap:
  assumes "reg_inv reg" "heap reg k = Some s" "run_inv t" "room_id (actor t) = room_id (actor s)"
  shows "reg_inv (reg\<lparr>heap := (heap reg)(k \<mapsto> t)\<rparr>)"
  using assms by (force simp: reg_inv_defs actor_of_def)

lemma reg_inv_set_actor:
  assumes "reg_inv reg" "heap reg k = Some s" "run_inv (s\<lparr>actor := r\<rparr>)" "room_id r = room_id (actor s)"
  shows "reg_inv (set_actor k r reg)"
  using reg_inv_heap [OF assms(1,2,3)] assms(2,4) by (simp add: set_actor_def)

lemma reg_inv_gs:
  assumes "reg_inv reg" "set gs \<subseteq> set (goroutines reg)"
    "\<And>i k. cleanupWhenDone_g i k \<in> set (goroutines reg) \<Longrightarrow> mget (rooms reg) i = Some k
       \<Longrightarrow> cleanupWhenDone_g i k \<in> set gs"
  shows "reg_inv (reg\<lparr>goroutines := gs\<rparr>)"
  using assms by (auto simp: reg_inv_defs)

lemma reg_inv_mdel: "reg_inv reg \<Longrightarrow> reg_inv (reg\<lparr>rooms := mdel i (rooms reg)\<rparr>)"
  by (auto simp: reg_inv_defs distinct_delete simp del: map_of_eq_Some_iff split: if_splits)

lemma reg_inv_calls [simp]: "reg_inv (reg\<lparr>bus_calls := c\<rparr>) = reg_inv reg"
  by (simp add: reg_inv_defs)

lemma Spawn_eq:
  "snd (Spawn d rd i n (reg, w)) =
    (let k = next_actor reg;
         run = init_run d i n broadcastBufferSize w;
         w1 = snd (loc_Claim rd (root_done reg) i (world run));
         (err, w2) = bus_SubscribeIn rd (root_done reg) i w1
     in (reg\<lparr>rooms := mput i k (rooms reg),
             heap := (heap reg)(k \<mapsto> run\<lparr>actor := (actor run)\<lparr>cancelled := root_done reg\<rparr>\<rparr>),
             next_actor := Suc k,
             goroutines := goroutines reg @ [cleanupWhenDone_g i k]
               @ (if err = None then [feedInbox_g i k] else [])
               @ [drainBroadcast_g i k Selecting, heartbeat_g i k]\<rparr>, w2))"
  by (simp add: Spawn_def Let_def case_prod_unfold)

lemma Spawn_inv:
  assumes "reg_inv reg"
  shows "reg_inv (fst (snd (Spawn d rd i n (reg, w))))"
proof -
  have "heap reg (next_actor reg) = None"
    using assms by (cases "heap reg (next_actor reg)") (auto simp: reg_inv_def heap_ok_def)
  moreover from this have "mget (rooms reg) j \<noteq> Some (next_actor reg)" for j
    using assms unfolding reg_inv_def rooms_ok_def by blast
  moreover have "heap reg k = Some s \<Longrightarrow> k < Suc (next_actor reg)" for k s
    using assms unfolding reg_inv_def heap_ok_def by (meson less_SucI)
  ultimately show ?thesis
    using assms init_run_fresh(1) [where d = d and i = i and n = n and cap = broadcastBufferSize and w = w
        and b = "root_done reg"]
    by (auto simp: Spawn_eq init_run_fresh(2) Let_def case_prod_unfold reg_inv_defs actor_of_def distinct_update
        simp del: map_of_eq_Some_iff)
qed

lemma Remove_inv:
  assumes "reg_inv reg"
  shows "reg_inv (Remove i reg)"
proof (cases "mget (rooms reg) i")
  case None
  then show ?thesis using assms by (simp add: Remove_def)
next
  case (Some k)
  with assms obtain s where s: "heap reg k = Some s" "run_inv s" by (force simp: reg_inv_defs)
  show ?thesis
    using reg_inv_set_actor [OF reg_inv_mdel [OF assms, of i], of k s "(actor s)\<lparr>cancelled := True\<rparr>"]
      s Some run_inv_cancel [OF s(2), of True]
    by (simp add: Remove_def Let_def actor_of_def)
qed

lemma drain_publish_inv:
  assumes "reg_inv reg" "heap reg k \<noteq> None"
  shows "reg_inv (fst (drain_publish rd i k (reg, w)))"
proof -
  obtain s where s: "heap reg k = Some s" using assms(2) by auto
  then have "run_inv s" using assms(1) by (auto simp: reg_inv_def heap_ok_def)
  with s show ?thesis
    using reg_inv_set_actor [OF assms(1) s run_inv_broadcast]
    by (simp add: drain_publish_def Let_def case_prod_unfold actor_of_def)
qed

lemma cleanup_inv:
  assumes "reg_inv reg" "cleanupWhenDone rd i k (reg, w) = (reg', w')"
  shows "reg_inv (reg'\<lparr>goroutines := remove1 (cleanupWhenDone_g i k) (goroutines reg')\<rparr>)"
proof -
  have reg': "reg' = (if mget (rooms reg) i = Some k then reg\<lparr>rooms := mdel i (rooms reg)\<rparr> else reg)"
    using assms(2) by (auto simp add: cleanupWhenDone_def Let_def case_prod_unfold simp del: map_of_eq_Some_iff)
  have inv: "reg_inv reg'" using assms(1) reg_inv_mdel [of reg i] by (simp add: reg')
  have "mget (rooms reg') i \<noteq> Some k" by (simp add: reg' del: map_of_eq_Some_iff)
  then have "cleanupWhenDone_g j m \<noteq> cleanupWhenDone_g i k" if "mget (rooms reg') j = Some m" for j m
    using that by auto
  then show ?thesis by (intro reg_inv_gs [OF inv]) (simp_all add: set_remove1_subset)
qed

lemma reg_step_inv: "reg_step d rd env s t \<Longrightarrow> reg_inv (fst s) \<Longrightarrow> reg_inv (fst t)"
proof (induction rule: reg_step.induct)
  case (spawn reg w i n)
  then show ?case by (simp add: Spawn_inv)
next
  case (remove reg w i)
  then show ?case by (simp add: Remove_inv)
next
  case (room reg k s w t)
  then have "run_inv s" by (auto simp: reg_inv_def heap_ok_def)
  with room show ?case
    using run_step_inv [OF room(2)] run_step_room_id [OF room(2)] reg_inv_heap [of reg k s t] by simp
next
  case (cleanup i k reg w reg' w')
  then show ?case using cleanup_inv by simp
next
  case (feed i k reg ev w)
  then obtain s where s: "heap reg k = Some s" "run_inv s" by (force simp: reg_inv_def heap_ok_def)
  with feed show ?case
    using reg_inv_set_actor [of reg k s] run_inv_push [OF s(2), of ev] by (simp add: actor_of_def)
next
  case (drain i k ph reg w)
  then have "heap reg k \<noteq> None" by (force simp: reg_inv_def)
  with drain show ?case using drain_publish_inv [of reg k] by simp
next
  case (drain_done i k reg w)
  then have "\<forall>g \<in> set (remove1 (drainBroadcast_g i k Selecting) (goroutines reg)). heap reg (gor_actor g) \<noteq> None"
    "heap reg k \<noteq> None"
    by (force simp: reg_inv_def dest: notin_set_remove1)+
  with drain_done show ?case by (auto simp: reg_inv_defs in_set_remove1)
next
  case (drain_end i k reg w)
  then show ?case
    by (auto simp: drain_close_def case_prod_unfold in_set_remove1 intro!: reg_inv_gs
        intro: set_mp [OF set_remove1_subset])
next
  case (root reg w)
  then show ?case by (simp add: reg_inv_defs actor_of_def)
qed (auto simp: heartbeat_def in_set_remove1 intro!: reg_inv_gs intro: set_mp [OF set_remove1_subset])

lemma reachable_reg_inv: "reachable_reg d rd env s \<Longrightarrow> reg_inv (fst s)"
proof (induction rule: reachable_reg.induct)
  case (start w)
  then show ?case by (simp add: NewRegistry_def reg_inv_defs)
next
  case (step s t)
  then show ?case by (blast intro: reg_step_inv)
qed

section \<open>The broadcasts of a room on the bus\<close>

definition history :: "'w registry \<Rightarrow> nat \<Rightarrow> bus_call list" where
  "history reg k = map snd (filter (\<lambda>c. fst c = k) (bus_calls reg))"

fun drains :: "nat \<Rightarrow> goroutine \<Rightarrow> bool" where
  "drains k (drainBroadcast_g i k' ph) = (k' = k)"
| "drains k _ = False"

definition n_drains :: "'w registry \<Rightarrow> nat \<Rightarrow> nat" where
  "n_drains reg k = length (filter (drains k) (goroutines reg))"

text \<open>The history of an actor and the number of its drains: nothing before it is spawned, then
  messages as long as the drain runs, and one last \<^verbatim>\<open>room_closed\<close> when it returns.\<close>

definition stream_ok :: "bool \<Rightarrow> bus_call list \<Rightarrow> nat \<Rightarrow> bool" where
  "stream_ok born h n \<longleftrightarrow>
     (if born then \<exists>ms. h = map Call_PublishOut ms \<and> n = 1
        \<or> h = map Call_PublishOut ms @ [Call_PublishRoomClosed] \<and> n = 0
      else h = [] \<and> n = 0)"

definition bus_ok :: "'w registry \<Rightarrow> bool" where
  "bus_ok reg \<longleftrightarrow> (\<forall>k. stream_ok (k < next_actor reg) (history reg k) (n_drains reg k))"

lemma stream_ok_born: "stream_ok False h n \<Longrightarrow> stream_ok True h (Suc n)"
  by (simp add: stream_ok_def)

lemma stream_ok_out: "stream_ok b h n \<Longrightarrow> n \<noteq> 0 \<Longrightarrow> stream_ok b (h @ [Call_PublishOut m]) n"
  unfolding stream_ok_def by (metis list.simps(8,9) map_append)

lemma stream_ok_close: "stream_ok b h n \<Longrightarrow> n \<noteq> 0 \<Longrightarrow> stream_ok b (h @ [Call_PublishRoomClosed]) (n - 1)"
  by (auto simp: stream_ok_def split: if_splits)

lemma n_drains_remove1:
  "g \<in> set (goroutines reg) \<Longrightarrow>
   n_drains (reg\<lparr>goroutines := remove1 g (goroutines reg)\<rparr>) k = n_drains reg k - (if drains k g then 1 else 0)"
  by (auto simp: n_drains_def filter_remove1 length_remove1 remove1_idem)

text \<open>What a step may do to one actor's history and drains.\<close>

lemma bus_ok_frame:
  assumes "bus_ok reg" "next_actor reg' = next_actor reg" "bus_calls reg' = bus_calls reg"
    "\<And>k. n_drains reg' k = n_drains reg k"
  shows "bus_ok reg'"
  using assms by (simp add: bus_ok_def history_def)

lemma n_drains_frame: "goroutines reg' = goroutines reg \<Longrightarrow> n_drains reg' k = n_drains reg k"
  by (simp add: n_drains_def)

lemma n_drains_pos: "drainBroadcast_g i k ph \<in> set (goroutines reg) \<Longrightarrow> n_drains reg k \<noteq> 0"
  by (force simp: n_drains_def filter_empty_conv)

lemma bus_ok_publish:
  assumes "bus_ok reg" "n_drains reg k \<noteq> 0" "next_actor reg' = next_actor reg"
    "goroutines reg' = goroutines reg" "bus_calls reg' = bus_calls reg @ [(k, Call_PublishOut m)]"
  shows "bus_ok reg'"
proof -
  have "history reg' k' = history reg k' @ (if k' = k then [Call_PublishOut m] else [])" for k'
    using assms(5) by (simp add: history_def)
  with assms(1,2) show ?thesis
    by (auto simp: bus_ok_def assms(3) n_drains_frame [OF assms(4)] intro: stream_ok_out)
qed

lemma bus_ok_close:
  assumes "bus_ok reg" "drainBroadcast_g i k Draining \<in> set (goroutines reg)" "next_actor reg' = next_actor reg"
    "goroutines reg' = remove1 (drainBroadcast_g i k Draining) (goroutines reg)"
    "bus_calls reg' = bus_calls reg @ [(k, Call_PublishRoomClosed)]"
  shows "bus_ok reg'"
proof -
  have "history reg' k' = history reg k' @ (if k' = k then [Call_PublishRoomClosed] else [])" for k'
    using assms(5) by (simp add: history_def)
  moreover have "n_drains reg' k' = n_drains reg k' - (if k' = k then 1 else 0)" for k'
    using n_drains_remove1 [OF assms(2), of k'] assms(4) by (simp add: n_drains_def)
  ultimately show ?thesis
    using assms(1) stream_ok_close n_drains_pos [OF assms(2)] by (simp add: bus_ok_def assms(3))
qed

lemma Spawn_bus_ok:
  assumes "bus_ok reg"
  shows "bus_ok (fst (snd (Spawn d rd i n (reg, w))))"
proof -
  let ?reg' = "fst (snd (Spawn d rd i n (reg, w)))" and ?k = "next_actor reg"
  have h: "history ?reg' k = history reg k" "next_actor ?reg' = Suc ?k"
    "n_drains ?reg' k = n_drains reg k + (if k = ?k then 1 else 0)" for k
    by (auto simp: Spawn_eq Let_def case_prod_unfold history_def n_drains_def)
  have "stream_ok False (history reg ?k) (n_drains reg ?k)"
    using assms unfolding bus_ok_def by (metis less_irrefl)
  with assms show ?thesis
    unfolding bus_ok_def h by (auto simp: less_Suc_eq intro: stream_ok_born)
qed

lemma reg_step_bus_ok: "reg_step d rd env s t \<Longrightarrow> bus_ok (fst s) \<Longrightarrow> bus_ok (fst t)"
proof (induction rule: reg_step.induct)
  case (spawn reg w i n)
  then show ?case by (simp add: Spawn_bus_ok)
next
  case (remove reg w i)
  then show ?case
    by (auto simp: Remove_def Let_def set_actor_def n_drains_def intro!: bus_ok_frame [of reg] split: option.split)
next
  case (cleanup i k reg w reg' w')
  have "n_drains (reg\<lparr>goroutines := remove1 (cleanupWhenDone_g i k) (goroutines reg)\<rparr>) m = n_drains reg m" for m
    using n_drains_remove1 [OF cleanup(1), of m] by simp
  with cleanup show ?case
    by (auto simp: cleanupWhenDone_def Let_def case_prod_unfold n_drains_def intro!: bus_ok_frame [of reg])
next
  case (drain i k ph reg w)
  then show ?case
    using n_drains_pos [OF drain(1)]
    by (auto simp: drain_publish_def set_actor_def Let_def case_prod_unfold
        intro: bus_ok_publish [of reg k _ "hd (broadcast (actor_of reg k))"])
next
  case (drain_done i k reg w)
  then have "n_drains (reg\<lparr>goroutines := drainBroadcast_g i k Draining #
      remove1 (drainBroadcast_g i k Selecting) (goroutines reg)\<rparr>) m = n_drains reg m" for m
    using n_drains_remove1 [OF drain_done(1), of m] n_drains_pos [OF drain_done(1)] by (auto simp: n_drains_def)
  with drain_done show ?case by (auto intro!: bus_ok_frame [of reg])
next
  case (drain_end i k reg w)
  then show ?case
    using bus_ok_close [of reg i k "fst (drain_close rd i k (reg, w))"]
    by (simp add: drain_close_def case_prod_unfold)
next
  case (feed_end i k reg w)
  then show ?case using n_drains_remove1 [OF feed_end(1)] by (auto intro: bus_ok_frame)
next
  case (beat_end i k reg w)
  then show ?case using n_drains_remove1 [OF beat_end(1)] by (auto intro: bus_ok_frame)
qed (auto simp: heartbeat_def set_actor_def n_drains_def intro: bus_ok_frame)

lemma reachable_reg_bus_ok: "reachable_reg d rd env s \<Longrightarrow> bus_ok (fst s)"
proof (induction rule: reachable_reg.induct)
  case (start w)
  then show ?case by (simp add: NewRegistry_def bus_ok_def history_def n_drains_def stream_ok_def)
next
  case (step s t)
  then show ?case by (blast intro: reg_step_bus_ok)
qed

lemma drain_publish_calls:
  assumes "broadcast (actor_of reg k) = m # ms"
  shows "\<exists>reg' w'. drain_publish rd i k (reg, w) = (reg', w') \<and> broadcast (actor_of reg' k) = ms
    \<and> bus_calls reg' = bus_calls reg @ [(k, Call_PublishOut m)] \<and> goroutines reg' = goroutines reg
    \<and> (\<forall>k'. k' \<noteq> k \<longrightarrow> heap reg' k' = heap reg k')"
  using assms by (simp add: drain_publish_def Let_def case_prod_unfold set_actor_def actor_of_def)

lemma drain_close_calls:
  "\<exists>reg' w'. drain_close rd i k (reg, w) = (reg', w') \<and> heap reg' = heap reg
    \<and> bus_calls reg' = bus_calls reg @ [(k, Call_PublishRoomClosed)]
    \<and> goroutines reg' = remove1 (drainBroadcast_g i k Draining) (goroutines reg)"
  by (simp add: drain_close_def case_prod_unfold)

section \<open>Properties\<close>





text \<open>Once the drain of a room has seen that the room is done, it publishes everything still
  buffered, in the order it was broadcast, then exactly one \<^verbatim>\<open>room_closed\<close>, and returns with
  the buffer empty; it always terminates.\<close>

theorem drain_delivers_everything:
  "bus_calls (fst (drain_rest rd i k (reg, w)))
     = bus_calls reg @ map (\<lambda>m. (k, Call_PublishOut m)) (broadcast (actor_of reg k)) @ [(k, Call_PublishRoomClosed)]
   \<and> broadcast (actor_of (fst (drain_rest rd i k (reg, w))) k) = []
   \<and> goroutines (fst (drain_rest rd i k (reg, w))) = remove1 (drainBroadcast_g i k Draining) (goroutines reg)"
proof (induction "broadcast (actor_of reg k)" arbitrary: reg w)
  case Nil
  then show ?case
    using drain_close_calls [of rd i k reg w] by (auto simp: drain_rest.simps [of rd i k "(reg, w)"] actor_of_def)
next
  case (Cons m ms)
  from drain_publish_calls [OF Cons(2) [symmetric], of rd i w] obtain reg' w' where
    p: "drain_publish rd i k (reg, w) = (reg', w')" "broadcast (actor_of reg' k) = ms"
    "bus_calls reg' = bus_calls reg @ [(k, Call_PublishOut m)]" "goroutines reg' = goroutines reg" by blast
  from Cons(1) [of reg' w'] p Cons(2) [symmetric] show ?case
    by (simp add: drain_rest.simps [of rd i k "(reg, w)"])
qed

text \<open>Looking a race up after the operations of the registry: a spawn replaces the race's entry
  and no other, removing takes one entry out and is idempotent, and the cleanup of an actor takes
  the entry out only if it still is that actor's - a room spawned again for the same race stays.\<close>

theorem registry_lookup:
  "Get j (fst (snd (Spawn d rd i n (reg, w)))) = (if j = i then Some (next_actor reg) else Get j reg)
   \<and> Get j (Remove i reg) = (if j = i then None else Get j reg)
   \<and> Remove i (Remove i reg) = Remove i reg
   \<and> Get j (fst (cleanupWhenDone rd i k (reg, w))) = (if j = i \<and> Get i reg = Some k then None else Get j reg)"
proof -
  have "Get j (fst (snd (Spawn d rd i n (reg, w)))) = (if j = i then Some (next_actor reg) else Get j reg)"
    by (simp add: Get_def Spawn_eq Let_def case_prod_unfold)
  moreover have rem: "Get j (Remove i reg) = (if j = i then None else Get j reg)" for j
    by (simp add: Get_def Remove_def Let_def set_actor_def split: option.split)
  moreover have "Remove i (Remove i reg) = Remove i reg"
    using rem [of i] by (subst (1) Remove_def) (simp add: Get_def)
  moreover have "Get j (fst (cleanupWhenDone rd i k (reg, w)))
      = (if j = i \<and> Get i reg = Some k then None else Get j reg)"
    by (simp add: Get_def cleanupWhenDone_def Let_def case_prod_unfold del: map_of_eq_Some_iff)
  ultimately show ?thesis by blast
qed

end
