(* ===== verification/Race_Service.thy ===== *)
theory Race_Service
  imports Race_Store_Properties Room_Registry
begin

text \<open>
  The race domain's service (\<^verbatim>\<open>internal/race/service.go\<close>, \<^verbatim>\<open>prompt.go\<close>) over the
  repository interface, and its HTTP handlers (\<^verbatim>\<open>handler.go\<close>) over the service and the
  registry of rooms. What the service relies on is the locale \<open>race_repository\<close>; its
  interpretation on the Postgres methods discharges the laws. The signing of tokens
  (\<^verbatim>\<open>golang-jwt\<close>), the clock and the word corpus of \<^verbatim>\<open>gofakeit\<close> are fields of the
  service record.
\<close>

section \<open>The service\<close>

record session_claims =
  cl_race_id :: race_id
  cl_user_id :: user_id
  cl_exp :: int

record 'w race_service =
  svc_repo :: "'w race_repo"
  svc_sign :: "session_claims \<Rightarrow> go_error + string"
  svc_now :: "'w \<Rightarrow> time"
  svc_word :: "'w \<Rightarrow> string \<times> 'w"

definition validateCreateRace :: "string \<Rightarrow> int \<Rightarrow> (string \<times> string) list" where
  "validateCreateRace name distance =
     (if length (go_TrimSpace name) = 0 \<or> 100 < length name
      then [(''name'', ''must be 1-100 characters'')] else [])
     @ (if distance \<le> 0 then [(''distance_meters'', ''must be a positive integer'')] else [])"

definition signSessionToken :: "'w race_service \<Rightarrow> race_id \<Rightarrow> user_id \<Rightarrow> 'w \<Rightarrow> (go_error + string) \<times> 'w" where
  "signSessionToken svc i u w =
     (case svc_sign svc \<lparr>cl_race_id = i, cl_user_id = u, cl_exp = (svc_now svc w + 6 * 3600 * second) div second\<rparr> of
        Inl e \<Rightarrow> (Inl (ErrOther ''race: sign session token''), w)
      | Inr t \<Rightarrow> (Inr t, w))"

text \<open>\<^verbatim>\<open>CreateRace\<close>: field errors (\<open>Inl\<close>) or the outcome of the store.\<close>

definition CreateRace :: "'w race_service \<Rightarrow> bool \<Rightarrow> string \<Rightarrow> int \<Rightarrow> user_id \<Rightarrow> 'w \<Rightarrow>
    ((string \<times> string) list + (go_error + race \<times> string)) \<times> 'w" where
  "CreateRace svc ctx name distance u w =
     (let errs = validateCreateRace name distance in
      if errs \<noteq> [] then (Inl errs, w) else
      case repo_CreateRace (svc_repo svc) ctx (go_TrimSpace name) distance u w of
        (Inl e, w1) \<Rightarrow> (Inr (Inl e), w1)
      | (Inr r, w1) \<Rightarrow>
          (case repo_AddParticipant (svc_repo svc) ctx (ID r) u w1 of
             (Some e, w2) \<Rightarrow> (Inr (Inl e), w2)
           | (None, w2) \<Rightarrow>
               (case signSessionToken svc (ID r) u w2 of
                  (Inl e, w3) \<Rightarrow> (Inr (Inl e), w3)
                | (Inr t, w3) \<Rightarrow> (Inr (Inr (r, t)), w3))))"

definition JoinRace :: "'w race_service \<Rightarrow> bool \<Rightarrow> race_id \<Rightarrow> user_id \<Rightarrow> 'w \<Rightarrow> (go_error + string) \<times> 'w" where
  "JoinRace svc ctx i u w =
     (case repo_GetRace (svc_repo svc) ctx i w of
        (Inl e, w1) \<Rightarrow> (Inl e, w1)
      | (Inr r, w1) \<Rightarrow>
          (case repo_IsParticipant (svc_repo svc) ctx i u w1 of
             (Inl e, w2) \<Rightarrow> (Inl e, w2)
           | (Inr alreadyIn, w2) \<Rightarrow>
               if alreadyIn then signSessionToken svc i u w2
               else if Status r \<noteq> ''pending'' then (Inl ErrRaceNotPending, w2)
               else
                 (case repo_CountParticipants (svc_repo svc) ctx i w2 of
                    (Inl e, w3) \<Rightarrow> (Inl e, w3)
                  | (Inr cnt, w3) \<Rightarrow>
                      if MaxParticipants \<le> cnt then (Inl ErrRaceFull, w3)
                      else
                        (case repo_AddParticipant (svc_repo svc) ctx i u w3 of
                           (Some e, w4) \<Rightarrow> (Inl e, w4)
                         | (None, w4) \<Rightarrow> signSessionToken svc i u w4))))"

definition svc_LeaveRace :: "'w race_service \<Rightarrow> bool \<Rightarrow> race_id \<Rightarrow> user_id \<Rightarrow> 'w \<Rightarrow> go_error option \<times> 'w" where
  "svc_LeaveRace svc ctx i u w =
     (case repo_GetRace (svc_repo svc) ctx i w of
        (Inl e, w1) \<Rightarrow> (Some e, w1)
      | (Inr r, w1) \<Rightarrow>
          if Status r \<noteq> ''pending'' then (Some ErrRaceNotPending, w1)
          else repo_RemoveParticipant (svc_repo svc) ctx i u w1)"

fun prompt_words :: "'w race_service \<Rightarrow> nat \<Rightarrow> 'w \<Rightarrow> string list \<times> 'w" where
  "prompt_words svc 0 w = ([], w)"
| "prompt_words svc (Suc n) w =
     (let (x, w1) = svc_word svc w; (xs, w2) = prompt_words svc n w1 in (x # xs, w2))"

fun join_words :: "string list \<Rightarrow> string" where
  "join_words [] = []"
| "join_words [x] = x"
| "join_words (x # xs) = x @ '' '' @ join_words xs"

text \<open>The word count is that of a stored race, which \<open>validateCreateRace\<close> keeps positive.\<close>

definition generatePromptText :: "'w race_service \<Rightarrow> int \<Rightarrow> 'w \<Rightarrow> string \<times> 'w" where
  "generatePromptText svc wordCount w =
     (let (ws, w1) = prompt_words svc (nat wordCount) w in (join_words ws, w1))"

definition StartRace :: "'w race_service \<Rightarrow> bool \<Rightarrow> race_id \<Rightarrow> user_id \<Rightarrow> 'w \<Rightarrow> (go_error + race) \<times> 'w" where
  "StartRace svc ctx i caller w =
     (case repo_GetRace (svc_repo svc) ctx i w of
        (Inl e, w1) \<Rightarrow> (Inl e, w1)
      | (Inr r, w1) \<Rightarrow>
          if CreatedBy r \<noteq> caller then (Inl ErrNotCreator, w1)
          else if Status r \<noteq> ''pending'' then (Inl ErrRaceNotPending, w1)
          else
            let (prompt, w2) = generatePromptText svc (DistanceMeters r) w1
            in repo_StartRace (svc_repo svc) ctx i prompt w2)"

definition GetRaceText :: "'w race_service \<Rightarrow> bool \<Rightarrow> race_id \<Rightarrow> 'w \<Rightarrow> (go_error + string) \<times> 'w" where
  "GetRaceText svc = repo_GetRaceText (svc_repo svc)"

definition GetRaceDetail :: "'w race_service \<Rightarrow> bool \<Rightarrow> race_id \<Rightarrow> 'w \<Rightarrow> (go_error + race_detail) \<times> 'w" where
  "GetRaceDetail svc = repo_GetRaceWithParticipants (svc_repo svc)"

definition ListOpenRaces :: "'w race_service \<Rightarrow> bool \<Rightarrow> user_id \<Rightarrow> 'w \<Rightarrow> (go_error + open_race list) \<times> 'w" where
  "ListOpenRaces svc = repo_ListOpenRaces (svc_repo svc)"

text \<open>The service in its three roles for the room actor: \<^verbatim>\<open>RaceFinisher\<close>,
  \<^verbatim>\<open>RaceLeaver\<close>, \<^verbatim>\<open>RaceCanceller\<close>.\<close>

definition svc_room_deps :: "'w race_service \<Rightarrow> 'w room_deps \<Rightarrow> 'w room_deps" where
  "svc_room_deps svc d =
     d\<lparr>FinishRace := repo_FinishRace (svc_repo svc), LeaveRace := svc_LeaveRace svc,
       CancelRace := repo_CancelRace (svc_repo svc)\<rparr>"

section \<open>The handlers\<close>

text \<open>What a handler writes: a JSON body with its status, an error body, or field errors (always
  with status 400). Instants in bodies stand for their RFC 3339 text.\<close>

datatype 'a reply = WriteJSON nat 'a | WriteError nat string | WriteFieldErrors "(string \<times> string) list"

record create_race_response =
  cr_Race :: race
  cr_SessionToken :: string

record join_race_response =
  jr_RaceID :: race_id
  jr_SessionToken :: string

record start_race_response =
  sr_ID :: race_id
  sr_Status :: string
  sr_StartedAt :: "time option"
  sr_PromptText :: string

record race_status_response =
  st_Detail :: race_detail
  st_PendingExpiresAt :: "time option"

record 'w race_handler =
  h_svc :: "'w race_service"
  h_room_deps :: "'w room_deps"
  h_registry_deps :: "'w registry_deps"

text \<open>The user id is what the authentication middleware put into the request's context; the body
  is \<open>None\<close> when it does not decode. The Boolean is the state of the request's context.\<close>

definition Create :: "'w race_handler \<Rightarrow> user_id option \<Rightarrow> bool \<Rightarrow> (string \<times> int) option \<Rightarrow>
    'w registry \<times> 'w \<Rightarrow> create_race_response reply \<times> 'w registry \<times> 'w" where
  "Create h caller ctx body = (\<lambda>(reg, w).
     case caller of None \<Rightarrow> (WriteError 401 ''unauthorized'', reg, w)
     | Some u \<Rightarrow>
     (case body of None \<Rightarrow> (WriteError 400 ''invalid_body'', reg, w)
      | Some (name, distance) \<Rightarrow>
        (case CreateRace (h_svc h) ctx name distance u w of
           (Inl errs, w1) \<Rightarrow> (WriteFieldErrors errs, reg, w1)
         | (Inr (Inl e), w1) \<Rightarrow> (WriteError 500 ''internal_error'', reg, w1)
         | (Inr (Inr (r, t)), w1) \<Rightarrow>
             let (_, reg', w2) = Spawn (svc_room_deps (h_svc h) (h_room_deps h)) (h_registry_deps h)
                                   (ID r) (DistanceMeters r) (reg, w1)
             in (WriteJSON 201 \<lparr>cr_Race = r, cr_SessionToken = t\<rparr>, reg', w2))))"

definition Join :: "'w race_handler \<Rightarrow> user_id option \<Rightarrow> bool \<Rightarrow> string \<Rightarrow> 'w \<Rightarrow>
    join_race_response reply \<times> 'w" where
  "Join h caller ctx i w =
     (case caller of None \<Rightarrow> (WriteError 401 ''unauthorized'', w)
      | Some u \<Rightarrow>
        if \<not> isValidRaceID i then (WriteError 400 ''invalid_race_id'', w)
        else (case JoinRace (h_svc h) ctx i u w of
            (Inl ErrRaceNotFound, w1) \<Rightarrow> (WriteError 404 ''race_not_found'', w1)
          | (Inl ErrRaceNotPending, w1) \<Rightarrow> (WriteError 409 ''race_not_pending'', w1)
          | (Inl ErrAlreadyJoined, w1) \<Rightarrow> (WriteError 409 ''already_joined'', w1)
          | (Inl ErrRaceFull, w1) \<Rightarrow> (WriteError 409 ''race_full'', w1)
          | (Inl _, w1) \<Rightarrow> (WriteError 500 ''internal_error'', w1)
          | (Inr t, w1) \<Rightarrow> (WriteJSON 200 \<lparr>jr_RaceID = i, jr_SessionToken = t\<rparr>, w1)))"

text \<open>\<^verbatim>\<open>MarkActive\<close> is a \<^verbatim>\<open>Send\<close>: the caller joins those waiting at the inbox.\<close>

definition MarkActive :: "string \<Rightarrow> nat \<Rightarrow> 'w registry \<Rightarrow> 'w registry" where
  "MarkActive prompt k reg =
     reg\<lparr>heap := (heap reg)(k := map_option (Send_offer (activated prompt)) (heap reg k))\<rparr>"

definition Start :: "'w race_handler \<Rightarrow> user_id option \<Rightarrow> bool \<Rightarrow> string \<Rightarrow> 'w registry \<times> 'w \<Rightarrow>
    start_race_response reply \<times> 'w registry \<times> 'w" where
  "Start h caller ctx i = (\<lambda>(reg, w).
     case caller of None \<Rightarrow> (WriteError 401 ''unauthorized'', reg, w)
     | Some u \<Rightarrow>
       if \<not> isValidRaceID i then (WriteError 400 ''invalid_race_id'', reg, w)
       else (case StartRace (h_svc h) ctx i u w of
           (Inl ErrRaceNotFound, w1) \<Rightarrow> (WriteError 404 ''race_not_found'', reg, w1)
         | (Inl ErrNotCreator, w1) \<Rightarrow> (WriteError 403 ''forbidden'', reg, w1)
         | (Inl ErrRaceNotPending, w1) \<Rightarrow> (WriteError 409 ''race_not_pending'', reg, w1)
         | (Inl _, w1) \<Rightarrow> (WriteError 500 ''internal_error'', reg, w1)
         | (Inr r, w1) \<Rightarrow>
             let prompt = (case PromptText r of None \<Rightarrow> '''' | Some p \<Rightarrow> p) in
             (case Get i reg of
                None \<Rightarrow> (WriteError 500 ''internal_error'', reg, w1)
              | Some k \<Rightarrow>
                  (WriteJSON 200 \<lparr>sr_ID = ID r, sr_Status = Status r, sr_StartedAt = StartedAt r,
                                  sr_PromptText = prompt\<rparr>,
                   MarkActive prompt k reg, w1))))"

definition Text :: "'w race_handler \<Rightarrow> user_id option \<Rightarrow> bool \<Rightarrow> string \<Rightarrow> 'w \<Rightarrow> string reply \<times> 'w" where
  "Text h caller ctx i w =
     (case caller of None \<Rightarrow> (WriteError 401 ''unauthorized'', w)
      | Some u \<Rightarrow>
        if \<not> isValidRaceID i then (WriteError 400 ''invalid_race_id'', w)
        else (case GetRaceText (h_svc h) ctx i w of
            (Inl ErrRaceNotFound, w1) \<Rightarrow> (WriteError 404 ''race_not_found'', w1)
          | (Inl ErrPromptNotReady, w1) \<Rightarrow> (WriteError 409 ''prompt_not_ready'', w1)
          | (Inl _, w1) \<Rightarrow> (WriteError 500 ''internal_error'', w1)
          | (Inr p, w1) \<Rightarrow> (WriteJSON 200 p, w1)))"

definition ListOpen :: "'w race_handler \<Rightarrow> user_id option \<Rightarrow> bool \<Rightarrow> 'w \<Rightarrow> open_race list reply \<times> 'w" where
  "ListOpen h caller ctx w =
     (case caller of None \<Rightarrow> (WriteError 401 ''unauthorized'', w)
      | Some u \<Rightarrow>
        (case ListOpenRaces (h_svc h) ctx u w of
            (Inl _, w1) \<Rightarrow> (WriteError 500 ''internal_error'', w1)
          | (Inr os, w1) \<Rightarrow> (WriteJSON 200 os, w1)))"

definition Status_handler :: "'w race_handler \<Rightarrow> user_id option \<Rightarrow> bool \<Rightarrow> string \<Rightarrow> 'w \<Rightarrow>
    race_status_response reply \<times> 'w" where
  "Status_handler h caller ctx i w =
     (case caller of None \<Rightarrow> (WriteError 401 ''unauthorized'', w)
      | Some u \<Rightarrow>
        if \<not> isValidRaceID i then (WriteError 400 ''invalid_race_id'', w)
        else (case GetRaceDetail (h_svc h) ctx i w of
            (Inl ErrRaceNotFound, w1) \<Rightarrow> (WriteError 404 ''race_not_found'', w1)
          | (Inl _, w1) \<Rightarrow> (WriteError 500 ''internal_error'', w1)
          | (Inr detail, w1) \<Rightarrow>
              (WriteJSON 200 \<lparr>st_Detail = detail,
                 st_PendingExpiresAt = (if Status (rd_Race detail) = ''pending''
                   then Some (CreatedAt (rd_Race detail) + PendingTimeoutDuration) else None)\<rparr>, w1)))"

end
