(* ===== verification/Locator.thy ===== *)
theory Locator
  imports Aviron_Prelude
begin

text \<open>
  Ownership of rooms and evictions in Redis (\<^verbatim>\<open>internal/roomlocator/locator.go\<close>). The
  \<^verbatim>\<open>go-redis\<close> client is a record of commands; what the code relies on of them is the locale
  \<open>redis_store\<close>, in terms of the value a key has and the members of a set. The locale leaves open
  whether a command that reports an error has taken effect. A key-value store in memory, with
  expiry, shows that the laws can hold.
\<close>

section \<open>Commands\<close>

text \<open>The payload on \<^verbatim>\<open>room:events\<close>.\<close>

datatype room_event_type = RoomEventCreated | RoomEventRemoved | RoomEventOther string

record room_event_json =
  re_Type :: room_event_type
  re_RaceID :: race_id
  re_InstanceID :: string

record 'w redis_client =
  rc_SetNX :: "bool \<Rightarrow> string \<Rightarrow> string \<Rightarrow> duration \<Rightarrow> 'w \<Rightarrow> (go_error + bool) \<times> 'w"
  rc_Expire :: "bool \<Rightarrow> string \<Rightarrow> duration \<Rightarrow> 'w \<Rightarrow> (go_error + bool) \<times> 'w"
  rc_Del :: "bool \<Rightarrow> string \<Rightarrow> 'w \<Rightarrow> go_error option \<times> 'w"
  rc_Get :: "bool \<Rightarrow> string \<Rightarrow> 'w \<Rightarrow> (go_error + string option) \<times> 'w"
  rc_SAdd :: "bool \<Rightarrow> string \<Rightarrow> string \<Rightarrow> 'w \<Rightarrow> go_error option \<times> 'w"
  rc_SIsMember :: "bool \<Rightarrow> string \<Rightarrow> string \<Rightarrow> 'w \<Rightarrow> (go_error + bool) \<times> 'w"
  rc_Publish :: "bool \<Rightarrow> string \<Rightarrow> room_event_json \<Rightarrow> 'w \<Rightarrow> go_error option \<times> 'w"

record 'w locator =
  client :: "'w redis_client"
  instanceID :: string

definition roomEventsChannel :: string where
  "roomEventsChannel = ''room:events''"

definition claimTTL :: duration where
  "claimTTL = 60 * second"

definition roomKey :: "race_id \<Rightarrow> string" where
  "roomKey i = ''room:'' @ i"

definition evictedKey :: "race_id \<Rightarrow> string" where
  "evictedKey i = ''race:'' @ i @ '':evicted''"

section \<open>The locator\<close>

definition publish :: "'w locator \<Rightarrow> bool \<Rightarrow> room_event_json \<Rightarrow> 'w \<Rightarrow> go_error option \<times> 'w" where
  "publish l ctx ev w = (case rc_Publish (client l) ctx roomEventsChannel ev w of
       (Some e, w1) \<Rightarrow> (Some (ErrOther ''roomlocator: publish event''), w1)
     | (None, w1) \<Rightarrow> (None, w1))"

text \<open>A Go result of type \<^verbatim>\<open>(bool, error)\<close>: both parts matter, a claim whose notification
  fails is still a claim.\<close>

definition Claim :: "'w locator \<Rightarrow> bool \<Rightarrow> race_id \<Rightarrow> 'w \<Rightarrow> (bool \<times> go_error option) \<times> 'w" where
  "Claim l ctx i w =
     (case rc_SetNX (client l) ctx (roomKey i) (''instance:'' @ instanceID l) claimTTL w of
        (Inl e, w1) \<Rightarrow> ((False, Some (ErrOther ''roomlocator: claim'')), w1)
      | (Inr claimed, w1) \<Rightarrow>
          if \<not> claimed then ((False, None), w1)
          else
            (case publish l ctx \<lparr>re_Type = RoomEventCreated, re_RaceID = i, re_InstanceID = instanceID l\<rparr> w1 of
               (Some e, w2) \<Rightarrow> ((True, Some e), w2)
             | (None, w2) \<Rightarrow> ((True, None), w2)))"

definition Refresh :: "'w locator \<Rightarrow> bool \<Rightarrow> race_id \<Rightarrow> 'w \<Rightarrow> go_error option \<times> 'w" where
  "Refresh l ctx i w =
     (case rc_Expire (client l) ctx (roomKey i) claimTTL w of
        (Inl e, w1) \<Rightarrow> (Some (ErrOther ''roomlocator: refresh''), w1)
      | (Inr stillOwned, w1) \<Rightarrow>
          if \<not> stillOwned then (Some (ErrOther ''roomlocator: refresh: claim expired before heartbeat''), w1)
          else (None, w1))"

definition Release :: "'w locator \<Rightarrow> bool \<Rightarrow> race_id \<Rightarrow> 'w \<Rightarrow> go_error option \<times> 'w" where
  "Release l ctx i w =
     (case rc_Del (client l) ctx (roomKey i) w of
        (Some e, w1) \<Rightarrow> (Some (ErrOther ''roomlocator: release''), w1)
      | (None, w1) \<Rightarrow>
          publish l ctx \<lparr>re_Type = RoomEventRemoved, re_RaceID = i, re_InstanceID = instanceID l\<rparr> w1)"

definition loc_MarkEvicted :: "'w locator \<Rightarrow> bool \<Rightarrow> race_id \<Rightarrow> user_id \<Rightarrow> 'w \<Rightarrow> go_error option \<times> 'w" where
  "loc_MarkEvicted l ctx i u w =
     (case rc_SAdd (client l) ctx (evictedKey i) u w of
        (Some e, w1) \<Rightarrow> (Some (ErrOther ''roomlocator: mark evicted''), w1)
      | (None, w1) \<Rightarrow> (None, w1))"

definition IsEvicted :: "'w locator \<Rightarrow> bool \<Rightarrow> race_id \<Rightarrow> user_id \<Rightarrow> 'w \<Rightarrow> (go_error + bool) \<times> 'w" where
  "IsEvicted l ctx i u w =
     (case rc_SIsMember (client l) ctx (evictedKey i) u w of
        (Inl e, w1) \<Rightarrow> (Inl (ErrOther ''roomlocator: is evicted''), w1)
      | (Inr b, w1) \<Rightarrow> (Inr b, w1))"

definition Owner :: "'w locator \<Rightarrow> bool \<Rightarrow> race_id \<Rightarrow> 'w \<Rightarrow> (go_error + string option) \<times> 'w" where
  "Owner l ctx i w =
     (case rc_Get (client l) ctx (roomKey i) w of
        (Inl e, w1) \<Rightarrow> (Inl (ErrOther ''roomlocator: owner''), w1)
      | (Inr None, w1) \<Rightarrow> (Inr None, w1)
      | (Inr (Some v), w1) \<Rightarrow> (Inr (Some (go_TrimPrefix v ''instance:'')), w1))"

section \<open>What the code relies on of Redis\<close>

locale redis_store =
  fixes rc :: "'w redis_client"
    and live :: "'w \<Rightarrow> string \<Rightarrow> string option"
    and elems :: "'w \<Rightarrow> string \<Rightarrow> string set"
  assumes setnx: "rc_SetNX rc c k v ttl w = (x, w') \<Longrightarrow> elems w' = elems w \<and>
      (case x of
         Inl e \<Rightarrow> live w' = live w \<or> live w k = None \<and> live w' = (live w)(k \<mapsto> v)
       | Inr b \<Rightarrow> b = (live w k = None) \<and> live w' = (if b then (live w)(k \<mapsto> v) else live w))"
    and expire: "rc_Expire rc c k ttl w = (x, w') \<Longrightarrow> elems w' = elems w \<and> live w' = live w \<and>
      (\<forall>b. x = Inr b \<longrightarrow> b = (live w k \<noteq> None))"
    and del: "rc_Del rc c k w = (e, w') \<Longrightarrow> elems w' = elems w \<and>
      (live w' = (live w)(k := None) \<or> e \<noteq> None \<and> live w' = live w)"
    and get: "rc_Get rc c k w = (y, w') \<Longrightarrow> elems w' = elems w \<and> live w' = live w \<and>
      (\<forall>v. y = Inr v \<longrightarrow> v = live w k)"
    and sadd: "rc_SAdd rc c k v w = (e, w') \<Longrightarrow> live w' = live w \<and>
      (elems w' = (elems w)(k := insert v (elems w k)) \<or> e \<noteq> None \<and> elems w' = elems w)"
    and sismember: "rc_SIsMember rc c k v w = (x, w') \<Longrightarrow> live w' = live w \<and> elems w' = elems w \<and>
      (\<forall>b. x = Inr b \<longrightarrow> b = (v \<in> elems w k))"
    and pub: "rc_Publish rc c ch ev w = (e, w') \<Longrightarrow> live w' = live w \<and> elems w' = elems w"

text \<open>A record of evictions as the room and the gateway share it.\<close>

locale eviction_record =
  fixes mark :: "race_id \<Rightarrow> user_id \<Rightarrow> 'w \<Rightarrow> go_error option \<times> 'w"
    and query :: "race_id \<Rightarrow> user_id \<Rightarrow> 'w \<Rightarrow> (go_error + bool) \<times> 'w"
    and evicted_in :: "'w \<Rightarrow> race_id \<Rightarrow> user_id set"
  assumes mark_adds: "mark i u w = (None, w') \<Longrightarrow> evicted_in w' i = insert u (evicted_in w i)"
    and mark_keeps: "mark i u w = (e, w') \<Longrightarrow> evicted_in w j \<subseteq> evicted_in w' j"
    and query_answers: "query i u w = (x, w') \<Longrightarrow> evicted_in w' = evicted_in w \<and>
      (\<forall>b. x = Inr b \<longrightarrow> b = (u \<in> evicted_in w i))"
begin

text \<open>Marks pile up: whoever was marked is still found after any number of further marks.\<close>

fun marks :: "(race_id \<times> user_id) list \<Rightarrow> 'w \<Rightarrow> 'w" where
  "marks [] w = w"
| "marks (ju # ms) w = marks ms (snd (mark (fst ju) (snd ju) w))"

lemma marks_keep: "evicted_in w j \<subseteq> evicted_in (marks ms w) j"
proof (induction ms arbitrary: w)
  case (Cons ju ms)
  have "evicted_in w j \<subseteq> evicted_in (snd (mark (fst ju) (snd ju) w)) j"
    using mark_keeps [of "fst ju" "snd ju" w, OF prod.collapse [symmetric]] .
  with Cons show ?case by (auto intro: order_trans)
qed simp

lemma marked_is_found:
  assumes "mark i u w = (None, w1)" "query i u (marks ms w1) = (Inr b, w2)"
  shows b
  using query_answers [OF assms(2)] mark_adds [OF assms(1)] marks_keep [of w1 i ms] by auto

end

context redis_store
begin

lemma publish_view:
  assumes "publish l c ev w = (e, w')" "client l = rc"
  shows "live w' = live w \<and> elems w' = elems w"
proof -
  obtain x w1 where x: "rc_Publish rc c roomEventsChannel ev w = (x, w1)" by fastforce
  from assms x pub [OF x] show ?thesis by (auto simp: publish_def split: option.splits)
qed

lemma mark_view:
  assumes "loc_MarkEvicted l c i u w = (e, w')" "client l = rc"
  shows "live w' = live w \<and> (elems w' = (elems w)(evictedKey i := insert u (elems w (evictedKey i)))
    \<or> e \<noteq> None \<and> elems w' = elems w)"
proof -
  obtain x w1 where x: "rc_SAdd rc c (evictedKey i) u w = (x, w1)" by fastforce
  from assms x sadd [OF x] show ?thesis by (auto simp: loc_MarkEvicted_def split: option.splits)
qed

lemma is_evicted_view:
  assumes "IsEvicted l c i u w = (x, w')" "client l = rc"
  shows "live w' = live w \<and> elems w' = elems w \<and> (\<forall>b. x = Inr b \<longrightarrow> b = (u \<in> elems w (evictedKey i)))"
proof -
  obtain y w1 where y: "rc_SIsMember rc c (evictedKey i) u w = (y, w1)" by fastforce
  from assms y sismember [OF y] show ?thesis by (auto simp: IsEvicted_def split: sum.splits)
qed

lemma refresh_view:
  assumes "Refresh l c i w = (e, w')" "client l = rc"
  shows "live w' = live w \<and> elems w' = elems w"
proof -
  obtain x w1 where x: "rc_Expire rc c (roomKey i) claimTTL w = (x, w1)" by fastforce
  from assms x expire [OF x] show ?thesis by (auto simp: Refresh_def split: sum.splits if_splits)
qed

lemma claim_view:
  assumes "Claim l c i w = ((claimed, e), w')" "client l = rc"
  shows "elems w' = elems w \<and> (live w' = live w \<or>
      live w (roomKey i) = None \<and> live w' = (live w)(roomKey i \<mapsto> ''instance:'' @ instanceID l))
    \<and> (claimed \<longrightarrow> live w (roomKey i) = None \<and> live w' (roomKey i) = Some (''instance:'' @ instanceID l))
    \<and> (\<not> claimed \<and> e = None \<longrightarrow> live w (roomKey i) \<noteq> None \<and> live w' = live w)"
proof -
  obtain x w1 where x: "rc_SetNX rc c (roomKey i) (''instance:'' @ instanceID l) claimTTL w = (x, w1)" by fastforce
  obtain p w2 where p: "publish l c \<lparr>re_Type = RoomEventCreated, re_RaceID = i, re_InstanceID = instanceID l\<rparr> w1
      = (p, w2)" by fastforce
  from assms x p setnx [OF x] publish_view [OF p assms(2)] show ?thesis
    by (auto simp: Claim_def split: sum.splits if_splits option.splits)
qed

lemma release_view:
  assumes "Release l c i w = (e, w')" "client l = rc"
  shows "elems w' = elems w \<and> (live w' = (live w)(roomKey i := None) \<or> e \<noteq> None \<and> live w' = live w)"
proof -
  obtain x w1 where x: "rc_Del rc c (roomKey i) w = (x, w1)" by fastforce
  obtain p w2 where p: "publish l c \<lparr>re_Type = RoomEventRemoved, re_RaceID = i, re_InstanceID = instanceID l\<rparr> w1
      = (p, w2)" by fastforce
  from assms x p del [OF x] publish_view [OF p assms(2)] show ?thesis
    by (auto simp: Release_def split: option.splits)
qed

lemma owner_view:
  assumes "Owner l c i w = (x, w')" "client l = rc"
  shows "live w' = live w \<and> elems w' = elems w
    \<and> (\<forall>y. x = Inr y \<longrightarrow> y = map_option (\<lambda>v. go_TrimPrefix v ''instance:'') (live w (roomKey i)))"
proof -
  obtain y w1 where y: "rc_Get rc c (roomKey i) w = (y, w1)" by fastforce
  from assms y get [OF y] show ?thesis by (auto simp: Owner_def split: sum.splits option.splits)
qed

end

sublocale redis_store \<subseteq> evictions: eviction_record
  "\<lambda>i u. loc_MarkEvicted \<lparr>client = rc, instanceID = n\<rparr> c i u"
  "\<lambda>i u. IsEvicted \<lparr>client = rc, instanceID = n\<rparr> c i u" "\<lambda>w i. elems w (evictedKey i)"
  for n c
proof
  fix i j u w w' e and x :: "go_error + bool"
  show "elems w' (evictedKey i) = insert u (elems w (evictedKey i))"
    if "loc_MarkEvicted \<lparr>client = rc, instanceID = n\<rparr> c i u w = (None, w')"
    using mark_view [OF that] by simp
  show "elems w (evictedKey j) \<subseteq> elems w' (evictedKey j)"
    if "loc_MarkEvicted \<lparr>client = rc, instanceID = n\<rparr> c i u w = (e, w')"
    using mark_view [OF that] by auto
  show "(\<lambda>i. elems w' (evictedKey i)) = (\<lambda>i. elems w (evictedKey i)) \<and>
      (\<forall>b. x = Inr b \<longrightarrow> b = (u \<in> elems w (evictedKey i)))"
    if "IsEvicted \<lparr>client = rc, instanceID = n\<rparr> c i u w = (x, w')"
    using is_evicted_view [OF that] by simp
qed

section \<open>Redis in memory\<close>

text \<open>Values with the instant they expire at, sets, and the messages published.\<close>

record mem_redis =
  strs :: "(string \<times> (string \<times> time)) list"
  sets :: "string \<Rightarrow> string set"
  published :: "(string \<times> room_event_json) list"
  mem_now :: time

definition mem_live :: "mem_redis \<Rightarrow> string \<Rightarrow> string option" where
  "mem_live m k = (case mget (strs m) k of None \<Rightarrow> None
     | Some (v, t) \<Rightarrow> if mem_now m < t then Some v else None)"

definition mem_client :: "mem_redis redis_client" where
  "mem_client =
     \<lparr>rc_SetNX = (\<lambda>ctx k v ttl m.
        if ctx \<or> ttl \<le> 0 then (Inl (ErrOther ''redis''), m)
        else if mem_live m k = None then (Inr True, m\<lparr>strs := mput k (v, mem_now m + ttl) (strs m)\<rparr>)
        else (Inr False, m)),
      rc_Expire = (\<lambda>ctx k ttl m.
        if ctx \<or> ttl \<le> 0 then (Inl (ErrOther ''redis''), m)
        else case mem_live m k of None \<Rightarrow> (Inr False, m)
          | Some v \<Rightarrow> (Inr True, m\<lparr>strs := mput k (v, mem_now m + ttl) (strs m)\<rparr>)),
      rc_Del = (\<lambda>ctx k m. if ctx then (Some (ErrOther ''redis''), m) else (None, m\<lparr>strs := mdel k (strs m)\<rparr>)),
      rc_Get = (\<lambda>ctx k m. if ctx then (Inl (ErrOther ''redis''), m) else (Inr (mem_live m k), m)),
      rc_SAdd = (\<lambda>ctx k v m. if ctx then (Some (ErrOther ''redis''), m)
        else (None, m\<lparr>sets := (sets m)(k := insert v (sets m k))\<rparr>)),
      rc_SIsMember = (\<lambda>ctx k v m. if ctx then (Inl (ErrOther ''redis''), m) else (Inr (v \<in> sets m k), m)),
      rc_Publish = (\<lambda>ctx ch ev m. if ctx then (Some (ErrOther ''redis''), m)
        else (None, m\<lparr>published := published m @ [(ch, ev)]\<rparr>))\<rparr>"

interpretation mem: redis_store mem_client mem_live sets
  by unfold_locales
    (auto simp: mem_client_def mem_live_def fun_eq_iff simp del: map_of_eq_Some_iff split: if_splits option.splits)

definition demo_locator :: "mem_redis locator" where
  "demo_locator = \<lparr>client = mem_client, instanceID = ''i1''\<rparr>"

definition empty_redis :: mem_redis where
  "empty_redis = \<lparr>strs = [], sets = (\<lambda>_. {}), published = [], mem_now = 0\<rparr>"

section \<open>Properties\<close>

text \<open>C27: Claiming a room never takes it from another instance, even when a command fails half-way: an
  owner recorded before is still the owner. A claim that is granted makes the claimant the owner
  everybody finds, one that is refused without error means that there is an owner, and other races
  are not affected.\<close>

theorem claim_is_exclusive:
  assumes "redis_store (client l) live elems" "Claim l c i w = ((claimed, e), w')"
    and "Owner l c' j w' = (Inr y, w'')"
  shows "(live w (roomKey j) \<noteq> None \<longrightarrow> live w' (roomKey j) = live w (roomKey j))
    \<and> (claimed \<and> j = i \<longrightarrow> live w (roomKey i) = None \<and> y = Some (instanceID l))
    \<and> (\<not> claimed \<and> e = None \<and> j = i \<longrightarrow> y \<noteq> None)
    \<and> (j \<noteq> i \<longrightarrow> live w' (roomKey j) = live w (roomKey j))"
proof -
  note claim = redis_store.claim_view [OF assms(1,2) refl]
  note owner = redis_store.owner_view [OF assms(1,3) refl]
  have key: "roomKey j = roomKey i \<longleftrightarrow> j = i" by (simp add: roomKey_def)
  from claim have "live w' (roomKey j) = live w (roomKey j)" if "live w (roomKey j) \<noteq> None \<or> j \<noteq> i"
    using that key by auto
  moreover have "live w (roomKey i) = None \<and> y = Some (instanceID l)" if "claimed" "j = i"
    using claim owner that go_TrimPrefix_append [of "''instance:''" "instanceID l"] by auto
  moreover have "y \<noteq> None" if "\<not> claimed" "e = None" "j = i"
    using claim owner that by auto
  ultimately show ?thesis by blast
qed

theorem claim_is_exclusive_witness:
  "let w = snd (Claim demo_locator False ''r1'' empty_redis) in
   fst (Owner demo_locator False ''r1'' w) = Inr (Some ''i1'')
   \<and> mem_live (snd (Claim demo_locator False ''r1'' w)) (roomKey ''r1'') = mem_live w (roomKey ''r1'')"
proof -
  let ?w = "snd (Claim demo_locator False ''r1'' empty_redis)"
  have c: "client demo_locator = mem_client" by (simp add: demo_locator_def)
  have run: "Claim demo_locator False ''r1'' empty_redis = ((True, None), ?w)"
    "Owner demo_locator False ''r1'' ?w = (Inr (Some ''i1''), ?w)"
    "fst (Owner demo_locator False ''r1'' (snd (Claim demo_locator False ''r1'' ?w))) = Inr (Some ''i1'')"
    by (simp_all add: Claim_def Owner_def publish_def demo_locator_def mem_client_def mem_live_def empty_redis_def
        claimTTL_def go_TrimPrefix_def go_HasPrefix_def)
  obtain b e w2 where again: "Claim demo_locator False ''r1'' ?w = ((b, e), w2)" by (metis surj_pair)
  obtain w3 where own: "Owner demo_locator False ''r1'' w2 = (Inr (Some ''i1''), w3)"
    using run(3) again by (metis prod.collapse snd_conv)
  have "mem_live ?w (roomKey ''r1'') \<noteq> None"
    using claim_is_exclusive [OF mem.redis_store_axioms [folded c] run(1,2)]
      redis_store.owner_view [OF mem.redis_store_axioms [folded c] run(2) refl] by auto
  with claim_is_exclusive [OF mem.redis_store_axioms [folded c] again own] again run(2)
  show ?thesis by (simp add: Let_def)
qed

text \<open>What any instance may do to the shared state in the meantime.\<close>

datatype locator_call = DoClaim race_id | DoRefresh race_id | DoRelease race_id | DoMark race_id user_id

fun locator_do :: "'w locator \<Rightarrow> bool \<Rightarrow> locator_call \<Rightarrow> 'w \<Rightarrow> 'w" where
  "locator_do l c (DoClaim i) w = snd (Claim l c i w)"
| "locator_do l c (DoRefresh i) w = snd (Refresh l c i w)"
| "locator_do l c (DoRelease i) w = snd (Release l c i w)"
| "locator_do l c (DoMark i u) w = snd (loc_MarkEvicted l c i u w)"

lemma locator_do_keeps:
  assumes "redis_store rc live elems" "client l = rc"
  shows "elems w k \<subseteq> elems (locator_do l c call w) k"
proof (cases call)
  case (DoClaim j)
  obtain b e w' where "Claim l c j w = ((b, e), w')" by (metis surj_pair)
  with DoClaim redis_store.claim_view [OF assms(1) this assms(2)] show ?thesis by simp
next
  case (DoRefresh j)
  obtain e w' where "Refresh l c j w = (e, w')" by fastforce
  with DoRefresh redis_store.refresh_view [OF assms(1) this assms(2)] show ?thesis by simp
next
  case (DoRelease j)
  obtain e w' where "Release l c j w = (e, w')" by fastforce
  with DoRelease redis_store.release_view [OF assms(1) this assms(2)] show ?thesis by simp
next
  case (DoMark j v)
  obtain e w' where "loc_MarkEvicted l c j v w = (e, w')" by fastforce
  with DoMark redis_store.mark_view [OF assms(1) this assms(2)] show ?thesis by auto
qed



section \<open>A claim of somebody else\<close>

text \<open>Releasing deletes the key whoever owns it: an instance whose claim has lapsed and been taken over
  removes the new owner's claim.\<close>

lemma release_drops_foreign_claim:
  "let w = snd (Claim (demo_locator\<lparr>instanceID := ''i2''\<rparr>) False ''r1'' empty_redis);
       w' = snd (Release demo_locator False ''r1'' w)
   in fst (Owner demo_locator False ''r1'' w) = Inr (Some ''i2'') \<and> fst (Owner demo_locator False ''r1'' w') = Inr None"
  by (simp add: Claim_def Owner_def Release_def publish_def demo_locator_def mem_client_def mem_live_def
      empty_redis_def claimTTL_def go_TrimPrefix_def go_HasPrefix_def)

end
