(* ===== verification/Protocol.thy ===== *)
theory Protocol
  imports Room_Actor
begin

text \<open>
  The two wire formats between a client and a room: the client's JSON frames
  (\<^verbatim>\<open>internal/ws/protocol.go\<close>) and the envelopes on the bus
  (\<^verbatim>\<open>internal/roomrelay/types.go\<close>), with the adapter that turns envelopes into room events
  (\<^verbatim>\<open>internal/roombus/adapter.go\<close>). A frame is given by the JSON value it is the text of,
  or \<open>None\<close> when it is not JSON; \<open>unmarshal\<close> is what \<^verbatim>\<open>encoding/json\<close> does with a value and the
  struct \<^verbatim>\<open>ClientMessage\<close>.
\<close>

section \<open>JSON values and the client's message\<close>

text \<open>Numbers are kept apart by their literal: only one without fraction and exponent fits into a
  Go integer field.\<close>

datatype json =
    JNull | JBool bool | JInt int | JReal rat | JString string
  | JArray "json list" | JObject "(string \<times> json) list"

record client_message =
  Type :: string
  RaceID :: string
  Seq :: int
  DistanceM :: float64
  PaceWatt_m :: float64
  TS :: int

definition zero_message :: client_message where
  "zero_message = \<lparr>Type = '''', RaceID = '''', Seq = 0, DistanceM = 0, PaceWatt_m = 0, TS = 0\<rparr>"

text \<open>Field names match without regard to (ASCII) case.\<close>

definition lower :: "char \<Rightarrow> char" where
  "lower c = (let n = of_char c :: nat in if 65 \<le> n \<and> n \<le> 90 then char_of (n + 32) else c)"

definition same_key :: "string \<Rightarrow> string \<Rightarrow> bool" where
  "same_key k f = (map lower k = f)"

definition in_int64 :: "int \<Rightarrow> bool" where
  "in_int64 n = (- (2 ^ 63) \<le> n \<and> n < 2 ^ 63)"

fun string_field :: "json \<Rightarrow> string \<Rightarrow> string option" where
  "string_field JNull old = Some old"
| "string_field (JString s) old = Some s"
| "string_field _ old = None"

fun int_field :: "json \<Rightarrow> int \<Rightarrow> int option" where
  "int_field JNull old = Some old"
| "int_field (JInt n) old = (if in_int64 n then Some n else None)"
| "int_field _ old = None"

fun float_field :: "json \<Rightarrow> float64 \<Rightarrow> float64 option" where
  "float_field JNull old = Some old"
| "float_field (JInt n) old = Some (of_int n)"
| "float_field (JReal x) old = Some x"
| "float_field _ old = None"

text \<open>One member of the object: a value that does not fit its field is an error, an unknown name is
  ignored.\<close>

definition set_field :: "string \<times> json \<Rightarrow> client_message \<Rightarrow> client_message option" where
  "set_field = (\<lambda>(k, v) m.
     if same_key k ''type'' then map_option (\<lambda>s. m\<lparr>Type := s\<rparr>) (string_field v (Type m))
     else if same_key k ''race_id'' then map_option (\<lambda>s. m\<lparr>RaceID := s\<rparr>) (string_field v (RaceID m))
     else if same_key k ''seq'' then map_option (\<lambda>n. m\<lparr>Seq := n\<rparr>) (int_field v (Seq m))
     else if same_key k ''distance_m'' then map_option (\<lambda>x. m\<lparr>DistanceM := x\<rparr>) (float_field v (DistanceM m))
     else if same_key k ''pace_watt'' then map_option (\<lambda>x. m\<lparr>PaceWatt_m := x\<rparr>) (float_field v (PaceWatt_m m))
     else if same_key k ''ts'' then map_option (\<lambda>n. m\<lparr>TS := n\<rparr>) (int_field v (TS m))
     else Some m)"

fun set_fields :: "(string \<times> json) list \<Rightarrow> client_message \<Rightarrow> client_message option" where
  "set_fields [] m = Some m"
| "set_fields (kv # kvs) m = (case set_field kv m of None \<Rightarrow> None | Some m' \<Rightarrow> set_fields kvs m')"

fun unmarshal :: "json \<Rightarrow> client_message option" where
  "unmarshal JNull = Some zero_message"
| "unmarshal (JObject kvs) = set_fields kvs zero_message"
| "unmarshal _ = None"

type_synonym frame = "json option"

definition known_type :: "string \<Rightarrow> bool" where
  "known_type s = (s \<in> {''join_race'', ''telemetry'', ''leave_race''})"

definition DecodeClientMessage :: "frame \<Rightarrow> go_error + client_message" where
  "DecodeClientMessage data =
     (case Option.bind data unmarshal of
        None \<Rightarrow> Inl (ErrOther ''ws: decode client message'')
      | Some m \<Rightarrow> if known_type (Type m) then Inr m else Inl (ErrOther ''ws: unknown message type''))"

text \<open>\<^verbatim>\<open>int(m.DistanceM)\<close>: truncation towards zero. For a value beyond the integers Go leaves
  the result to the implementation, which is the parameter \<open>oob\<close>.\<close>

definition go_int :: "(float64 \<Rightarrow> int) \<Rightarrow> float64 \<Rightarrow> int" where
  "go_int oob x = (let n = (if 0 \<le> x then \<lfloor>x\<rfloor> else \<lceil>x\<rceil>) in if in_int64 n then n else oob x)"

definition ToRoomEvent ::
  "(float64 \<Rightarrow> int) \<Rightarrow> client_message \<Rightarrow> user_id \<Rightarrow> string \<Rightarrow> go_error + room_event" where
  "ToRoomEvent oob m u name =
     (if Type m = ''join_race'' then Inr (ParticipantJoined u name)
      else if Type m = ''telemetry'' then Inr (TelemetryReceived u (Seq m) (go_int oob (DistanceM m)) (PaceWatt_m m))
      else if Type m = ''leave_race'' then Inr (ParticipantLeft u)
      else Inl (ErrOther ''ws: unknown message type''))"

section \<open>Envelopes and subjects\<close>

datatype inbound_kind = InboundKindMessage | InboundKindDisconnected | InboundKindOther string

record inbound_envelope =
  in_Kind :: inbound_kind
  in_RaceID :: race_id
  in_UserID :: user_id
  in_DisplayName :: string
  in_Message :: frame

datatype outbound_kind = OutboundKindBroadcast | OutboundKindRoomClosed | OutboundKindOther string

record 'p outbound_envelope =
  out_Kind :: outbound_kind
  out_RaceID :: race_id
  out_Payload :: "'p option"

definition inSubject :: "race_id \<Rightarrow> string" where
  "inSubject i = ''room.'' @ i @ ''.in''"

definition outSubject :: "race_id \<Rightarrow> string" where
  "outSubject i = ''room.'' @ i @ ''.out''"

section \<open>The adapter\<close>

text \<open>Frames that do not decode, and envelopes of an unknown kind, are dropped.\<close>

definition toRoomEvent :: "(float64 \<Rightarrow> int) \<Rightarrow> inbound_envelope \<Rightarrow> room_event option" where
  "toRoomEvent oob env =
     (case in_Kind env of
        InboundKindMessage \<Rightarrow>
          (case DecodeClientMessage (in_Message env) of
             Inl _ \<Rightarrow> None
           | Inr m \<Rightarrow>
               (case ToRoomEvent oob m (in_UserID env) (in_DisplayName env) of
                  Inl _ \<Rightarrow> None
                | Inr ev \<Rightarrow> Some ev))
      | InboundKindDisconnected \<Rightarrow> Some (ParticipantDisconnected (in_UserID env))
      | InboundKindOther _ \<Rightarrow> None)"

text \<open>The goroutine of \<^verbatim>\<open>SubscribeIn\<close> until its source is exhausted: the events it hands on,
  in order.\<close>

fun forwarded :: "(float64 \<Rightarrow> int) \<Rightarrow> inbound_envelope list \<Rightarrow> room_event list" where
  "forwarded oob [] = []"
| "forwarded oob (env # envs) =
     (case toRoomEvent oob env of None \<Rightarrow> forwarded oob envs | Some ev \<Rightarrow> ev # forwarded oob envs)"

definition PublishOut_envelope :: "race_id \<Rightarrow> 'p \<Rightarrow> 'p outbound_envelope" where
  "PublishOut_envelope i payload = \<lparr>out_Kind = OutboundKindBroadcast, out_RaceID = i, out_Payload = Some payload\<rparr>"

definition PublishRoomClosed_envelope :: "race_id \<Rightarrow> 'p outbound_envelope" where
  "PublishRoomClosed_envelope i = \<lparr>out_Kind = OutboundKindRoomClosed, out_RaceID = i, out_Payload = None\<rparr>"

section \<open>Lemmas\<close>

text \<open>The user an event of the wire speaks for.\<close>

fun speaks_for :: "room_event \<Rightarrow> user_id option" where
  "speaks_for (ParticipantJoined u n) = Some u"
| "speaks_for (TelemetryReceived u s n x) = Some u"
| "speaks_for (ParticipantDisconnected u) = Some u"
| "speaks_for (ParticipantLeft u) = Some u"
| "speaks_for _ = None"

lemma ToRoomEvent_speaks: "ToRoomEvent oob m u name = Inr ev \<Longrightarrow> speaks_for ev = Some u"
  by (auto simp: ToRoomEvent_def split: if_splits)

lemma DecodeClientMessage_type: "DecodeClientMessage data = Inr m \<Longrightarrow> known_type (Type m)"
  by (auto simp: DecodeClientMessage_def split: option.splits if_splits)

lemma ToRoomEvent_known: "known_type (Type m) \<Longrightarrow> \<exists>ev. ToRoomEvent oob m u name = Inr ev"
  by (auto simp: ToRoomEvent_def known_type_def)

lemma go_int_int: "in_int64 n \<Longrightarrow> go_int oob (of_int n) = n"
  by (simp add: go_int_def)

text \<open>The JSON object a client writes for a message.\<close>

definition client_frame :: "client_message \<Rightarrow> frame" where
  "client_frame m = Some (JObject [(''type'', JString (Type m)), (''race_id'', JString (RaceID m)),
     (''seq'', JInt (Seq m)), (''distance_m'', JReal (DistanceM m)), (''pace_watt'', JReal (PaceWatt_m m)),
     (''ts'', JInt (TS m))])"

lemma set_fields_client_frame:
  assumes "in_int64 (Seq m)" "in_int64 (TS m)"
  shows "Option.bind (client_frame m) unmarshal = Some m"
  using assms by (simp add: client_frame_def set_field_def same_key_def lower_def zero_message_def Let_def)

section \<open>Properties\<close>

text \<open>A client's frame can only ever speak for the user of its own connection: whatever bytes it
  sends, the event that reaches the room carries the identity the gateway put on the envelope, and
  it is one of the four a client may cause. Exactly the envelopes with a decodable frame, and the
  disconnects, are forwarded.\<close>

theorem identity_from_envelope:
  "case toRoomEvent oob env of
     Some ev \<Rightarrow> speaks_for ev = Some (in_UserID env)
       \<and> (in_Kind env = InboundKindDisconnected \<or> in_Kind env = InboundKindMessage
           \<and> (\<exists>m. DecodeClientMessage (in_Message env) = Inr m))
   | None \<Rightarrow> in_Kind env \<noteq> InboundKindDisconnected
       \<and> (in_Kind env = InboundKindMessage \<longrightarrow> (\<exists>e. DecodeClientMessage (in_Message env) = Inl e))"
proof (cases "in_Kind env")
  case InboundKindMessage
  show ?thesis
  proof (cases "DecodeClientMessage (in_Message env)")
    case (Inr m)
    obtain ev where ev: "ToRoomEvent oob m (in_UserID env) (in_DisplayName env) = Inr ev"
      using ToRoomEvent_known DecodeClientMessage_type [OF Inr] by blast
    with InboundKindMessage Inr ToRoomEvent_speaks [OF ev] show ?thesis by (simp add: toRoomEvent_def)
  qed (simp add: toRoomEvent_def InboundKindMessage)
qed (simp_all add: toRoomEvent_def)

theorem identity_from_envelope_witness:
  "toRoomEvent (\<lambda>_. 0) \<lparr>in_Kind = InboundKindMessage, in_RaceID = ''r'', in_UserID = ''a'', in_DisplayName = ''a'',
       in_Message = Some (JObject [(''type'', JString ''leave_race''), (''user_id'', JString ''b'')])\<rparr>
     = Some (ParticipantLeft ''a'')
   \<and> (let env = \<lparr>in_Kind = InboundKindMessage, in_RaceID = ''r'', in_UserID = ''a'', in_DisplayName = ''a'',
        in_Message = None\<rparr> in toRoomEvent (\<lambda>_. 0) env = None \<longrightarrow> (\<exists>e. DecodeClientMessage (in_Message env) = Inl e))"
  using identity_from_envelope [where oob = "\<lambda>_. 0" and env = "\<lparr>in_Kind = InboundKindMessage, in_RaceID = ''r'', in_UserID = ''a'',
      in_DisplayName = ''a'', in_Message = None\<rparr>"]
  by (simp add: toRoomEvent_def DecodeClientMessage_def set_field_def same_key_def lower_def zero_message_def
      known_type_def ToRoomEvent_def Let_def)

text \<open>What a client writes is what the room gets: the frame of a message of a known type, with
  integers of 64 bits, decodes to the same message, and telemetry with a whole number of words
  becomes an event with exactly these words.\<close>

theorem frame_roundtrip:
  assumes "known_type (Type m)" "in_int64 (Seq m)" "in_int64 (TS m)"
  shows "DecodeClientMessage (client_frame m) = Inr m
    \<and> (\<forall>n. Type m = ''telemetry'' \<and> DistanceM m = of_int n \<and> in_int64 n \<longrightarrow>
         toRoomEvent oob \<lparr>in_Kind = InboundKindMessage, in_RaceID = i, in_UserID = u, in_DisplayName = name,
           in_Message = client_frame m\<rparr> = Some (TelemetryReceived u (Seq m) n (PaceWatt_m m)))"
proof -
  have "DecodeClientMessage (client_frame m) = Inr m"
    using assms set_fields_client_frame [of m] by (simp add: DecodeClientMessage_def)
  then show ?thesis by (simp add: toRoomEvent_def ToRoomEvent_def go_int_int)
qed

theorem frame_roundtrip_witness:
  "DecodeClientMessage (client_frame \<lparr>Type = ''telemetry'', RaceID = ''r'', Seq = 3, DistanceM = 4,
      PaceWatt_m = 1 / 2, TS = 9\<rparr>)
    = Inr \<lparr>Type = ''telemetry'', RaceID = ''r'', Seq = 3, DistanceM = 4, PaceWatt_m = 1 / 2, TS = 9\<rparr>"
  using frame_roundtrip [of "\<lparr>Type = ''telemetry'', RaceID = ''r'', Seq = 3, DistanceM = 4,
      PaceWatt_m = 1 / 2, TS = 9\<rparr>"]
  by (simp add: known_type_def in_int64_def)

text \<open>Different races never share a subject, and no inbound subject is an outbound one; so what is
  published for one race is never received for another or in the other direction.\<close>

theorem subjects_disjoint:
  "(inSubject i = inSubject j \<longleftrightarrow> i = j) \<and> (outSubject i = outSubject j \<longleftrightarrow> i = j) \<and> inSubject i \<noteq> outSubject j"
proof -
  have "last (inSubject i) \<noteq> last (outSubject j)" by (simp add: inSubject_def outSubject_def)
  then have "inSubject i \<noteq> outSubject j" by metis
  then show ?thesis by (simp add: inSubject_def outSubject_def)
qed

end
