(* ===== verification/Tokens.thy ===== *)
theory Tokens
  imports Aviron_Prelude
begin

text \<open>
  Signed tokens as the two verifiers of the program read them (\<^verbatim>\<open>internal/middleware/auth.go\<close>
  and \<^verbatim>\<open>internal/wsgateway/session_token.go\<close>). Parsing and signing are what
  \<^verbatim>\<open>golang-jwt\<close> does, hence parameters; a claim set is the claims either verifier looks at,
  \<open>None\<close> for a claim that is missing or not a string, and for an expiration time that is missing or
  malformed.
\<close>

record jwt_claims =
  mc_sub :: "string option"
  mc_user_id :: "string option"
  mc_race_id :: "string option"
  mc_exp :: "int option"

text \<open>\<^verbatim>\<open>jwt.Parse\<close> with the HMAC key function, at an instant: the claims and
  \<^verbatim>\<open>token.Valid\<close>.\<close>

type_synonym jwt_parser = "time \<Rightarrow> string \<Rightarrow> go_error + (bool \<times> jwt_claims)"

text \<open>What both verifiers check first: a signed, valid token that has not expired.\<close>

definition live_claims :: "jwt_parser \<Rightarrow> time \<Rightarrow> string \<Rightarrow> jwt_claims option" where
  "live_claims parse now token =
     (case parse now token of
        Inl _ \<Rightarrow> None
      | Inr (valid, m) \<Rightarrow>
          (case mc_exp m of
             None \<Rightarrow> None
           | Some t \<Rightarrow> if valid \<and> \<not> t * second < now then Some m else None))"

text \<open>How the library reads back a token it has signed: until it expires, its claims are the ones that
  were signed.\<close>

definition reads_back :: "jwt_parser \<Rightarrow> string \<Rightarrow> jwt_claims \<Rightarrow> bool" where
  "reads_back parse token m =
     (\<forall>now. case mc_exp m of None \<Rightarrow> False
        | Some t \<Rightarrow> if now < t * second then parse now token = Inr (True, m)
                    else case parse now token of Inl _ \<Rightarrow> True | Inr (valid, m') \<Rightarrow> m' = m)"

lemma reads_back_live:
  "reads_back parse token m \<Longrightarrow> mc_exp m = Some t \<Longrightarrow> now < t * second \<Longrightarrow> live_claims parse now token = Some m"
  by (auto simp: reads_back_def live_claims_def dest!: spec [of _ now])

lemma reads_back_claims: "reads_back parse token m \<Longrightarrow> live_claims parse now token = Some m' \<Longrightarrow> m' = m"
  by (auto simp: reads_back_def live_claims_def dest!: spec [of _ now] split: option.splits sum.splits if_splits prod.splits)

end
