(* ===== verification/Gateway.thy ===== *)
theory Gateway
  imports Race_Service Locator Protocol Tokens "HOL-Library.Word"
begin

text \<open>
  The gateway's entry points (\<^verbatim>\<open>internal/wsgateway\<close>): session tokens
  (\<^verbatim>\<open>session_token.go\<close>), the routing of REST requests with its cache and round robin
  (\<^verbatim>\<open>gateway.go\<close>), the admission of a WebSocket (\<^verbatim>\<open>WSHandler.ServeHTTP\<close> in
  \<^verbatim>\<open>endpoint.go\<close>) and the health check (\<^verbatim>\<open>healthz.go\<close>). Parsing a token is the
  parameter \<open>parse\<close> (see \<^verbatim>\<open>Tokens\<close>).
\<close>

section \<open>Session tokens\<close>

definition verifySessionToken :: "jwt_parser \<Rightarrow> time \<Rightarrow> string \<Rightarrow> go_error + (user_id \<times> race_id)" where
  "verifySessionToken parse now token =
     (case parse now token of
        Inl e \<Rightarrow> Inl (ErrOther ''ws: invalid session token'')
      | Inr (valid, m) \<Rightarrow>
          if \<not> valid then Inl (ErrOther ''ws: invalid session token'')
          else
            (case mc_exp m of
               None \<Rightarrow> Inl (ErrOther ''ws: session token expired'')
             | Some t \<Rightarrow>
                 if t * second < now then Inl (ErrOther ''ws: session token expired'')
                 else if mc_user_id m = None \<or> mc_user_id m = Some ''''
                   then Inl (ErrOther ''ws: session token missing user_id claim'')
                 else if mc_race_id m = None \<or> mc_race_id m = Some ''''
                   then Inl (ErrOther ''ws: session token missing race_id claim'')
                 else Inr (the (mc_user_id m), the (mc_race_id m))))"

section \<open>Admission of a connection\<close>

datatype ws_outcome = Rejected nat string | Accepted user_id

definition ws_admit ::
  "'w locator \<Rightarrow> jwt_parser \<Rightarrow> time \<Rightarrow> bool \<Rightarrow> race_id \<Rightarrow> string \<Rightarrow> 'w \<Rightarrow> ws_outcome \<times> 'w" where
  "ws_admit l parse now ctx i token w =
     (case verifySessionToken parse now token of
        Inl e \<Rightarrow> (Rejected 401 ''unauthorized'', w)
      | Inr (u, tokenRace) \<Rightarrow>
          if tokenRace \<noteq> i then (Rejected 401 ''unauthorized'', w)
          else
            (case Owner l ctx i w of
               (Inl e, w1) \<Rightarrow> (Rejected 503 ''routing lookup failed'', w1)
             | (Inr None, w1) \<Rightarrow> (Rejected 404 ''race not found'', w1)
             | (Inr (Some _), w1) \<Rightarrow>
                 (case IsEvicted l ctx i u w1 of
                    (Inl e, w2) \<Rightarrow> (Rejected 503 ''routing lookup failed'', w2)
                  | (Inr True, w2) \<Rightarrow> (Rejected 401 ''unauthorized'', w2)
                  | (Inr False, w2) \<Rightarrow> (Accepted u, w2))))"

section \<open>Routing\<close>

record gateway =
  cache :: "(race_id \<times> (string \<times> time)) list"
  next_n :: "64 word"
  cacheTTL :: duration

definition NewGateway :: "duration \<Rightarrow> gateway" where
  "NewGateway ttl = \<lparr>cache = [], next_n = 0, cacheTTL = ttl\<rparr>"

definition extractRaceID :: "string \<Rightarrow> race_id option" where
  "extractRaceID path =
     (if \<not> go_HasPrefix path ''/races/'' then None
      else let rest = go_TrimPrefix path ''/races/'' in
        if rest = '''' then None
        else let i = go_CutBefore rest (CHR ''/'') in if i = '''' then None else Some i)"

text \<open>The clock is read when the entry is checked (\<open>now\<close>) and again when one is written (\<open>later\<close>).\<close>

definition resolveTarget :: "'w locator \<Rightarrow> time \<Rightarrow> time \<Rightarrow> bool \<Rightarrow> race_id \<Rightarrow> gateway \<times> 'w \<Rightarrow>
    (go_error + string option) \<times> gateway \<times> 'w" where
  "resolveTarget l now later ctx i = (\<lambda>(gw, w).
     let hit = (case mget (cache gw) i of None \<Rightarrow> None
                | Some (instance, expiresAt) \<Rightarrow> if now < expiresAt then Some instance else None) in
     case hit of
       Some instance \<Rightarrow> (Inr (Some instance), gw, w)
     | None \<Rightarrow>
         (case Owner l ctx i w of
            (Inl e, w1) \<Rightarrow> (Inl e, gw, w1)
          | (Inr None, w1) \<Rightarrow> (Inr None, gw, w1)
          | (Inr (Some instance), w1) \<Rightarrow>
              (Inr (Some instance), gw\<lparr>cache := mput i (instance, later + cacheTTL gw) (cache gw)\<rparr>, w1)))"

definition nextBackend :: "string list \<Rightarrow> gateway \<Rightarrow> (go_error + string) \<times> gateway" where
  "nextBackend backends gw =
     (if backends = [] then (Inl (ErrOther ''wsgateway: no backends available''), gw)
      else let n = next_n gw + 1 in
        (Inr (backends ! (unat (n - 1) mod length backends)), gw\<lparr>next_n := n\<rparr>))"

datatype route = Proxy string | HttpError nat string

definition gateway_ServeHTTP :: "'w locator \<Rightarrow> string list \<Rightarrow> time \<Rightarrow> time \<Rightarrow> bool \<Rightarrow> string \<Rightarrow> gateway \<times> 'w \<Rightarrow>
    route \<times> gateway \<times> 'w" where
  "gateway_ServeHTTP l backends now later ctx path = (\<lambda>(gw, w).
     case extractRaceID path of
       None \<Rightarrow>
         (case nextBackend backends gw of
            (Inl e, gw1) \<Rightarrow> (HttpError 503 ''routing lookup failed'', gw1, w)
          | (Inr addr, gw1) \<Rightarrow> (Proxy addr, gw1, w))
     | Some i \<Rightarrow>
         (case resolveTarget l now later ctx i (gw, w) of
            (Inl e, gw1, w1) \<Rightarrow> (HttpError 503 ''routing lookup failed'', gw1, w1)
          | (Inr None, gw1, w1) \<Rightarrow> (HttpError 404 ''race not found'', gw1, w1)
          | (Inr (Some addr), gw1, w1) \<Rightarrow> (Proxy addr, gw1, w1)))"

text \<open>One event of \<^verbatim>\<open>WatchRoomEvents\<close>, at the instant it is handled.\<close>

definition watch_event :: "time \<Rightarrow> room_event_json \<Rightarrow> gateway \<Rightarrow> gateway" where
  "watch_event now ev gw =
     (case re_Type ev of
        RoomEventCreated \<Rightarrow>
          gw\<lparr>cache := mput (re_RaceID ev) (re_InstanceID ev, now + cacheTTL gw) (cache gw)\<rparr>
      | RoomEventRemoved \<Rightarrow> gw\<lparr>cache := mdel (re_RaceID ev) (cache gw)\<rparr>
      | RoomEventOther _ \<Rightarrow> gw)"

fun watch_events :: "(time \<times> room_event_json) list \<Rightarrow> gateway \<Rightarrow> gateway" where
  "watch_events [] gw = gw"
| "watch_events ((now, ev) # evs) gw = watch_events evs (watch_event now ev gw)"

text \<open>The subscription fails or delivers a sequence of events, each at the instant it is handled.\<close>

definition WatchRoomEvents :: "go_error + (time \<times> room_event_json) list \<Rightarrow> gateway \<Rightarrow> gateway" where
  "WatchRoomEvents sub gw = (case sub of Inl e \<Rightarrow> gw | Inr evs \<Rightarrow> watch_events evs gw)"

section \<open>Health\<close>

text \<open>The checks in the order the handler makes them; a discovery without an initial synchronisation
  counts as synchronised.\<close>

definition healthz :: "bool \<Rightarrow> bool option \<Rightarrow> bool \<Rightarrow> bool \<Rightarrow> nat \<times> string" where
  "healthz shuttingDown hasSynced redisPing natsConnected =
     (if shuttingDown then (503, ''shutting_down'')
      else if hasSynced = Some False then (503, ''backend_discovery_not_synced'')
      else if \<not> redisPing then (503, ''redis_unreachable'')
      else if \<not> natsConnected then (503, ''nats_unreachable'')
      else (200, ''ok''))"

section \<open>Lemmas\<close>

text \<open>A run of calls of \<^verbatim>\<open>nextBackend\<close> on one pool.\<close>

fun next_backends :: "nat \<Rightarrow> string list \<Rightarrow> gateway \<Rightarrow> (go_error + string) list" where
  "next_backends 0 backends gw = []"
| "next_backends (Suc k) backends gw =
     (let (x, gw1) = nextBackend backends gw in x # next_backends k backends gw1)"

lemma next_backends_nth:
  assumes "backends \<noteq> []" "unat (next_n gw) + k \<le> 2 ^ 64" "j < k"
  shows "next_backends k backends gw ! j = Inr (backends ! ((unat (next_n gw) + j) mod length backends))"
  using assms(2,3)
proof (induction k arbitrary: gw j)
  case (Suc k)
  show ?case
  proof (cases j)
    case 0
    with assms(1) show ?thesis by (simp add: nextBackend_def Let_def)
  next
    case (Suc j')
    have "unat (next_n gw) + unat (1 :: 64 word) < 2 ^ LENGTH(64)" using Suc.prems Suc by simp
    from iffD1 [OF unat_add_lem this] have u: "unat (next_n gw + 1) = unat (next_n gw) + 1" by simp
    have gw1: "nextBackend backends gw
        = (Inr (backends ! (unat (next_n gw) mod length backends)), gw\<lparr>next_n := next_n gw + 1\<rparr>)"
      using assms(1) by (simp add: nextBackend_def Let_def)
    have "next_backends k backends (gw\<lparr>next_n := next_n gw + 1\<rparr>) ! j'
        = Inr (backends ! ((unat (next_n gw) + 1 + j') mod length backends))"
      using Suc.IH [of "gw\<lparr>next_n := next_n gw + 1\<rparr>" j'] Suc.prems Suc u by simp
    with Suc gw1 show ?thesis by simp
  qed
qed simp

lemma next_backends_length: "length (next_backends k backends gw) = k"
  by (induction k arbitrary: gw) (simp_all add: Let_def case_prod_unfold)

lemma ws_admit_accepted:
  assumes "ws_admit l parse now ctx i token w = (Accepted u, w')"
  obtains w1 v where "verifySessionToken parse now token = Inr (u, i)"
    "Owner l ctx i w = (Inr (Some v), w1)" "IsEvicted l ctx i u w1 = (Inr False, w')"
  using assms by (auto simp: ws_admit_def split: sum.splits prod.splits if_splits option.splits bool.splits)

definition known_event :: "room_event_type \<Rightarrow> bool" where
  "known_event k = (k = RoomEventCreated \<or> k = RoomEventRemoved)"

text \<open>What a run of events leaves announced for a race: the last event about it decides.\<close>

definition announced :: "duration \<Rightarrow> race_id \<Rightarrow> (string \<times> time) option \<Rightarrow> (time \<times> room_event_json) list \<Rightarrow>
    (string \<times> time) option" where
  "announced ttl i known evs =
     (case rev (List.filter (\<lambda>(t, ev). re_RaceID ev = i \<and> known_event (re_Type ev)) evs) of
        [] \<Rightarrow> known
      | (t, ev) # _ \<Rightarrow> if re_Type ev = RoomEventCreated then Some (re_InstanceID ev, t + ttl) else None)"

definition created :: "race_id \<Rightarrow> string \<Rightarrow> room_event_json" where
  "created i inst = \<lparr>re_Type = RoomEventCreated, re_RaceID = i, re_InstanceID = inst\<rparr>"

lemma watch_event_cache:
  "mget (cache (watch_event t ev gw)) i = (if re_RaceID ev = i \<and> known_event (re_Type ev)
     then (if re_Type ev = RoomEventCreated then Some (re_InstanceID ev, t + cacheTTL gw) else None)
     else mget (cache gw) i)"
  by (cases "re_Type ev") (simp_all add: watch_event_def known_event_def)

lemma watch_event_ttl [simp]: "cacheTTL (watch_event t ev gw) = cacheTTL gw"
  by (cases "re_Type ev") (simp_all add: watch_event_def)

lemma announced_Cons:
  "announced ttl i known ((t, ev) # evs) = announced ttl i (announced ttl i known [(t, ev)]) evs"
  by (cases "rev (List.filter (\<lambda>(t, ev). re_RaceID ev = i \<and> known_event (re_Type ev)) evs)") (auto simp: announced_def)

lemma watched_cache:
  "mget (cache (watch_events evs gw)) i = announced (cacheTTL gw) i (mget (cache gw) i) evs"
proof (induction evs arbitrary: gw)
  case Nil
  show ?case by (simp add: announced_def)
next
  case (Cons e evs)
  obtain t ev where e: "e = (t, ev)" by (cases e)
  have "mget (cache (watch_event t ev gw)) i = announced (cacheTTL gw) i (mget (cache gw) i) [(t, ev)]"
    unfolding watch_event_cache by (simp add: announced_def)
  with Cons [of "watch_event t ev gw"] e show ?case by (simp add: announced_Cons [of _ _ _ _ _ evs])
qed

lemma cached_target:
  assumes "resolveTarget l now later ctx i (gw, w) = (out, gw', w')"
  shows "\<forall>v. out = Inr (Some v) \<longrightarrow> (\<exists>expiresAt. mget (cache gw') i = Some (v, expiresAt)
        \<and> (\<forall>now2 later2 ctx2 w2. now2 < expiresAt \<longrightarrow>
             resolveTarget l now2 later2 ctx2 i (gw', w2) = (Inr (Some v), gw', w2)))"
  using assms
  by (auto simp: resolveTarget_def Let_def split: option.splits prod.splits if_splits sum.splits)

section \<open>Properties\<close>

text \<open>The token that joining a race gives out is the credential the gateway takes: within its six
  hours it verifies to exactly the user and the race it was issued for - provided that the token
  library parses what it signed.\<close>

theorem session_token_accepted:
  assumes "\<And>c s. svc_sign svc c = Inr s \<Longrightarrow> reads_back parse s
      \<lparr>mc_sub = None, mc_user_id = Some (cl_user_id c), mc_race_id = Some (cl_race_id c), mc_exp = Some (cl_exp c)\<rparr>"
    and "signSessionToken svc i u w = (Inr token, w')" "u \<noteq> ''''" "i \<noteq> ''''"
    and "now \<le> svc_now svc w + (6 * 3600 - 1) * second"
  shows "verifySessionToken parse now token = Inr (u, i)"
proof -
  let ?e = "(svc_now svc w + 6 * 3600 * second) div second"
  have sig: "svc_sign svc \<lparr>cl_race_id = i, cl_user_id = u, cl_exp = ?e\<rparr> = Inr token"
    using assms(2) by (auto simp: signSessionToken_def split: sum.splits)
  have "svc_now svc w + 6 * 3600 * second < ?e * second + second"
    using div_mult_mod_eq [of "svc_now svc w + 6 * 3600 * second" second]
      pos_mod_bound [of second "svc_now svc w + 6 * 3600 * second"] by linarith
  then have lt: "now < ?e * second" using assms(5) by simp
  with assms(1) [OF sig] show ?thesis using assms(3,4)
    by (auto simp: verifySessionToken_def reads_back_def dest!: spec [of _ now])
qed

definition demo_sign :: "session_claims \<Rightarrow> go_error + string" where
  "demo_sign c = (if cl_exp c = 21600 \<and> CHR '' '' \<notin> set (cl_user_id c)
     then Inr (cl_user_id c @ CHR '' '' # cl_race_id c) else Inl (ErrOther ''sign''))"

definition demo_parse :: jwt_parser where
  "demo_parse now s = (if now < 21600 * second then Inr (True, \<lparr>mc_sub = None, mc_user_id = Some (takeWhile (\<lambda>c. c \<noteq> CHR '' '') s),
     mc_race_id = Some (tl (dropWhile (\<lambda>c. c \<noteq> CHR '' '') s)), mc_exp = Some 21600\<rparr>)
   else Inl (ErrOther ''expired''))"

definition demo_signer :: "db race_service" where
  "demo_signer = \<lparr>svc_repo = pg_repo, svc_sign = demo_sign, svc_now = (\<lambda>_. 0), svc_word = (\<lambda>d. (''word'', d))\<rparr>"

theorem session_token_accepted_witness:
  "signSessionToken demo_signer ''r1'' ''a'' demo_db = (Inr ''a r1'', demo_db)
   \<and> verifySessionToken demo_parse (21599 * second) ''a r1'' = Inr (''a'', ''r1'')"
proof -
  have s: "signSessionToken demo_signer ''r1'' ''a'' demo_db = (Inr ''a r1'', demo_db)"
    by (simp add: signSessionToken_def demo_signer_def demo_sign_def)
  have "verifySessionToken demo_parse (21599 * second) ''a r1'' = Inr (''a'', ''r1'')"
    by (rule session_token_accepted [OF _ s])
      (auto simp: reads_back_def demo_signer_def demo_sign_def demo_parse_def takeWhile_at_space dropWhile_at_space
        split: if_splits)
  with s show ?thesis by simp
qed

text \<open>A WebSocket is accepted only for a verified token of this very race, while some instance owns
  the race and the user is not among the evicted. In particular a user whose eviction has been
  recorded is never admitted again, whatever valid token they present.\<close>

theorem only_verified_admitted:
  assumes "redis_store (client l) live elems" "ws_admit l parse now ctx i token w = (Accepted u, w')"
  shows "verifySessionToken parse now token = Inr (u, i) \<and> live w (roomKey i) \<noteq> None
    \<and> u \<notin> elems w (evictedKey i) \<and> live w' = live w \<and> elems w' = elems w"
proof -
  obtain w1 v where v: "verifySessionToken parse now token = Inr (u, i)"
    "Owner l ctx i w = (Inr (Some v), w1)" "IsEvicted l ctx i u w1 = (Inr False, w')"
    using ws_admit_accepted [OF assms(2)] .
  with redis_store.owner_view [OF assms(1) v(2) refl] redis_store.is_evicted_view [OF assms(1) v(3) refl]
  show ?thesis by (cases "live w (roomKey i)") auto
qed

theorem only_verified_admitted_witness:
  "let w = snd (Claim demo_locator False ''r1'' empty_redis); w2 = snd (loc_MarkEvicted demo_locator False ''r1'' ''a'' w)
   in fst (ws_admit demo_locator demo_parse 0 False ''r1'' ''a r1'' w) = Accepted ''a''
      \<and> fst (ws_admit demo_locator demo_parse 0 False ''r1'' ''a r1'' w2) \<noteq> Accepted ''a''"
proof -
  let ?w = "snd (Claim demo_locator False ''r1'' empty_redis)"
  let ?w2 = "snd (loc_MarkEvicted demo_locator False ''r1'' ''a'' ?w)"
  have c: "client demo_locator = mem_client" by (simp add: demo_locator_def)
  have "''a'' \<in> sets ?w2 (evictedKey ''r1'')"
    by (simp add: loc_MarkEvicted_def demo_locator_def mem_client_def)
  then have "fst (ws_admit demo_locator demo_parse 0 False ''r1'' ''a r1'' ?w2) \<noteq> Accepted ''a''"
    using only_verified_admitted [OF mem.redis_store_axioms [folded c], of demo_parse 0 False "''r1''" "''a r1''" ?w2 "''a''"]
    by (metis prod.collapse)
  moreover have "fst (ws_admit demo_locator demo_parse 0 False ''r1'' ''a r1'' ?w) = Accepted ''a''"
    by (simp add: ws_admit_def verifySessionToken_def demo_parse_def Owner_def IsEvicted_def Claim_def publish_def
        demo_locator_def mem_client_def mem_live_def empty_redis_def claimTTL_def)
  ultimately show ?thesis by (simp add: Let_def)
qed

text \<open>Requests that no race owns are spread evenly: as long as the 64-bit counter does not wrap,
  any run of as many requests as there are backends reaches every backend of the pool once, in the
  order of the pool, going on where the last run ended.\<close>

theorem round_robin_fair:
  assumes "backends \<noteq> []" "unat (next_n gw) + length backends \<le> 2 ^ 64"
  shows "next_backends (length backends) backends gw = map Inr (rotate (unat (next_n gw)) backends)"
  by (rule nth_equalityI)
    (simp_all add: next_backends_length next_backends_nth [OF assms] nth_rotate add.commute)

theorem round_robin_fair_witness:
  "next_backends 3 [''a'', ''b'', ''c''] (NewGateway 30) = map Inr [''a'', ''b'', ''c'']"
  using round_robin_fair [of "[''a'', ''b'', ''c'']" "NewGateway 30"]
  by (simp add: NewGateway_def numeral_3_eq_3)

text \<open>Routing follows the events of the rooms. After any run of watched events the next request for a
  race goes to the instance of the last creation announced for it, unless that announcement has been
  withdrawn by a later removal or has outlived the time to live; in those cases, and for a race never
  heard of, the answer is the registry of owners' own. An owner found there is remembered: until the
  entry expires the next request gets the same instance without asking.\<close>

theorem routing_follows_events:
  assumes "resolveTarget l now later ctx i (WatchRoomEvents (Inr evs) gw, w) = (out, gw', w')"
  shows "(case announced (cacheTTL gw) i (mget (cache gw) i) evs of
      Some (instance, expiresAt) \<Rightarrow>
        if now < expiresAt then out = Inr (Some instance) \<and> gw' = WatchRoomEvents (Inr evs) gw \<and> w' = w
        else (out, w') = Owner l ctx i w
    | None \<Rightarrow> (out, w') = Owner l ctx i w)
    \<and> (\<forall>v. out = Inr (Some v) \<longrightarrow> (\<exists>expiresAt. mget (cache gw') i = Some (v, expiresAt)
        \<and> (\<forall>now2 later2 ctx2 w2. now2 < expiresAt \<longrightarrow>
             resolveTarget l now2 later2 ctx2 i (gw', w2) = (Inr (Some v), gw', w2))))"
proof -
  let ?gw = "WatchRoomEvents (Inr evs) gw"
  have c: "mget (cache ?gw) i = announced (cacheTTL gw) i (mget (cache gw) i) evs"
    by (simp add: WatchRoomEvents_def watched_cache)
  have "case mget (cache ?gw) i of
      Some (instance, expiresAt) \<Rightarrow>
        if now < expiresAt then out = Inr (Some instance) \<and> gw' = ?gw \<and> w' = w
        else (out, w') = Owner l ctx i w
    | None \<Rightarrow> (out, w') = Owner l ctx i w"
    using assms by (simp add: resolveTarget_def Let_def split: option.splits prod.splits if_splits sum.splits)
  then show ?thesis using cached_target [OF assms] unfolding c by blast
qed

theorem routing_follows_events_witness:
  "let gw = WatchRoomEvents (Inr [(1, created ''r1'' ''i1''), (2, created ''r1'' ''i2'')]) (NewGateway 30) in
   fst (resolveTarget demo_locator 31 31 False ''r1'' (gw, empty_redis)) = Inr (Some ''i2'')
   \<and> resolveTarget demo_locator 31 31 False ''r1'' (gw, empty_redis)
      = (Inr (Some ''i2''), gw, empty_redis)"
proof -
  let ?evs = "[(1, created ''r1'' ''i1''), (2, created ''r1'' ''i2'')]"
  have "announced 30 ''r1'' None ?evs = Some (''i2'', 32)"
    by (simp add: announced_def created_def known_event_def)
  then show ?thesis
    using routing_follows_events [of demo_locator 31 31 False "''r1''" ?evs "NewGateway 30" empty_redis,
        OF prod.collapse [symmetric, THEN trans, OF arg_cong2 [where f = Pair, OF refl prod.collapse [symmetric]]]]
    by (simp add: NewGateway_def Let_def prod_eq_iff)
qed

end
