(* ===== verification/Ws_Endpoint.thy ===== *)
theory Ws_Endpoint
  imports Protocol
begin

text \<open>
  What a connection's reader puts on the bus (\<^verbatim>\<open>readLoop\<close> in
  \<^verbatim>\<open>internal/wsgateway/endpoint.go\<close>). The loop is run on the sequence of what
  \<^verbatim>\<open>conn.Read\<close> returns; with each read comes what the loop meets while it handles it: the
  outcome of the publication, and for a failed read whether the hub has closed by then.
\<close>

datatype read_result =
    ReadFrame frame "go_error option"
  | ReadError bool "go_error option"

datatype reader_end = StillReading | ReaderReturned

definition message_envelope :: "race_id \<Rightarrow> user_id \<Rightarrow> string \<Rightarrow> frame \<Rightarrow> inbound_envelope" where
  "message_envelope i u name data = \<lparr>in_Kind = InboundKindMessage, in_RaceID = i, in_UserID = u,
     in_DisplayName = name, in_Message = data\<rparr>"

definition disconnected_envelope :: "race_id \<Rightarrow> user_id \<Rightarrow> string \<Rightarrow> inbound_envelope" where
  "disconnected_envelope i u name = \<lparr>in_Kind = InboundKindDisconnected, in_RaceID = i, in_UserID = u,
     in_DisplayName = name, in_Message = None\<rparr>"

text \<open>The result: the envelopes that were published without an error, and whether the loop has
  returned.\<close>

fun readLoop :: "race_id \<Rightarrow> user_id \<Rightarrow> string \<Rightarrow> read_result list \<Rightarrow> inbound_envelope list \<times> reader_end" where
  "readLoop i u name [] = ([], StillReading)"
| "readLoop i u name (ReadError hubClosed pubErr # rs) =
     (if hubClosed then ([], ReaderReturned)
      else (if pubErr = None then [disconnected_envelope i u name] else [], ReaderReturned))"
| "readLoop i u name (ReadFrame data pubErr # rs) =
     (case DecodeClientMessage data of
        Inl _ \<Rightarrow> readLoop i u name rs
      | Inr msg \<Rightarrow>
          if pubErr \<noteq> None then readLoop i u name rs
          else if Type msg = ''leave_race'' then ([message_envelope i u name data], ReaderReturned)
          else let (envs, e) = readLoop i u name rs in (message_envelope i u name data # envs, e))"

section \<open>Lemmas\<close>

text \<open>An event that ends what the room hears of a connection.\<close>

definition final_event :: "room_event \<Rightarrow> bool" where
  "final_event ev = (case ev of ParticipantLeft _ \<Rightarrow> True | ParticipantDisconnected _ \<Rightarrow> True | _ \<Rightarrow> False)"

lemma forwarded_message:
  assumes "DecodeClientMessage data = Inr m"
  obtains ev where "toRoomEvent oob (message_envelope i u name data) = Some ev" "speaks_for ev = Some u"
    "final_event ev \<longleftrightarrow> Type m = ''leave_race''"
proof -
  have k: "known_type (Type m)" by (rule DecodeClientMessage_type [OF assms])
  show ?thesis
  proof (rule that)
    show "toRoomEvent oob (message_envelope i u name data)
        = Some (if Type m = ''join_race'' then ParticipantJoined u name
                else if Type m = ''telemetry'' then TelemetryReceived u (Seq m) (go_int oob (DistanceM m)) (PaceWatt_m m)
                else ParticipantLeft u)"
      using k assms by (auto simp: toRoomEvent_def message_envelope_def ToRoomEvent_def known_type_def)
  qed (use k in \<open>auto simp: final_event_def known_type_def\<close>)
qed

lemma forwarded_disconnected:
  "toRoomEvent oob (disconnected_envelope i u name) = Some (ParticipantDisconnected u)"
  by (simp add: toRoomEvent_def disconnected_envelope_def)

lemma readLoop_events:
  assumes "readLoop i u name rs = (envs, e)" "evs = forwarded oob envs"
  shows "length evs = length envs \<and> (\<forall>ev \<in> set evs. speaks_for ev = Some u)
    \<and> (\<forall>ev \<in> set (butlast evs). \<not> final_event ev) \<and> (evs \<noteq> [] \<and> final_event (last evs) \<longrightarrow> e = ReaderReturned)"
  using assms
proof (induction rs arbitrary: envs e evs)
  case (Cons r rs)
  show ?case
  proof (cases r)
    case (ReadError hubClosed pubErr)
    with Cons.prems show ?thesis
      by (cases hubClosed; cases pubErr; clarsimp simp: forwarded_disconnected final_event_def)
  next
    case (ReadFrame data pubErr)
    show ?thesis
    proof (cases "DecodeClientMessage data")
      case (Inl x)
      with Cons ReadFrame show ?thesis by simp
    next
      case (Inr m)
      obtain ev where ev: "toRoomEvent oob (message_envelope i u name data) = Some ev" "speaks_for ev = Some u"
        "final_event ev \<longleftrightarrow> Type m = ''leave_race''"
        using forwarded_message [OF Inr] .
      obtain envs1 e1 where rest: "readLoop i u name rs = (envs1, e1)" by (cases "readLoop i u name rs")
      from Cons.IH [OF rest refl] Cons.prems ReadFrame Inr ev rest show ?thesis
        by (cases pubErr; cases "Type m = ''leave_race''"; clarsimp)
    qed
  qed
qed simp

section \<open>Properties\<close>

text \<open>A room hears of a connection exactly what it said: every envelope that the reader publishes
  survives the adapter on the other side of the bus, speaks for the connection's user, and the
  departure - a leave or a disconnect - is the last thing published; after a leave, or when the hub
  has closed, no disconnect follows. If publishing never fails, the frames that decode are published
  all and in order up to the first leave or the read error.\<close>

theorem reader_speaks_once:
  assumes "readLoop i u name rs = (envs, e)" "evs = forwarded oob envs"
  shows "length evs = length envs \<and> (\<forall>ev \<in> set evs. speaks_for ev = Some u)
    \<and> (\<forall>ev \<in> set (butlast evs). \<not> final_event ev)
    \<and> (evs \<noteq> [] \<and> final_event (last evs) \<longrightarrow> e = ReaderReturned)
    \<and> (\<forall>datas hubClosed. rs = map (\<lambda>data. ReadFrame data None) datas @ [ReadError hubClosed None]
        \<and> (\<forall>data \<in> set datas. \<forall>m. DecodeClientMessage data = Inr m \<longrightarrow> Type m \<noteq> ''leave_race'')
      \<longrightarrow> envs = map (message_envelope i u name) (List.filter (\<lambda>data. \<exists>m. DecodeClientMessage data = Inr m) datas)
            @ (if hubClosed then [] else [disconnected_envelope i u name]) \<and> e = ReaderReturned)"
proof -
  have "\<forall>data \<in> set datas. \<forall>m. DecodeClientMessage data = Inr m \<longrightarrow> Type m \<noteq> ''leave_race'' \<Longrightarrow>
      readLoop i u name (map (\<lambda>data. ReadFrame data None) datas @ [ReadError hubClosed None])
      = (map (message_envelope i u name) (List.filter (\<lambda>data. \<exists>m. DecodeClientMessage data = Inr m) datas)
            @ (if hubClosed then [] else [disconnected_envelope i u name]), ReaderReturned)" for datas hubClosed
    by (induction datas) (auto split: sum.splits)
  with readLoop_events [OF assms] assms(1) show ?thesis by auto
qed

theorem reader_speaks_once_witness:
  "let rs = [ReadFrame None None, ReadFrame (client_frame (zero_message\<lparr>Type := ''leave_race''\<rparr>)) None, ReadError False None];
       evs = forwarded (\<lambda>_. 0) (fst (readLoop ''r1'' ''a'' ''a'' rs))
   in evs = [ParticipantLeft ''a''] \<and> (\<forall>ev \<in> set (butlast evs). \<not> final_event ev)"
proof -
  let ?rs = "[ReadFrame None None, ReadFrame (client_frame (zero_message\<lparr>Type := ''leave_race''\<rparr>)) None, ReadError False None]"
  have d: "DecodeClientMessage (client_frame (zero_message\<lparr>Type := ''leave_race''\<rparr>)) = Inr (zero_message\<lparr>Type := ''leave_race''\<rparr>)"
    by (simp add: DecodeClientMessage_def set_fields_client_frame zero_message_def in_int64_def known_type_def)
  have n: "\<exists>x. DecodeClientMessage None = Inl x" by (simp add: DecodeClientMessage_def)
  have "readLoop ''r1'' ''a'' ''a'' ?rs
      = ([message_envelope ''r1'' ''a'' ''a'' (client_frame (zero_message\<lparr>Type := ''leave_race''\<rparr>))], ReaderReturned)"
    using n d by (auto simp: zero_message_def)
  moreover have "forwarded (\<lambda>_. 0) [message_envelope ''r1'' ''a'' ''a'' (client_frame (zero_message\<lparr>Type := ''leave_race''\<rparr>))]
      = [ParticipantLeft ''a'']"
    using d by (simp add: toRoomEvent_def message_envelope_def ToRoomEvent_def zero_message_def)
  ultimately show ?thesis
    using reader_speaks_once [OF prod.collapse [symmetric] refl, where oob = "\<lambda>_. 0" and i = "''r1''" and u = "''a''" and name = "''a''" and rs = ?rs] by (simp add: Let_def)
qed

end
