(* ===== verification/Event_Log.thy ===== *)
theory Event_Log
  imports Protocol Race_Store
begin

text \<open>
  The event log's wire format: what \<^verbatim>\<open>internal/kafka/producer.go\<close> writes and what
  \<^verbatim>\<open>internal/consumer/decode.go\<close> reads. Message values are JSON as in \<^verbatim>\<open>Protocol\<close>; the text
  of an instant (RFC 3339) is the pair of parameters \<open>format_time\<close> and \<open>parse_time\<close>, and
  \<^verbatim>\<open>kafka-go\<close>'s writer is the parameter \<open>write\<close>. A member that occurs twice replaces the
  earlier one.
\<close>

section \<open>Messages\<close>

record kafka_message =
  km_Topic :: string
  km_Offset :: nat
  km_Key :: string
  km_Value :: frame

definition TopicWorkoutSample :: string where
  "TopicWorkoutSample = ''workout.sample''"

definition TopicRaceFinished :: string where
  "TopicRaceFinished = ''race.finished''"

text \<open>A float64 is written without fraction where it has none.\<close>

definition json_float :: "float64 \<Rightarrow> json" where
  "json_float x = (if x = of_int \<lfloor>x\<rfloor> then JInt \<lfloor>x\<rfloor> else JReal x)"

definition json_pointer :: "int option \<Rightarrow> json" where
  "json_pointer p = (case p of None \<Rightarrow> JNull | Some n \<Rightarrow> JInt n)"

section \<open>The producer\<close>

definition workoutSamplePayload :: "(time \<Rightarrow> string) \<Rightarrow> race_id \<Rightarrow> user_id \<Rightarrow> time \<Rightarrow> int \<Rightarrow> float64 \<Rightarrow> json" where
  "workoutSamplePayload format_time i u ts wordsCorrect pace =
     JObject [(''race_id'', JString i), (''user_id'', JString u), (''ts'', JString (format_time ts)),
       (''distance_m'', json_float (of_int wordsCorrect)), (''pace_watt'', json_float pace)]"

definition result_json :: "race_result_json \<Rightarrow> json" where
  "result_json res = JObject [(''user_id'', JString (rj_UserID res)), (''finish_rank'', json_pointer (rj_FinishRank res)),
     (''finish_time_ms'', json_pointer (rj_FinishTimeMs res)), (''avg_pace_watt'', json_float (rj_AvgPaceWatt res))]"

definition raceFinishedPayload :: "race_id \<Rightarrow> participant_result list \<Rightarrow> json" where
  "raceFinishedPayload i results = JObject [(''race_id'', JString i),
     (''results'', JArray (map (result_json \<circ> toRaceResultJSON) results))]"

text \<open>The offset of a message is the broker's; the writer is handed 0.\<close>

type_synonym 'w writer = "bool \<Rightarrow> kafka_message \<Rightarrow> 'w \<Rightarrow> go_error option \<times> 'w"

definition kafka_PublishWorkoutSample :: "'w writer \<Rightarrow> (time \<Rightarrow> string) \<Rightarrow> bool \<Rightarrow> race_id \<Rightarrow> user_id \<Rightarrow> time \<Rightarrow>
    int \<Rightarrow> float64 \<Rightarrow> 'w \<Rightarrow> go_error option \<times> 'w" where
  "kafka_PublishWorkoutSample write format_time ctx i u ts wordsCorrect pace =
     write ctx \<lparr>km_Topic = TopicWorkoutSample, km_Offset = 0, km_Key = i,
       km_Value = Some (workoutSamplePayload format_time i u ts wordsCorrect pace)\<rparr>"

definition kafka_PublishRaceFinished :: "'w writer \<Rightarrow> bool \<Rightarrow> race_id \<Rightarrow> participant_result list \<Rightarrow> 'w \<Rightarrow>
    go_error option \<times> 'w" where
  "kafka_PublishRaceFinished write ctx i results =
     write ctx \<lparr>km_Topic = TopicRaceFinished, km_Offset = 0, km_Key = i, km_Value = Some (raceFinishedPayload i results)\<rparr>"

definition kafka_PublishRaw :: "'w writer \<Rightarrow> bool \<Rightarrow> string \<Rightarrow> string \<Rightarrow> frame \<Rightarrow> 'w \<Rightarrow> go_error option \<times> 'w" where
  "kafka_PublishRaw write ctx topic key value =
     write ctx \<lparr>km_Topic = topic, km_Offset = 0, km_Key = key, km_Value = value\<rparr>"

section \<open>Decoding\<close>

record workout_sample =
  ws_RaceID :: race_id
  ws_UserID :: user_id
  ws_Ts :: time
  ws_DistanceM :: float64
  ws_PaceWatt :: float64

text \<open>The zero \<^verbatim>\<open>time.Time\<close> is the first instant of the year 1.\<close>

definition zero_time :: time where
  "zero_time = - 62135596800 * second"

fun time_field :: "(string \<Rightarrow> time option) \<Rightarrow> json \<Rightarrow> time \<Rightarrow> time option" where
  "time_field parse_time JNull old = Some old"
| "time_field parse_time (JString s) old = parse_time s"
| "time_field parse_time _ old = None"

fun pointer_field :: "json \<Rightarrow> int option \<Rightarrow> int option option" where
  "pointer_field JNull old = Some None"
| "pointer_field (JInt n) old = (if in_int64 n then Some (Some n) else None)"
| "pointer_field _ old = None"

fun decode_members :: "(string \<Rightarrow> json \<Rightarrow> 'm \<Rightarrow> 'm option) \<Rightarrow> (string \<times> json) list \<Rightarrow> 'm \<Rightarrow> 'm option" where
  "decode_members f [] m = Some m"
| "decode_members f ((k, v) # kvs) m = (case f k v m of None \<Rightarrow> None | Some m' \<Rightarrow> decode_members f kvs m')"

definition decode_struct :: "(string \<Rightarrow> json \<Rightarrow> 'm \<Rightarrow> 'm option) \<Rightarrow> 'm \<Rightarrow> json \<Rightarrow> 'm option" where
  "decode_struct f zero v = (case v of JNull \<Rightarrow> Some zero | JObject kvs \<Rightarrow> decode_members f kvs zero | _ \<Rightarrow> None)"

definition sample_member :: "(string \<Rightarrow> time option) \<Rightarrow> string \<Rightarrow> json \<Rightarrow> workout_sample \<Rightarrow> workout_sample option" where
  "sample_member parse_time k v m =
     (if same_key k ''race_id'' then map_option (\<lambda>x. m\<lparr>ws_RaceID := x\<rparr>) (string_field v (ws_RaceID m))
      else if same_key k ''user_id'' then map_option (\<lambda>x. m\<lparr>ws_UserID := x\<rparr>) (string_field v (ws_UserID m))
      else if same_key k ''ts'' then map_option (\<lambda>x. m\<lparr>ws_Ts := x\<rparr>) (time_field parse_time v (ws_Ts m))
      else if same_key k ''distance_m'' then map_option (\<lambda>x. m\<lparr>ws_DistanceM := x\<rparr>) (float_field v (ws_DistanceM m))
      else if same_key k ''pace_watt'' then map_option (\<lambda>x. m\<lparr>ws_PaceWatt := x\<rparr>) (float_field v (ws_PaceWatt m))
      else Some m)"

definition decodeWorkoutSample :: "(string \<Rightarrow> time option) \<Rightarrow> frame \<Rightarrow> go_error + workout_sample" where
  "decodeWorkoutSample parse_time value =
     (case Option.bind value (decode_struct (sample_member parse_time)
         \<lparr>ws_RaceID = '''', ws_UserID = '''', ws_Ts = zero_time, ws_DistanceM = 0, ws_PaceWatt = 0\<rparr>) of
        None \<Rightarrow> Inl (ErrOther ''consumer: decode workout sample'')
      | Some m \<Rightarrow> Inr m)"

definition result_member :: "string \<Rightarrow> json \<Rightarrow> race_result_json \<Rightarrow> race_result_json option" where
  "result_member k v m =
     (if same_key k ''user_id'' then map_option (\<lambda>x. m\<lparr>rj_UserID := x\<rparr>) (string_field v (rj_UserID m))
      else if same_key k ''finish_rank'' then map_option (\<lambda>x. m\<lparr>rj_FinishRank := x\<rparr>) (pointer_field v (rj_FinishRank m))
      else if same_key k ''finish_time_ms'' then map_option (\<lambda>x. m\<lparr>rj_FinishTimeMs := x\<rparr>) (pointer_field v (rj_FinishTimeMs m))
      else if same_key k ''avg_pace_watt'' then map_option (\<lambda>x. m\<lparr>rj_AvgPaceWatt := x\<rparr>) (float_field v (rj_AvgPaceWatt m))
      else Some m)"

definition decode_result :: "json \<Rightarrow> race_result_json option" where
  "decode_result = decode_struct result_member
     \<lparr>rj_UserID = '''', rj_FinishRank = None, rj_FinishTimeMs = None, rj_AvgPaceWatt = 0\<rparr>"

fun decode_results :: "json list \<Rightarrow> race_result_json list option" where
  "decode_results [] = Some []"
| "decode_results (v # vs) =
     (case decode_result v of None \<Rightarrow> None | Some res \<Rightarrow> map_option ((#) res) (decode_results vs))"

fun results_field :: "json \<Rightarrow> race_result_json list option" where
  "results_field JNull = Some []"
| "results_field (JArray vs) = decode_results vs"
| "results_field _ = None"

definition finished_member :: "string \<Rightarrow> json \<Rightarrow> race_id \<times> race_result_json list \<Rightarrow> (race_id \<times> race_result_json list) option" where
  "finished_member k v = (\<lambda>(i, rs).
     if same_key k ''race_id'' then map_option (\<lambda>x. (x, rs)) (string_field v i)
     else if same_key k ''results'' then map_option (\<lambda>x. (i, x)) (results_field v)
     else Some (i, rs))"

definition decodeRaceFinished :: "frame \<Rightarrow> go_error + (race_id \<times> race_result_json list)" where
  "decodeRaceFinished value =
     (case Option.bind value (decode_struct finished_member ('''', [])) of
        None \<Rightarrow> Inl (ErrOther ''consumer: decode race finished'')
      | Some m \<Rightarrow> Inr m)"

section \<open>Round trips\<close>

lemma same_key_simps [simp]:
  "same_key ''race_id'' f = (f = ''race_id'')" "same_key ''user_id'' f = (f = ''user_id'')"
  "same_key ''ts'' f = (f = ''ts'')" "same_key ''distance_m'' f = (f = ''distance_m'')"
  "same_key ''pace_watt'' f = (f = ''pace_watt'')" "same_key ''finish_rank'' f = (f = ''finish_rank'')"
  "same_key ''finish_time_ms'' f = (f = ''finish_time_ms'')" "same_key ''avg_pace_watt'' f = (f = ''avg_pace_watt'')"
  "same_key ''results'' f = (f = ''results'')"
  by (auto simp: same_key_def lower_def)

lemma float_field_json [simp]: "float_field (json_float x) old = Some x"
  by (auto simp: json_float_def)

lemma pointer_field_json: "pred_option in_int64 p \<Longrightarrow> pointer_field (json_pointer p) old = Some p"
  by (cases p) (simp_all add: json_pointer_def)

lemma decode_result_json:
  assumes "pred_option in_int64 (rj_FinishRank res)" "pred_option in_int64 (rj_FinishTimeMs res)"
  shows "decode_result (result_json res) = Some res"
  using assms by (simp add: decode_result_def decode_struct_def result_json_def result_member_def pointer_field_json)

lemma decode_results_json:
  "\<forall>res \<in> set rs. pred_option in_int64 (rj_FinishRank res) \<and> pred_option in_int64 (rj_FinishTimeMs res)
   \<Longrightarrow> decode_results (map result_json rs) = Some rs"
  by (induction rs) (simp_all add: decode_result_json)

lemma decode_published_sample:
  assumes "parse_time (format_time ts) = Some ts"
  shows "decodeWorkoutSample parse_time (Some (workoutSamplePayload format_time i u ts n pace))
    = Inr \<lparr>ws_RaceID = i, ws_UserID = u, ws_Ts = ts, ws_DistanceM = of_int n, ws_PaceWatt = pace\<rparr>"
  using assms by (simp add: decodeWorkoutSample_def decode_struct_def workoutSamplePayload_def sample_member_def)

lemma decode_published_results:
  assumes "\<forall>res \<in> set results. pred_option in_int64 (pr_FinishRank res) \<and> pred_option in_int64 (pr_FinishTimeMs res)"
  shows "decodeRaceFinished (Some (raceFinishedPayload i results)) = Inr (i, map toRaceResultJSON results)"
proof -
  have "decode_results (map result_json (map toRaceResultJSON results)) = Some (map toRaceResultJSON results)"
    by (rule decode_results_json) (use assms in \<open>simp add: toRaceResultJSON_def\<close>)
  then show ?thesis
    by (simp add: decodeRaceFinished_def decode_struct_def raceFinishedPayload_def finished_member_def)
qed

text \<open>C19: The event log loses nothing. A workout sample and a finished race go to their own topics under
  the race's identifier as key, so that the events of one race stay in order, and the consumer decodes
  from the message exactly what the room published: identifiers, instant, words, pace, and every
  result with its rank and time, the missing ones included.\<close>

theorem events_roundtrip:
  assumes "parse_time (format_time ts) = Some ts"
    and "\<forall>res \<in> set results. pred_option in_int64 (pr_FinishRank res) \<and> pred_option in_int64 (pr_FinishTimeMs res)"
  shows "\<exists>m1 m2. (\<forall>c w. kafka_PublishWorkoutSample write format_time c i u ts n pace w = write c m1 w
      \<and> kafka_PublishRaceFinished write c i results w = write c m2 w)
    \<and> km_Topic m1 = TopicWorkoutSample \<and> km_Key m1 = i
    \<and> decodeWorkoutSample parse_time (km_Value m1)
        = Inr \<lparr>ws_RaceID = i, ws_UserID = u, ws_Ts = ts, ws_DistanceM = of_int n, ws_PaceWatt = pace\<rparr>
    \<and> km_Topic m2 = TopicRaceFinished \<and> km_Key m2 = i
    \<and> decodeRaceFinished (km_Value m2) = Inr (i, map toRaceResultJSON results)"
  using decode_published_sample [of parse_time format_time ts i u n pace] assms(1) decode_published_results [OF assms(2), of i]
  by (intro exI [of _ "\<lparr>km_Topic = TopicWorkoutSample, km_Offset = 0, km_Key = i,
       km_Value = Some (workoutSamplePayload format_time i u ts n pace)\<rparr>"]
     exI [of _ "\<lparr>km_Topic = TopicRaceFinished, km_Offset = 0, km_Key = i, km_Value = Some (raceFinishedPayload i results)\<rparr>"])
    (simp add: kafka_PublishWorkoutSample_def kafka_PublishRaceFinished_def)

theorem events_roundtrip_witness:
  "\<exists>m1. kafka_PublishWorkoutSample (\<lambda>c m sent. (None, sent @ [m])) (\<lambda>t. if t = 7 then ''7'' else []) False ''r'' ''a'' 7 3 (1 / 2) []
     = (None, [m1]) \<and> decodeWorkoutSample (\<lambda>s. if s = ''7'' then Some 7 else None) (km_Value m1)
        = Inr \<lparr>ws_RaceID = ''r'', ws_UserID = ''a'', ws_Ts = 7, ws_DistanceM = 3, ws_PaceWatt = 1 / 2\<rparr>"
  using events_roundtrip [of "\<lambda>s. if s = ''7'' then Some 7 else None" "\<lambda>t. if t = 7 then ''7'' else []" 7 "[]"
      "\<lambda>c m sent. (None, sent @ [m])" "''r''" "''a''" 3 "1 / 2"]
  by auto

end
