(* ===== verification/Relay_Envelopes.thy ===== *)
theory Relay_Envelopes
  imports Event_Log
begin

text \<open>
  The wire format of the room bus: the two envelopes of \<^verbatim>\<open>internal/roomrelay/types.go\<close> and the
  room's messages they carry (\<^verbatim>\<open>room.go\<close>, \<^verbatim>\<open>lifecycle.go\<close>), as JSON values. A payload of
  the bus is the JSON value it is the text of.
\<close>

section \<open>Messages of a room\<close>

definition participantStateJSON_json :: "participant_state_json \<Rightarrow> json" where
  "participantStateJSON_json p = JObject [(''user_id'', JString (sj_UserID p)),
     (''distance_m'', json_float (sj_DistanceM p)), (''rank'', JInt (int (sj_Rank p)))]"

text \<open>The list of an empty snapshot is a nil slice.\<close>

fun room_msg_json :: "room_msg \<Rightarrow> json" where
  "room_msg_json (RaceStateMessage tick ps) = JObject [(''type'', JString ''race_state''), (''tick'', JInt tick),
     (''participants'', if ps = [] then JNull else JArray (map participantStateJSON_json ps))]"
| "room_msg_json (RaceStartedMessage prompt) =
     JObject [(''type'', JString ''race_started''), (''prompt_text'', JString prompt)]"
| "room_msg_json (RaceFinishedMessage results) =
     JObject [(''type'', JString ''race_finished''), (''results'', JArray (map result_json results))]"
| "room_msg_json RaceExpiredMessage = JObject [(''type'', JString ''race_expired'')]"

section \<open>Envelopes\<close>

fun inbound_kind_text :: "inbound_kind \<Rightarrow> string" where
  "inbound_kind_text InboundKindMessage = ''message''"
| "inbound_kind_text InboundKindDisconnected = ''disconnected''"
| "inbound_kind_text (InboundKindOther s) = s"

definition inbound_kind_of :: "string \<Rightarrow> inbound_kind" where
  "inbound_kind_of s = (if s = ''message'' then InboundKindMessage
     else if s = ''disconnected'' then InboundKindDisconnected else InboundKindOther s)"

fun outbound_kind_text :: "outbound_kind \<Rightarrow> string" where
  "outbound_kind_text OutboundKindBroadcast = ''broadcast''"
| "outbound_kind_text OutboundKindRoomClosed = ''room_closed''"
| "outbound_kind_text (OutboundKindOther s) = s"

definition outbound_kind_of :: "string \<Rightarrow> outbound_kind" where
  "outbound_kind_of s = (if s = ''broadcast'' then OutboundKindBroadcast
     else if s = ''room_closed'' then OutboundKindRoomClosed else OutboundKindOther s)"

text \<open>\<^verbatim>\<open>omitempty\<close> leaves out an empty name and a message or payload without bytes.\<close>

definition inbound_json :: "inbound_envelope \<Rightarrow> json" where
  "inbound_json env = JObject
     ([(''kind'', JString (inbound_kind_text (in_Kind env))), (''race_id'', JString (in_RaceID env)),
       (''user_id'', JString (in_UserID env))]
      @ (if in_DisplayName env = '''' then [] else [(''display_name'', JString (in_DisplayName env))])
      @ (case in_Message env of None \<Rightarrow> [] | Some v \<Rightarrow> [(''message'', v)]))"

definition outbound_json :: "json outbound_envelope \<Rightarrow> json" where
  "outbound_json env = JObject
     ([(''kind'', JString (outbound_kind_text (out_Kind env))), (''race_id'', JString (out_RaceID env))]
      @ (case out_Payload env of None \<Rightarrow> [] | Some v \<Rightarrow> [(''payload'', v)]))"

definition inbound_member :: "string \<Rightarrow> json \<Rightarrow> inbound_envelope \<Rightarrow> inbound_envelope option" where
  "inbound_member k v m =
     (if same_key k ''kind''
      then map_option (\<lambda>x. m\<lparr>in_Kind := inbound_kind_of x\<rparr>) (string_field v (inbound_kind_text (in_Kind m)))
      else if same_key k ''race_id'' then map_option (\<lambda>x. m\<lparr>in_RaceID := x\<rparr>) (string_field v (in_RaceID m))
      else if same_key k ''user_id'' then map_option (\<lambda>x. m\<lparr>in_UserID := x\<rparr>) (string_field v (in_UserID m))
      else if same_key k ''display_name'' then map_option (\<lambda>x. m\<lparr>in_DisplayName := x\<rparr>) (string_field v (in_DisplayName m))
      else if same_key k ''message'' then Some (m\<lparr>in_Message := Some v\<rparr>)
      else Some m)"

definition decode_inbound :: "frame \<Rightarrow> inbound_envelope option" where
  "decode_inbound data = Option.bind data (decode_struct inbound_member
     \<lparr>in_Kind = InboundKindOther '''', in_RaceID = '''', in_UserID = '''', in_DisplayName = '''', in_Message = None\<rparr>)"

definition outbound_member :: "string \<Rightarrow> json \<Rightarrow> json outbound_envelope \<Rightarrow> json outbound_envelope option" where
  "outbound_member k v m =
     (if same_key k ''kind''
      then map_option (\<lambda>x. m\<lparr>out_Kind := outbound_kind_of x\<rparr>) (string_field v (outbound_kind_text (out_Kind m)))
      else if same_key k ''race_id'' then map_option (\<lambda>x. m\<lparr>out_RaceID := x\<rparr>) (string_field v (out_RaceID m))
      else if same_key k ''payload'' then Some (m\<lparr>out_Payload := Some v\<rparr>)
      else Some m)"

definition decode_outbound :: "frame \<Rightarrow> json outbound_envelope option" where
  "decode_outbound data = Option.bind data (decode_struct outbound_member
     \<lparr>out_Kind = OutboundKindOther '''', out_RaceID = '''', out_Payload = None\<rparr>)"

section \<open>Round trips\<close>

lemma envelope_keys [simp]:
  "same_key ''kind'' f = (f = ''kind'')" "same_key ''display_name'' f = (f = ''display_name'')"
  "same_key ''message'' f = (f = ''message'')" "same_key ''payload'' f = (f = ''payload'')"
  by (auto simp: same_key_def lower_def)

text \<open>A kind that is not the text of another one.\<close>

definition proper_inbound :: "inbound_envelope \<Rightarrow> bool" where
  "proper_inbound env \<longleftrightarrow> inbound_kind_of (inbound_kind_text (in_Kind env)) = in_Kind env"

definition proper_outbound :: "'p outbound_envelope \<Rightarrow> bool" where
  "proper_outbound env \<longleftrightarrow> outbound_kind_of (outbound_kind_text (out_Kind env)) = out_Kind env"

lemma inbound_roundtrip: "proper_inbound env \<Longrightarrow> decode_inbound (Some (inbound_json env)) = Some env"
  by (cases env)
    (simp add: decode_inbound_def decode_struct_def inbound_json_def inbound_member_def proper_inbound_def split: option.split)

lemma outbound_roundtrip: "proper_outbound env \<Longrightarrow> decode_outbound (Some (outbound_json env)) = Some env"
  by (cases env)
    (simp add: decode_outbound_def decode_struct_def outbound_json_def outbound_member_def proper_outbound_def split: option.split)

end
