(* ===== verification/Relay_Bus.thy ===== *)
theory Relay_Bus
  imports Relay_Envelopes "HOL-Library.Sublist"
begin

text \<open>
  The room bus (\<^verbatim>\<open>internal/roomrelay\<close>): \<^verbatim>\<open>Bus\<close> over NATS (\<^verbatim>\<open>bus.go\<close>) and the
  in-memory \<^verbatim>\<open>FakeBus\<close> (\<^verbatim>\<open>fake.go\<close>), and the contract \<^verbatim>\<open>relayBus\<close>
  (\<^verbatim>\<open>internal/roombus/adapter.go\<close>) both are used through. NATS is what it documents to be:
  messages of a subject reach a subscription in the order the server takes them, at most once, and a
  full channel loses them; a race's identifier has no NATS wildcard, so a subscription is for one
  subject. \<open>sb_delivered\<close>, \<open>sb_lost\<close>, \<open>sb_from\<close>, \<open>bs_published\<close> and
  the like record what has happened; no operation reads them.
\<close>

section \<open>The bus over NATS\<close>

datatype direction = Inward | Outward

datatype envelope = Inbound inbound_envelope | Outbound "json outbound_envelope"

definition subject :: "direction \<Rightarrow> race_id \<Rightarrow> string" where
  "subject dir i = (case dir of Inward \<Rightarrow> inSubject i | Outward \<Rightarrow> outSubject i)"

definition decode_envelope :: "direction \<Rightarrow> frame \<Rightarrow> envelope option" where
  "decode_envelope dir data = (case dir of
       Inward \<Rightarrow> map_option Inbound (decode_inbound data)
     | Outward \<Rightarrow> map_option Outbound (decode_outbound data))"

definition subscriptionBuffer :: nat where
  "subscriptionBuffer = 64"

text \<open>A subscription with its goroutine: \<open>sb_wire\<close> are the messages on their way, \<open>sb_msgs\<close> the
  channel NATS fills (\<open>sb_closed\<close>: the library has closed it), \<open>sb_held\<close> an envelope the goroutine
  tries to hand over, \<open>sb_done\<close> that \<^verbatim>\<open>unsubscribe\<close> was called, \<open>sb_ended\<close> that the
  goroutine has returned and its channel is closed.\<close>

record subscription =
  sb_dir :: direction
  sb_race :: race_id
  sb_wire :: "frame list"
  sb_msgs :: "frame list"
  sb_closed :: bool
  sb_held :: "envelope option"
  sb_ctx :: bool
  sb_done :: bool
  sb_ended :: bool
  sb_delivered :: "envelope list"
  sb_lost :: nat
  sb_from :: nat

record bus_sys =
  bs_sub :: "nat \<Rightarrow> subscription"
  bs_next :: nat
  bs_publishTotal :: "direction \<Rightarrow> nat"
  bs_publishErrors :: "direction \<Rightarrow> nat"
  bs_published :: "(string \<times> frame) list"

definition frames :: "string \<Rightarrow> (string \<times> frame) list \<Rightarrow> frame list" where
  "frames subj ps = map snd (filter (\<lambda>(s, _). s = subj) ps)"

definition new_subscription :: "bool \<Rightarrow> direction \<Rightarrow> race_id \<Rightarrow> nat \<Rightarrow> subscription" where
  "new_subscription ctx dir i from = \<lparr>sb_dir = dir, sb_race = i, sb_wire = [], sb_msgs = [], sb_closed = False,
     sb_held = None, sb_ctx = ctx, sb_done = False, sb_ended = False, sb_delivered = [], sb_lost = 0, sb_from = from\<rparr>"

definition NewBus :: bus_sys where
  "NewBus = \<lparr>bs_sub = (\<lambda>_. new_subscription False Inward '''' 0), bs_next = 0, bs_publishTotal = (\<lambda>_. 0),
     bs_publishErrors = (\<lambda>_. 0), bs_published = []\<rparr>"

abbreviation upd_sub :: "nat \<Rightarrow> (subscription \<Rightarrow> subscription) \<Rightarrow> bus_sys \<Rightarrow> bus_sys" where
  "upd_sub k f s \<equiv> s\<lparr>bs_sub := (bs_sub s)(k := f (bs_sub s k))\<rparr>"

subsection \<open>Publishing\<close>

text \<open>A message the server takes goes to every subscription of its subject that still runs.\<close>

definition nats_deliver :: "string \<Rightarrow> frame \<Rightarrow> bus_sys \<Rightarrow> bus_sys" where
  "nats_deliver subj data s = s\<lparr>bs_published := bs_published s @ [(subj, data)],
     bs_sub := (\<lambda>k. let sb = bs_sub s k in
       if k < bs_next s \<and> subject (sb_dir sb) (sb_race sb) = subj \<and> \<not> sb_ended sb then sb\<lparr>sb_wire := sb_wire sb @ [data]\<rparr> else sb)\<rparr>"

text \<open>\<open>nats\<close> is the result of \<^verbatim>\<open>PublishMsg\<close>; \<open>payload\<close> what the envelope is marshalled to.\<close>

definition relay_publish :: "bool \<Rightarrow> go_error option \<Rightarrow> string \<Rightarrow> json option \<Rightarrow> bus_sys \<Rightarrow> go_error option \<times> bus_sys" where
  "relay_publish ctx nats subj payload s =
     (if ctx then (Some (ErrOther ''context canceled''), s)
      else (case payload of
          None \<Rightarrow> (Some (ErrOther ''roomrelay: marshal envelope''), s)
        | Some v \<Rightarrow>
            (case nats of
               Some _ \<Rightarrow> (Some (ErrOther ''roomrelay: publish''), s)
             | None \<Rightarrow> (None, nats_deliver subj (Some v) s))))"

definition observePublish :: "direction \<Rightarrow> go_error option \<Rightarrow> bus_sys \<Rightarrow> bus_sys" where
  "observePublish dir err s =
     (let s = s\<lparr>bs_publishTotal := (bs_publishTotal s)(dir := bs_publishTotal s dir + 1)\<rparr>
      in if err \<noteq> None then s\<lparr>bs_publishErrors := (bs_publishErrors s)(dir := bs_publishErrors s dir + 1)\<rparr> else s)"

text \<open>\<open>raw_ok\<close>: the bytes of the message are none or JSON; a \<^verbatim>\<open>RawMessage\<close> that is not is an
  error of \<^verbatim>\<open>json.Marshal\<close>.\<close>

definition PublishIn :: "bool \<Rightarrow> bool \<Rightarrow> go_error option \<Rightarrow> race_id \<Rightarrow> inbound_envelope \<Rightarrow> bus_sys \<Rightarrow> go_error option \<times> bus_sys" where
  "PublishIn raw_ok ctx nats i env s =
     (case relay_publish ctx nats (inSubject i) (if raw_ok then Some (inbound_json env) else None) s of
        (err, s1) \<Rightarrow> (err, observePublish Inward err s1))"

definition PublishOut :: "bool \<Rightarrow> go_error option \<Rightarrow> race_id \<Rightarrow> json outbound_envelope \<Rightarrow> bus_sys \<Rightarrow> go_error option \<times> bus_sys" where
  "PublishOut ctx nats i env s =
     (case relay_publish ctx nats (outSubject i) (Some (outbound_json env)) s of
        (err, s1) \<Rightarrow> (err, observePublish Outward err s1))"

subsection \<open>Subscribing\<close>

text \<open>\<open>nats\<close> is the result of \<^verbatim>\<open>ChanSubscribe\<close>.\<close>

definition relay_subscribe :: "bool \<Rightarrow> go_error option \<Rightarrow> direction \<Rightarrow> race_id \<Rightarrow> bus_sys \<Rightarrow> (go_error + nat) \<times> bus_sys" where
  "relay_subscribe ctx nats dir i s =
     (case nats of
        Some _ \<Rightarrow> (Inl (ErrOther ''roomrelay: subscribe''), s)
      | None \<Rightarrow> (Inr (bs_next s),
          s\<lparr>bs_sub := (bs_sub s)(bs_next s := new_subscription ctx dir i (length (frames (subject dir i) (bs_published s)))),
            bs_next := Suc (bs_next s)\<rparr>))"

definition SubscribeIn :: "bool \<Rightarrow> go_error option \<Rightarrow> race_id \<Rightarrow> bus_sys \<Rightarrow> (go_error + nat) \<times> bus_sys" where
  "SubscribeIn ctx nats = relay_subscribe ctx nats Inward"

definition SubscribeOut :: "bool \<Rightarrow> go_error option \<Rightarrow> race_id \<Rightarrow> bus_sys \<Rightarrow> (go_error + nat) \<times> bus_sys" where
  "SubscribeOut ctx nats = relay_subscribe ctx nats Outward"

definition unsubscribe :: "nat \<Rightarrow> bus_sys \<Rightarrow> bus_sys" where
  "unsubscribe k = upd_sub k (\<lambda>sb. sb\<lparr>sb_done := True\<rparr>)"

text \<open>What NATS does: the next message arrives in the channel, or is lost.\<close>

definition sub_arrive :: "subscription \<Rightarrow> subscription" where
  "sub_arrive sb = (case sb_wire sb of [] \<Rightarrow> sb | data # rest \<Rightarrow>
     (if length (sb_msgs sb) < subscriptionBuffer then sb\<lparr>sb_wire := rest, sb_msgs := sb_msgs sb @ [data]\<rparr>
      else sb\<lparr>sb_wire := rest, sb_lost := sb_lost sb + 1\<rparr>))"

definition sub_lose :: "subscription \<Rightarrow> subscription" where
  "sub_lose sb = sb\<lparr>sb_wire := tl (sb_wire sb), sb_lost := sb_lost sb + 1\<rparr>"

text \<open>One turn of the goroutine's loop with a message, the send of its envelope, and its return.\<close>

definition sub_receive :: "subscription \<Rightarrow> subscription" where
  "sub_receive sb = (case sb_msgs sb of [] \<Rightarrow> sb | data # rest \<Rightarrow>
     sb\<lparr>sb_msgs := rest, sb_held := decode_envelope (sb_dir sb) data\<rparr>)"

definition sub_hand_over :: "subscription \<Rightarrow> subscription" where
  "sub_hand_over sb = (case sb_held sb of None \<Rightarrow> sb | Some env \<Rightarrow>
     sb\<lparr>sb_held := None, sb_delivered := sb_delivered sb @ [env]\<rparr>)"

definition sub_may_return :: "subscription \<Rightarrow> bool" where
  "sub_may_return sb \<longleftrightarrow> sb_ctx sb \<or> sb_done sb \<or> (sb_held sb = None \<and> sb_msgs sb = [] \<and> sb_closed sb)"

definition sub_return :: "subscription \<Rightarrow> subscription" where
  "sub_return sb = sb\<lparr>sb_ended := True, sb_held := None\<rparr>"

inductive sub_step :: "subscription \<Rightarrow> subscription \<Rightarrow> bool" where
  arrives: "\<not> sb_ended sb \<Longrightarrow> \<not> sb_closed sb \<Longrightarrow> sub_step sb (sub_arrive sb)"
| loses: "sb_wire sb \<noteq> [] \<Longrightarrow> sub_step sb (sub_lose sb)"
| closes: "sub_step sb (sb\<lparr>sb_closed := True\<rparr>)"
| ctx_done: "sub_step sb (sb\<lparr>sb_ctx := True\<rparr>)"
| receives: "\<not> sb_ended sb \<Longrightarrow> sb_held sb = None \<Longrightarrow> sub_step sb (sub_receive sb)"
| hands_over: "\<not> sb_ended sb \<Longrightarrow> sub_step sb (sub_hand_over sb)"
| returns: "\<not> sb_ended sb \<Longrightarrow> sub_may_return sb \<Longrightarrow> sub_step sb (sub_return sb)"

inductive bus_step :: "bus_sys \<Rightarrow> bus_sys \<Rightarrow> bool" where
  publish_in: "bus_step s (snd (PublishIn raw_ok ctx nats i env s))"
| publish_out: "bus_step s (snd (PublishOut ctx nats i env s))"
| foreign: "bus_step s (nats_deliver subj data s)"
| subscribes: "bus_step s (snd (relay_subscribe ctx nats dir i s))"
| unsubscribes: "k < bs_next s \<Longrightarrow> bus_step s (unsubscribe k s)"
| within: "k < bs_next s \<Longrightarrow> sub_step (bs_sub s k) sb \<Longrightarrow> bus_step s (upd_sub k (\<lambda>_. sb) s)"

inductive bus_reachable :: "bus_sys \<Rightarrow> bool" where
  start: "bus_reachable NewBus"
| step: "bus_reachable s \<Longrightarrow> bus_step s s' \<Longrightarrow> bus_reachable s'"

section \<open>Lemmas on the bus\<close>

definition decoded :: "direction \<Rightarrow> frame list \<Rightarrow> envelope list" where
  "decoded dir xs = List.map_filter (decode_envelope dir) xs"

lemma decoded_simps [simp]:
  "decoded dir [] = []"
  "decoded dir (x # xs) = (case decode_envelope dir x of None \<Rightarrow> [] | Some env \<Rightarrow> [env]) @ decoded dir xs"
  "decoded dir (xs @ ys) = decoded dir xs @ decoded dir ys"
  by (simp_all add: decoded_def map_filter_def split: option.split)

lemma frames_append [simp]: "frames subj (ps @ [(s', data)]) = frames subj ps @ (if s' = subj then [data] else [])"
  by (simp add: frames_def)

text \<open>What is underway in a subscription, and what it may have to do with what was published.\<close>

definition underway :: "subscription \<Rightarrow> envelope list" where
  "underway sb = (if sb_ended sb then [] else
     (case sb_held sb of None \<Rightarrow> [] | Some env \<Rightarrow> [env]) @ decoded (sb_dir sb) (sb_msgs sb @ sb_wire sb))"

definition since :: "(string \<times> frame) list \<Rightarrow> subscription \<Rightarrow> envelope list" where
  "since ps sb = decoded (sb_dir sb) (drop (sb_from sb) (frames (subject (sb_dir sb) (sb_race sb)) ps))"

definition sub_ok :: "(string \<times> frame) list \<Rightarrow> subscription \<Rightarrow> bool" where
  "sub_ok ps sb \<longleftrightarrow> length (sb_msgs sb) \<le> subscriptionBuffer
     \<and> sb_from sb \<le> length (frames (subject (sb_dir sb) (sb_race sb)) ps)
     \<and> subseq (sb_delivered sb @ underway sb) (since ps sb)
     \<and> (sb_lost sb = 0 \<longrightarrow> (if sb_ended sb then prefix (sb_delivered sb) (since ps sb)
                           else sb_delivered sb @ underway sb = since ps sb))"

lemma subseq_drop_middle: "subseq (xs @ ys @ zs) us \<Longrightarrow> subseq (xs @ zs) us"
  by (rule subseq_order.trans [rotated]) (auto intro: list_emb_append_mono list_emb_append2)

lemma sub_step_ok:
  assumes "sub_step sb sb'" "sub_ok ps sb"
  shows "sub_ok ps sb' \<and> sb_dir sb' = sb_dir sb \<and> sb_race sb' = sb_race sb"
  using assms
proof cases
  case arrives
  show ?thesis
  proof (cases "sb_wire sb")
    case (Cons data rest)
    with arrives assms(2) show ?thesis
      using subseq_drop_middle [of "sb_delivered sb @ (case sb_held sb of None \<Rightarrow> [] | Some env \<Rightarrow> [env]) @ decoded (sb_dir sb) (sb_msgs sb)"
          "case decode_envelope (sb_dir sb) data of None \<Rightarrow> [] | Some env \<Rightarrow> [env]" "decoded (sb_dir sb) rest"]
      by (auto simp: sub_arrive_def sub_ok_def underway_def since_def)
  qed (use arrives assms(2) in \<open>simp add: sub_arrive_def\<close>)
next
  case loses
  then obtain data rest where "sb_wire sb = data # rest" by (cases "sb_wire sb") auto
  with loses assms(2) show ?thesis
    using subseq_drop_middle [of "sb_delivered sb @ (case sb_held sb of None \<Rightarrow> [] | Some env \<Rightarrow> [env]) @ decoded (sb_dir sb) (sb_msgs sb)"
        "case decode_envelope (sb_dir sb) data of None \<Rightarrow> [] | Some env \<Rightarrow> [env]" "decoded (sb_dir sb) rest"]
    by (auto simp: sub_lose_def sub_ok_def underway_def since_def)
next
  case receives
  then show ?thesis using assms(2)
    by (auto simp: sub_receive_def sub_ok_def underway_def since_def split: list.split option.split)
next
  case hands_over
  then show ?thesis using assms(2)
    by (auto simp: sub_hand_over_def sub_ok_def underway_def since_def split: option.split)
next
  case returns
  then show ?thesis using assms(2) subseq_drop_middle [of "sb_delivered sb" "underway sb" "[]" "since ps sb"]
    by (auto simp: sub_return_def sub_ok_def underway_def since_def intro: prefixI [OF sym])
qed (auto simp: sub_ok_def underway_def since_def)

lemma sub_ok_publish:
  assumes "sub_ok ps sb"
  shows "sub_ok (ps @ [(subj, data)]) (if subject (sb_dir sb) (sb_race sb) = subj \<and> \<not> sb_ended sb
    then sb\<lparr>sb_wire := sb_wire sb @ [data]\<rparr> else sb)"
proof -
  have since: "since (ps @ [(subj, data)]) sb
      = since ps sb @ (if subject (sb_dir sb) (sb_race sb) = subj then decoded (sb_dir sb) [data] else [])"
    using assms by (simp add: since_def sub_ok_def)
  show ?thesis
  proof (cases "subject (sb_dir sb) (sb_race sb) = subj \<and> \<not> sb_ended sb")
    case True
    with assms since show ?thesis
      using list_emb_append_mono [of "(=)" "sb_delivered sb @ underway sb" "since ps sb" "decoded (sb_dir sb) [data]" "decoded (sb_dir sb) [data]"]
      by (auto simp: sub_ok_def underway_def since_def)
  next
    case False
    with assms since show ?thesis
      by (auto simp: sub_ok_def underway_def intro: prefix_prefix)
  qed
qed

definition bus_ok :: "bus_sys \<Rightarrow> bool" where
  "bus_ok s \<longleftrightarrow> (\<forall>k < bs_next s. sub_ok (bs_published s) (bs_sub s k))"

lemma nats_deliver_ok: "bus_ok s \<Longrightarrow> bus_ok (nats_deliver subj data s)"
  using sub_ok_publish [of "bs_published s" _ subj data] by (auto simp: bus_ok_def nats_deliver_def Let_def)

lemma observePublish_simps [simp]: "bs_sub (observePublish dir err s) = bs_sub s"
  "bs_next (observePublish dir err s) = bs_next s" "bs_published (observePublish dir err s) = bs_published s"
  by (simp_all add: observePublish_def Let_def)

lemma bus_ok_observe [simp]: "bus_ok (observePublish dir err s) = bus_ok s"
  by (simp add: bus_ok_def)

lemma publish_ok: "bus_ok s \<Longrightarrow> bus_ok (snd (relay_publish ctx nats subj payload s))"
  by (auto simp: relay_publish_def nats_deliver_ok split: option.split)

lemma bus_step_ok:
  assumes "bus_step s s'" "bus_ok s"
  shows "bus_ok s'"
  using assms
proof cases
  case (publish_in raw_ok ctx nats i env)
  with publish_ok [OF assms(2)] show ?thesis by (simp add: PublishIn_def split: prod.split) (metis snd_conv)
next
  case (publish_out ctx nats i env)
  with publish_ok [OF assms(2)] show ?thesis by (simp add: PublishOut_def split: prod.split) (metis snd_conv)
next
  case (subscribes ctx nats dir i)
  with assms(2) show ?thesis
    by (auto simp: bus_ok_def relay_subscribe_def sub_ok_def new_subscription_def underway_def since_def less_Suc_eq split: option.split)
next
  case (unsubscribes k)
  with assms(2) show ?thesis by (auto simp: bus_ok_def unsubscribe_def sub_ok_def underway_def since_def)
next
  case (within k sb)
  with assms(2) sub_step_ok [OF within(3)] show ?thesis by (auto simp: bus_ok_def)
qed (use assms nats_deliver_ok in auto)

lemma bus_reachable_ok: "bus_reachable s \<Longrightarrow> bus_ok s"
  by (induction rule: bus_reachable.induct) (auto simp: bus_step_ok, simp add: bus_ok_def NewBus_def)

section \<open>The bus in memory\<close>

definition fakeSubscriptionBuffer :: nat where
  "fakeSubscriptionBuffer = 16"

text \<open>One direction of \<^verbatim>\<open>FakeBus\<close>; channels are numbers. \<open>fk_stopped\<close>: the
  \<^verbatim>\<open>sync.Once\<close> of the subscription has run. A send on a closed channel panics.\<close>

record 't fake_half =
  fk_subs :: "(race_id \<times> nat list) list"
  fk_chan :: "nat \<Rightarrow> 't list"
  fk_open :: "nat \<Rightarrow> bool"
  fk_stopped :: "nat \<Rightarrow> bool"
  fk_race :: "nat \<Rightarrow> race_id"
  fk_next :: nat
  fk_panicked :: bool
  fk_published :: "race_id \<Rightarrow> 't list"
  fk_received :: "nat \<Rightarrow> 't list"

record fake_bus =
  fb_in :: "inbound_envelope fake_half"
  fb_out :: "json outbound_envelope fake_half"

definition new_half :: "'t fake_half" where
  "new_half = \<lparr>fk_subs = [], fk_chan = (\<lambda>_. []), fk_open = (\<lambda>_. False), fk_stopped = (\<lambda>_. False), fk_race = (\<lambda>_. ''''),
     fk_next = 0, fk_panicked = False, fk_published = (\<lambda>_. []), fk_received = (\<lambda>_. [])\<rparr>"

definition NewFakeBus :: fake_bus where
  "NewFakeBus = \<lparr>fb_in = new_half, fb_out = new_half\<rparr>"

definition subs_of :: "race_id \<Rightarrow> 't fake_half \<Rightarrow> nat list" where
  "subs_of i b = (case mget (fk_subs b) i of None \<Rightarrow> [] | Some cs \<Rightarrow> cs)"

definition fake_send :: "'t \<Rightarrow> nat \<Rightarrow> 't fake_half \<Rightarrow> 't fake_half" where
  "fake_send env c b = (if fk_open b c
     then b\<lparr>fk_chan := (fk_chan b)(c := chan_try_send fakeSubscriptionBuffer env (fk_chan b c))\<rparr>
     else b\<lparr>fk_panicked := True\<rparr>)"

definition fakePublish :: "bool \<Rightarrow> race_id \<Rightarrow> 't \<Rightarrow> 't fake_half \<Rightarrow> go_error option \<times> 't fake_half" where
  "fakePublish ctx i env b =
     (if ctx then (Some (ErrOther ''context canceled''), b)
      else (None, (fold (fake_send env) (subs_of i b) b)\<lparr>fk_published := (fk_published b)(i := fk_published b i @ [env])\<rparr>))"

definition fakeSubscribe :: "race_id \<Rightarrow> 't fake_half \<Rightarrow> nat \<times> 't fake_half" where
  "fakeSubscribe i b = (let c = fk_next b in
     (c, b\<lparr>fk_subs := mput i (subs_of i b @ [c]) (fk_subs b), fk_chan := (fk_chan b)(c := []),
           fk_open := (fk_open b)(c := True), fk_stopped := (fk_stopped b)(c := False),
           fk_race := (fk_race b)(c := i), fk_next := Suc c, fk_received := (fk_received b)(c := [])\<rparr>))"

fun removeChan :: "nat list \<Rightarrow> nat \<Rightarrow> nat list" where
  "removeChan [] target = []"
| "removeChan (ch # chans) target = (if ch = target then chans else ch # removeChan chans target)"

text \<open>What \<^verbatim>\<open>unsubscribe\<close> does, called by the client or once the context is done.\<close>

definition fake_unsubscribe :: "nat \<Rightarrow> 't fake_half \<Rightarrow> 't fake_half" where
  "fake_unsubscribe c b =
     (if fk_stopped b c then b
      else b\<lparr>fk_stopped := (fk_stopped b)(c := True),
             fk_subs := mput (fk_race b c) (removeChan (subs_of (fk_race b c) b) c) (fk_subs b),
             fk_open := (fk_open b)(c := False)\<rparr>)"

definition fake_receive :: "nat \<Rightarrow> 't fake_half \<Rightarrow> 't fake_half" where
  "fake_receive c b = (case fk_chan b c of [] \<Rightarrow> b | env # rest \<Rightarrow>
     b\<lparr>fk_chan := (fk_chan b)(c := rest), fk_received := (fk_received b)(c := fk_received b c @ [env])\<rparr>)"

definition fake_PublishIn :: "bool \<Rightarrow> race_id \<Rightarrow> inbound_envelope \<Rightarrow> fake_bus \<Rightarrow> go_error option \<times> fake_bus" where
  "fake_PublishIn ctx i env b = (case fakePublish ctx i env (fb_in b) of (err, h) \<Rightarrow> (err, b\<lparr>fb_in := h\<rparr>))"

definition fake_PublishOut :: "bool \<Rightarrow> race_id \<Rightarrow> json outbound_envelope \<Rightarrow> fake_bus \<Rightarrow> go_error option \<times> fake_bus" where
  "fake_PublishOut ctx i env b = (case fakePublish ctx i env (fb_out b) of (err, h) \<Rightarrow> (err, b\<lparr>fb_out := h\<rparr>))"

definition fake_SubscribeIn :: "race_id \<Rightarrow> fake_bus \<Rightarrow> nat \<times> fake_bus" where
  "fake_SubscribeIn i b = (case fakeSubscribe i (fb_in b) of (c, h) \<Rightarrow> (c, b\<lparr>fb_in := h\<rparr>))"

definition fake_SubscribeOut :: "race_id \<Rightarrow> fake_bus \<Rightarrow> nat \<times> fake_bus" where
  "fake_SubscribeOut i b = (case fakeSubscribe i (fb_out b) of (c, h) \<Rightarrow> (c, b\<lparr>fb_out := h\<rparr>))"

text \<open>The two directions share the mutex and nothing else.\<close>

inductive half_step :: "'t fake_half \<Rightarrow> 't fake_half \<Rightarrow> bool" where
  unsubscribe: "c < fk_next b \<Longrightarrow> half_step b (fake_unsubscribe c b)"
| receive: "c < fk_next b \<Longrightarrow> half_step b (fake_receive c b)"

inductive fake_step :: "fake_bus \<Rightarrow> fake_bus \<Rightarrow> bool" where
  publish_in: "fake_step b (snd (fake_PublishIn ctx i env b))"
| publish_out: "fake_step b (snd (fake_PublishOut ctx i out b))"
| subscribe_in: "fake_step b (snd (fake_SubscribeIn i b))"
| subscribe_out: "fake_step b (snd (fake_SubscribeOut i b))"
| inward: "half_step (fb_in b) h \<Longrightarrow> fake_step b (b\<lparr>fb_in := h\<rparr>)"
| outward: "half_step (fb_out b) h' \<Longrightarrow> fake_step b (b\<lparr>fb_out := h'\<rparr>)"

inductive fake_reachable :: "fake_bus \<Rightarrow> bool" where
  start: "fake_reachable NewFakeBus"
| step: "fake_reachable b \<Longrightarrow> fake_step b b' \<Longrightarrow> fake_reachable b'"

subsection \<open>Lemmas on the bus in memory\<close>

definition chan_order :: "'t fake_half \<Rightarrow> nat \<Rightarrow> bool" where
  "chan_order b c \<longleftrightarrow> length (fk_chan b c) \<le> fakeSubscriptionBuffer
     \<and> subseq (fk_received b c @ fk_chan b c) (fk_published b (fk_race b c))"

definition half_ok :: "'t fake_half \<Rightarrow> bool" where
  "half_ok b \<longleftrightarrow> \<not> fk_panicked b
     \<and> (\<forall>i. distinct (subs_of i b) \<and> (\<forall>c \<in> set (subs_of i b). c < fk_next b \<and> fk_open b c \<and> fk_race b c = i))
     \<and> (\<forall>c < fk_next b. chan_order b c)"

lemma set_removeChan: "distinct cs \<Longrightarrow> set (removeChan cs c) = set cs - {c} \<and> distinct (removeChan cs c)"
  by (induction cs) auto

lemma fake_sends:
  assumes "\<forall>c \<in> set cs. fk_open b c" "distinct cs"
  shows "fold (fake_send env) cs b = b\<lparr>fk_chan := (\<lambda>c. if c \<in> set cs
    then chan_try_send fakeSubscriptionBuffer env (fk_chan b c) else fk_chan b c)\<rparr>"
  using assms
proof (induction cs arbitrary: b)
  case (Cons c cs)
  then have "fold (fake_send env) cs (fake_send env c b) = (fake_send env c b)\<lparr>fk_chan := (\<lambda>x. if x \<in> set cs
    then chan_try_send fakeSubscriptionBuffer env (fk_chan (fake_send env c b) x) else fk_chan (fake_send env c b) x)\<rparr>"
    by (intro Cons.IH) (auto simp: fake_send_def)
  moreover have "fake_send env c b = b\<lparr>fk_chan := (fk_chan b)(c := chan_try_send fakeSubscriptionBuffer env (fk_chan b c))\<rparr>"
    using Cons.prems by (simp add: fake_send_def)
  ultimately show ?case using Cons.prems by (auto intro!: arg_cong [where f = "\<lambda>m. b\<lparr>fk_chan := m\<rparr>"])
qed (simp add: fun_eq_iff)

lemma subseq_snoc2: "subseq xs ys \<Longrightarrow> subseq xs (ys @ zs)"
  by (metis append_Nil2 list_emb_Nil list_emb_append_mono)

lemma subseq_snoc_both: "subseq xs ys \<Longrightarrow> subseq (xs @ zs) (ys @ zs)"
  by (simp add: list_emb_append_mono)

lemma chan_order_send: "chan_order b c \<Longrightarrow> (c \<in> A \<Longrightarrow> fk_race b c = i) \<Longrightarrow>
  chan_order (b\<lparr>fk_chan := (\<lambda>x. if x \<in> A then chan_try_send fakeSubscriptionBuffer env (fk_chan b x) else fk_chan b x),
    fk_published := (fk_published b)(i := fk_published b i @ [env])\<rparr>) c"
  using subseq_snoc_both [of "fk_received b c @ fk_chan b c" _ "[env]"]
  by (auto simp: chan_order_def chan_try_send_def subseq_snoc2)

lemma fakePublish_ok:
  assumes "half_ok b"
  shows "half_ok (snd (fakePublish ctx i env b))"
proof (cases ctx)
  case False
  from assms have "fold (fake_send env) (subs_of i b) b = b\<lparr>fk_chan := (\<lambda>c. if c \<in> set (subs_of i b)
    then chan_try_send fakeSubscriptionBuffer env (fk_chan b c) else fk_chan b c)\<rparr>"
    by (intro fake_sends) (auto simp: half_ok_def)
  with assms False chan_order_send [of b _ "set (subs_of i b)" i env] show ?thesis
    by (simp add: fakePublish_def half_ok_def subs_of_def)
qed (use assms in \<open>simp add: fakePublish_def\<close>)

lemma subs_of_put: "fk_subs b' = mput i cs (fk_subs b) \<Longrightarrow> subs_of j b' = (if j = i then cs else subs_of j b)"
  by (simp add: subs_of_def)

lemma half_okD:
  assumes "half_ok b"
  shows "\<not> fk_panicked b" "distinct (subs_of i b)" "c < fk_next b \<Longrightarrow> chan_order b c"
    "c \<in> set (subs_of i b) \<Longrightarrow> c < fk_next b" "c \<in> set (subs_of i b) \<Longrightarrow> fk_open b c"
    "c \<in> set (subs_of i b) \<Longrightarrow> fk_race b c = i"
  using assms by (simp_all add: half_ok_def)

lemma half_okI:
  assumes "\<not> fk_panicked b" "\<And>i. distinct (subs_of i b)" "\<And>c. c < fk_next b \<Longrightarrow> chan_order b c"
    "\<And>i c. c \<in> set (subs_of i b) \<Longrightarrow> c < fk_next b \<and> fk_open b c \<and> fk_race b c = i"
  shows "half_ok b"
  using assms by (simp add: half_ok_def)

lemma fakeSubscribe_ok:
  assumes ok: "half_ok b"
  shows "half_ok (snd (fakeSubscribe i b))" (is "half_ok ?b")
proof -
  have subs: "subs_of j ?b = (if j = i then subs_of i b @ [fk_next b] else subs_of j b)" for j
    by (rule subs_of_put) (simp add: fakeSubscribe_def Let_def)
  have new: "c \<in> set (subs_of j b) \<Longrightarrow> c < fk_next b" for c j by (rule half_okD [OF ok])
  show ?thesis
  proof (rule half_okI)
    show "\<not> fk_panicked ?b" using half_okD(1) [OF ok] by (simp add: fakeSubscribe_def Let_def)
    show "distinct (subs_of j ?b)" for j using half_okD(2) [OF ok] new [of "fk_next b" i] by (auto simp: subs)
    show "chan_order ?b c" if "c < fk_next ?b" for c
      using that half_okD(3) [OF ok, of c] by (auto simp: fakeSubscribe_def Let_def chan_order_def less_Suc_eq)
    show "c < fk_next ?b \<and> fk_open ?b c \<and> fk_race ?b c = j" if "c \<in> set (subs_of j ?b)" for j c
    proof -
      from that have "c \<in> set (subs_of j b) \<or> (c = fk_next b \<and> j = i)" by (auto simp: subs split: if_splits)
      with half_okD(4-6) [OF ok, of c j] new [of c j] show ?thesis by (auto simp: fakeSubscribe_def Let_def)
    qed
  qed
qed

lemma fake_unsubscribe_ok:
  assumes ok: "half_ok b"
  shows "half_ok (fake_unsubscribe c b)" (is "half_ok ?b")
proof (cases "fk_stopped b c")
  case False
  let ?i = "fk_race b c"
  have subs: "subs_of j ?b = (if j = ?i then removeChan (subs_of ?i b) c else subs_of j b)" for j
    using False by (intro subs_of_put) (simp add: fake_unsubscribe_def)
  have rest: "set (removeChan (subs_of ?i b) c) = set (subs_of ?i b) - {c} \<and> distinct (removeChan (subs_of ?i b) c)"
    by (intro set_removeChan half_okD(2) [OF ok])
  show ?thesis
  proof (rule half_okI)
    show "\<not> fk_panicked ?b" using half_okD(1) [OF ok] False by (simp add: fake_unsubscribe_def)
    show "distinct (subs_of j ?b)" for j using half_okD(2) [OF ok] rest by (auto simp: subs)
    show "chan_order ?b c'" if "c' < fk_next ?b" for c'
      using that half_okD(3) [OF ok, of c'] False by (auto simp: fake_unsubscribe_def chan_order_def)
    show "c' < fk_next ?b \<and> fk_open ?b c' \<and> fk_race ?b c' = j" if "c' \<in> set (subs_of j ?b)" for j c'
    proof -
      have "c' \<in> set (subs_of j b)" "c' \<noteq> c"
        using that rest half_okD(6) [OF ok, of c j] by (auto simp: subs split: if_splits)
      with half_okD(4-6) [OF ok, of c' j] False show ?thesis by (simp add: fake_unsubscribe_def)
    qed
  qed
qed (use assms in \<open>simp add: fake_unsubscribe_def\<close>)

lemma fake_receive_ok: "half_ok b \<Longrightarrow> half_ok (fake_receive c b)"
  by (auto simp: fake_receive_def half_ok_def subs_of_def chan_order_def split: list.splits)

lemma half_step_ok: "half_step b b' \<Longrightarrow> half_ok b \<Longrightarrow> half_ok b'"
  by (induction rule: half_step.induct) (simp_all add: fake_unsubscribe_ok fake_receive_ok)

lemma fake_step_ok:
  "fake_step b b' \<Longrightarrow> half_ok (fb_in b) \<and> half_ok (fb_out b) \<Longrightarrow> half_ok (fb_in b') \<and> half_ok (fb_out b')"
proof (induction rule: fake_step.induct)
  case (publish_in b ctx i env)
  then show ?case using fakePublish_ok [of "fb_in b" ctx i env] by (cases "fakePublish ctx i env (fb_in b)") (simp add: fake_PublishIn_def)
next
  case (publish_out b ctx i out)
  then show ?case using fakePublish_ok [of "fb_out b" ctx i out] by (cases "fakePublish ctx i out (fb_out b)") (simp add: fake_PublishOut_def)
next
  case (subscribe_in b i)
  then show ?case using fakeSubscribe_ok [of "fb_in b" i] by (cases "fakeSubscribe i (fb_in b)") (simp add: fake_SubscribeIn_def)
next
  case (subscribe_out b i)
  then show ?case using fakeSubscribe_ok [of "fb_out b" i] by (cases "fakeSubscribe i (fb_out b)") (simp add: fake_SubscribeOut_def)
qed (simp_all add: half_step_ok)

lemma fake_reachable_ok: "fake_reachable b \<Longrightarrow> half_ok (fb_in b) \<and> half_ok (fb_out b)"
proof (induction rule: fake_reachable.induct)
  case start
  have "half_ok (new_half :: 't fake_half)" by (simp add: half_ok_def new_half_def subs_of_def)
  then show ?case by (simp add: NewFakeBus_def half_ok_def new_half_def subs_of_def)
qed (rule fake_step_ok)

section \<open>The contract\<close>

text \<open>\<^verbatim>\<open>relayBus\<close> as the adapter relies on it: what a subscription of a race receives is what was
  published for this race, in that order, some of it lost.\<close>

locale relay_bus =
  fixes ok :: "'s \<Rightarrow> bool" and subscribed :: "'s \<Rightarrow> nat \<Rightarrow> race_id \<Rightarrow> bool"
    and published :: "'s \<Rightarrow> race_id \<Rightarrow> inbound_envelope list"
    and received :: "'s \<Rightarrow> nat \<Rightarrow> inbound_envelope list"
  assumes in_order: "ok s \<Longrightarrow> subscribed s k i \<Longrightarrow> subseq (received s k) (published s i)"
begin

lemma forwarded_append: "forwarded oob (xs @ ys) = forwarded oob xs @ forwarded oob ys"
  by (induction xs) (auto split: option.split)

lemma forwarded_subseq: "subseq xs ys \<Longrightarrow> subseq (forwarded oob xs) (forwarded oob ys)"
  by (induction rule: list_emb.induct) (auto split: option.split)

text \<open>The adapter's goroutine turns what it receives into the events of the room.\<close>

lemma room_events: "ok s \<Longrightarrow> subscribed s k i \<Longrightarrow>
    subseq (forwarded oob (received s k)) (forwarded oob (published s i))"
  by (rule forwarded_subseq [OF in_order])

lemma forwarded_member: "ev \<in> set (forwarded oob envs) \<Longrightarrow> \<exists>env \<in> set envs. toRoomEvent oob env = Some ev"
  by (induction envs) (auto split: option.splits)

lemma room_event_origin: "ok s \<Longrightarrow> subscribed s k i \<Longrightarrow> ev \<in> set (forwarded oob (received s k)) \<Longrightarrow>
    \<exists>env \<in> set (published s i). toRoomEvent oob env = Some ev"
  using forwarded_member list_emb_set [OF in_order] by metis

end

definition inbounds :: "envelope list \<Rightarrow> inbound_envelope list" where
  "inbounds = List.map_filter (\<lambda>e. case e of Inbound env \<Rightarrow> Some env | Outbound _ \<Rightarrow> None)"

lemma inbounds_subseq: "subseq xs ys \<Longrightarrow> subseq (inbounds xs) (inbounds ys)"
  by (induction rule: list_emb.induct) (auto simp: inbounds_def map_filter_def)

lemma since_subseq: "subseq (since ps sb) (decoded (sb_dir sb) (frames (subject (sb_dir sb) (sb_race sb)) ps))"
proof -
  have "decoded dir xs = decoded dir (take n xs) @ decoded dir (drop n xs)" for dir n xs
    by (metis append_take_drop_id decoded_simps(3))
  then show ?thesis unfolding since_def by (metis list_emb_append2 subseq_order.order_refl)
qed

lemma bus_in_order:
  assumes "bus_reachable s" "k < bs_next s"
  shows "subseq (sb_delivered (bs_sub s k)) (since (bs_published s) (bs_sub s k))"
  using bus_reachable_ok [OF assms(1)] assms(2) subseq_drop_middle [of _ _ "[]"]
  by (fastforce simp: bus_ok_def sub_ok_def)

definition heard :: "bus_sys \<Rightarrow> race_id \<Rightarrow> inbound_envelope list" where
  "heard s i = inbounds (decoded Inward (frames (inSubject i) (bs_published s)))"

lemma nats_in_order:
  assumes "bus_reachable s" "k < bs_next s \<and> sb_dir (bs_sub s k) = Inward \<and> sb_race (bs_sub s k) = i"
  shows "subseq (inbounds (sb_delivered (bs_sub s k))) (heard s i)"
proof -
  have "subseq (sb_delivered (bs_sub s k)) (decoded Inward (frames (inSubject i) (bs_published s)))"
    using subseq_order.trans [OF bus_in_order since_subseq] assms by (fastforce simp: subject_def)
  then show ?thesis unfolding heard_def by (rule inbounds_subseq)
qed

lemma fake_in_order:
  assumes "half_ok b" "c < fk_next b"
  shows "subseq (fk_received b c) (fk_published b (fk_race b c))"
  using assms subseq_drop_middle [of "fk_received b c" "fk_chan b c" "[]"] by (simp add: half_ok_def chan_order_def)

interpretation nats: relay_bus bus_reachable
  "\<lambda>s k i. k < bs_next s \<and> sb_dir (bs_sub s k) = Inward \<and> sb_race (bs_sub s k) = i"
  heard "\<lambda>s k. inbounds (sb_delivered (bs_sub s k))"
  by unfold_locales (rule nats_in_order)

interpretation fake: relay_bus fake_reachable
  "\<lambda>b c i. c < fk_next (fb_in b) \<and> fk_race (fb_in b) c = i"
  "\<lambda>b. fk_published (fb_in b)" "\<lambda>b. fk_received (fb_in b)"
  by unfold_locales (use fake_in_order fake_reachable_ok in blast)

section \<open>Properties\<close>

lemma since_publish:
  assumes "bus_ok s" "k < bs_next s" "proper_inbound env" "sb = bs_sub s k"
  shows "since (bs_published (snd (PublishIn True False None i env s))) sb
    = since (bs_published s) sb @ (if sb_dir sb = Inward \<and> sb_race sb = i then [Inbound env] else [])"
proof -
  have subj: "(subject (sb_dir sb) (sb_race sb) = inSubject i) \<longleftrightarrow> sb_dir sb = Inward \<and> sb_race sb = i"
  proof -
    have "last (inSubject i) \<noteq> last (outSubject j)" for j by (simp add: inSubject_def outSubject_def)
    then have "inSubject i \<noteq> outSubject j" for j by metis
    moreover have "inSubject j = inSubject i \<longleftrightarrow> j = i" for j by (auto simp: inSubject_def)
    ultimately show ?thesis by (auto simp: subject_def split: direction.splits) metis
  qed
  have bound: "sb_from sb \<le> length (frames (subject (sb_dir sb) (sb_race sb)) (bs_published s))"
    using assms by (auto simp: bus_ok_def sub_ok_def)
  have "bs_published (snd (PublishIn True False None i env s)) = bs_published s @ [(inSubject i, Some (inbound_json env))]"
    by (simp add: PublishIn_def relay_publish_def nats_deliver_def)
  with bound subj inbound_roundtrip [OF assms(3)] show ?thesis
    by (auto simp: since_def decode_envelope_def)
qed

text \<open>C32: A subscription of the bus is a lossy queue of its race's subject. In every reachable state,
  with any number of publishers and subscriptions, what it has delivered is a part, in order, of what
  was published on its subject since it exists; if nothing was lost, delivered and underway together
  are exactly that, and after its end a first part of it. What \<^verbatim>\<open>PublishIn\<close> sends is received
  as the same envelope, by the inbound subscriptions of this race only. The channel holds at most 64
  messages, and once the context is done or \<^verbatim>\<open>unsubscribe\<close> was called the goroutine can always
  return, even when nobody takes its envelope.\<close>

theorem relay_in_order:
  assumes "bus_reachable s" "k < bs_next s" "sb = bs_sub s k"
  shows "subseq (sb_delivered sb) (since (bs_published s) sb)
    \<and> (sb_lost sb = 0 \<longrightarrow> (if sb_ended sb then prefix (sb_delivered sb) (since (bs_published s) sb)
                           else sb_delivered sb @ underway sb = since (bs_published s) sb))
    \<and> (\<forall>i env. proper_inbound env \<longrightarrow> since (bs_published (snd (PublishIn True False None i env s))) sb
        = since (bs_published s) sb @ (if sb_dir sb = Inward \<and> sb_race sb = i then [Inbound env] else []))
    \<and> length (sb_msgs sb) \<le> subscriptionBuffer
    \<and> ((sb_ctx sb \<or> sb_done sb) \<and> \<not> sb_ended sb \<longrightarrow> sub_step sb (sub_return sb) \<and> sb_ended (sub_return sb))"
proof -
  have ok: "bus_ok s" by (rule bus_reachable_ok [OF assms(1)])
  then have "sub_ok (bs_published s) sb" using assms by (simp add: bus_ok_def)
  moreover have "(sb_ctx sb \<or> sb_done sb) \<and> \<not> sb_ended sb \<longrightarrow> sub_step sb (sub_return sb) \<and> sb_ended (sub_return sb)"
    using sub_step.returns [of sb] by (auto simp: sub_may_return_def sub_return_def)
  ultimately show ?thesis
    using bus_in_order [OF assms(1,2)] since_publish [OF ok assms(2) _ assms(3)] assms(3) by (auto simp: sub_ok_def)
qed

definition demo_env :: inbound_envelope where
  "demo_env = \<lparr>in_Kind = InboundKindDisconnected, in_RaceID = ''r'', in_UserID = ''a'', in_DisplayName = '''', in_Message = None\<rparr>"

definition demo_bus :: bus_sys where
  "demo_bus = upd_sub 0 (\<lambda>_. sub_arrive (bs_sub (snd (PublishIn True False None ''r'' demo_env (snd (SubscribeIn False None ''r'' NewBus)))) 0))
     (snd (PublishIn True False None ''r'' demo_env (snd (SubscribeIn False None ''r'' NewBus))))"

definition demo_bus_end :: bus_sys where
  "demo_bus_end = upd_sub 0 (\<lambda>_. sub_hand_over (bs_sub (upd_sub 0 (\<lambda>_. sub_receive (bs_sub demo_bus 0)) demo_bus) 0))
     (upd_sub 0 (\<lambda>_. sub_receive (bs_sub demo_bus 0)) demo_bus)"

lemmas demo_bus_simps = SubscribeIn_def relay_subscribe_def NewBus_def new_subscription_def PublishIn_def relay_publish_def
  nats_deliver_def observePublish_def subject_def Let_def

lemma demo_bus_sub: "bs_next demo_bus = 1"
  "bs_sub demo_bus 0 = (new_subscription False Inward ''r'' 0)\<lparr>sb_msgs := [Some (inbound_json demo_env)]\<rparr>"
  by (simp_all add: demo_bus_def demo_bus_simps sub_arrive_def frames_def subscriptionBuffer_def)

lemma demo_env_decodes: "decode_envelope Inward (Some (inbound_json demo_env)) = Some (Inbound demo_env)"
  using inbound_roundtrip [of demo_env] by (simp add: decode_envelope_def proper_inbound_def demo_env_def inbound_kind_of_def)

lemma demo_bus_end_sub: "bs_next demo_bus_end = 1" "sb_delivered (bs_sub demo_bus_end 0) = [Inbound demo_env]"
  "sb_dir (bs_sub demo_bus_end 0) = Inward" "sb_race (bs_sub demo_bus_end 0) = ''r''" "sb_lost (bs_sub demo_bus_end 0) = 0"
  by (simp_all add: demo_bus_end_def demo_bus_sub new_subscription_def sub_receive_def sub_hand_over_def demo_env_decodes)

lemma demo_bus_reachable: "bus_reachable demo_bus_end"
proof -
  let ?s1 = "snd (SubscribeIn False None ''r'' NewBus)"
  have 1: "bus_reachable ?s1" unfolding SubscribeIn_def by (rule bus_reachable.step [OF bus_reachable.start bus_step.subscribes])
  have 2: "bus_reachable (snd (PublishIn True False None ''r'' demo_env ?s1))"
    by (rule bus_reachable.step [OF 1 bus_step.publish_in])
  have 3: "bus_reachable demo_bus" unfolding demo_bus_def
    by (rule bus_reachable.step [OF 2 bus_step.within], simp add: demo_bus_simps, rule sub_step.arrives)
      (simp_all add: demo_bus_simps frames_def)
  have 4: "bus_reachable (upd_sub 0 (\<lambda>_. sub_receive (bs_sub demo_bus 0)) demo_bus)"
    by (rule bus_reachable.step [OF 3 bus_step.within], simp add: demo_bus_sub, rule sub_step.receives)
      (simp_all add: demo_bus_sub new_subscription_def)
  show ?thesis unfolding demo_bus_end_def
    by (rule bus_reachable.step [OF 4 bus_step.within], simp add: demo_bus_sub, rule sub_step.hands_over)
      (simp add: demo_bus_sub new_subscription_def sub_receive_def)
qed

theorem relay_in_order_witness:
  "bus_reachable demo_bus_end \<and> sb_delivered (bs_sub demo_bus_end 0) = [Inbound demo_env]
   \<and> subseq [Inbound demo_env] (since (bs_published demo_bus_end) (bs_sub demo_bus_end 0))"
  using relay_in_order [OF demo_bus_reachable _ refl, of 0] demo_bus_end_sub demo_bus_reachable by simp

text \<open>C33: Behind either bus, the one over NATS and the one in memory, a room takes in events of its own
  race only, in the order they were published, and every event comes from an envelope that was published
  for the race; some may be lost. This is the contract \<^verbatim>\<open>relayBus\<close> the adapter relies on.\<close>

theorem room_hears_its_race:
  assumes "bus_reachable s" "k < bs_next s" "sb_dir (bs_sub s k) = Inward" "sb_race (bs_sub s k) = i"
    and "fake_reachable b" "c < fk_next (fb_in b)" "fk_race (fb_in b) c = j"
  shows "subseq (forwarded oob (inbounds (sb_delivered (bs_sub s k)))) (forwarded oob (heard s i))
    \<and> (\<forall>ev \<in> set (forwarded oob (inbounds (sb_delivered (bs_sub s k)))). \<exists>env \<in> set (heard s i). toRoomEvent oob env = Some ev)
    \<and> subseq (forwarded oob (fk_received (fb_in b) c)) (forwarded oob (fk_published (fb_in b) j))
    \<and> (\<forall>ev \<in> set (forwarded oob (fk_received (fb_in b) c)). \<exists>env \<in> set (fk_published (fb_in b) j). toRoomEvent oob env = Some ev)"
  using assms nats.room_events [of s k i oob] nats.room_event_origin [of s k i _ oob]
    fake.room_events [of b c j oob] fake.room_event_origin [of b c j _ oob] by blast

definition demo_fake :: fake_bus where
  "demo_fake = (snd (fake_PublishIn False ''r'' demo_env (snd (fake_SubscribeIn ''r'' NewFakeBus))))"

lemma demo_fake_reachable: "fake_reachable demo_fake" "fake_reachable (demo_fake\<lparr>fb_in := fake_receive 0 (fb_in demo_fake)\<rparr>)"
proof -
  show 1: "fake_reachable demo_fake" unfolding demo_fake_def
    by (rule fake_reachable.step [OF fake_reachable.step [OF fake_reachable.start fake_step.subscribe_in] fake_step.publish_in])
  show "fake_reachable (demo_fake\<lparr>fb_in := fake_receive 0 (fb_in demo_fake)\<rparr>)"
    by (rule fake_reachable.step [OF 1 fake_step.inward], rule half_step.receive)
      (simp add: demo_fake_def fake_PublishIn_def fakePublish_def fake_SubscribeIn_def fakeSubscribe_def Let_def
        NewFakeBus_def new_half_def subs_of_def fake_send_def)
qed

theorem room_hears_its_race_witness:
  "forwarded (\<lambda>_. 0) (inbounds (sb_delivered (bs_sub demo_bus_end 0))) = [ParticipantDisconnected ''a'']
   \<and> subseq [ParticipantDisconnected ''a''] (forwarded (\<lambda>_. 0) (heard demo_bus_end ''r''))"
proof -
  let ?b = "demo_fake\<lparr>fb_in := fake_receive 0 (fb_in demo_fake)\<rparr>"
  have f: "0 < fk_next (fb_in ?b)" "fk_race (fb_in ?b) 0 = ''r''"
    by (simp_all add: demo_fake_def fake_PublishIn_def fakePublish_def fake_SubscribeIn_def fakeSubscribe_def Let_def
        NewFakeBus_def new_half_def subs_of_def fake_send_def fake_receive_def chan_try_send_def fakeSubscriptionBuffer_def)
  have e: "forwarded (\<lambda>_. 0) (inbounds [Inbound demo_env]) = [ParticipantDisconnected ''a'']"
    by (simp add: inbounds_def map_filter_def toRoomEvent_def demo_env_def)
  show ?thesis
    using room_hears_its_race [OF demo_bus_reachable, of 0 "''r''" ?b 0 "''r''" "\<lambda>_. 0"] demo_fake_reachable(2) f e demo_bus_end_sub
    by simp
qed

end
