(* ===== verification/Frame_Path.thy ===== *)
theory Frame_Path
  imports Gateway Ws_Endpoint Relay_Bus Room_Endings
begin

text \<open>
  A client's frames from the socket to the room: the admission of the connection
  (\<^verbatim>\<open>WSHandler.ServeHTTP\<close>), its reader (\<^verbatim>\<open>readLoop\<close>), the bus (\<^verbatim>\<open>PublishIn\<close> and the
  subscriptions), the adapter (\<^verbatim>\<open>toRoomEvent\<close>) and the actor (\<^verbatim>\<open>applyEvent\<close>).
\<close>

section \<open>What an event leaves of the others\<close>

text \<open>What the room holds of a user.\<close>

definition held_of :: "user_id \<Rightarrow> room_actor \<Rightarrow> participant option \<times> participant option \<times> bool" where
  "held_of v r = (mget (participants r) v, mget (departedParticipants r) v, v \<in> evicted r)"

definition same_course :: "room_actor \<Rightarrow> room_actor \<Rightarrow> bool" where
  "same_course r r' \<longleftrightarrow> room_id r' = room_id r \<and> active r' = active r \<and> distanceMeters r' = distanceMeters r \<and> startedAt r' = startedAt r"

definition leaves_alone :: "user_id \<Rightarrow> room_actor \<Rightarrow> room_actor \<Rightarrow> bool" where
  "leaves_alone v r r' \<longleftrightarrow> held_of v r' = held_of v r \<and> same_course r r'"

lemma leaves_alone_refl: "leaves_alone v r r"
  by (simp add: leaves_alone_def same_course_def)

lemma leaves_alone_trans: "leaves_alone v r s \<Longrightarrow> leaves_alone v s t \<Longrightarrow> leaves_alone v r t"
  by (simp add: leaves_alone_def same_course_def)

lemma ends_only_leaves: "ends_only r r' \<Longrightarrow> leaves_alone v r r'"
  by (simp add: leaves_alone_def same_course_def held_of_def ends_only_fields)

lemma end_ok_leaves: "end_ok r r' \<Longrightarrow> leaves_alone v r r'"
  by (simp add: end_ok_def ends_only_leaves)

lemma check_leaves: "leaves_alone v r s \<Longrightarrow> leaves_alone v r (fst (checkRaceFinished d (s, w)))"
  by (rule leaves_alone_trans [OF _ end_ok_leaves [OF checkRaceFinished_end_ok]])

lemma snapshot_leaves: "leaves_alone v r s \<Longrightarrow> leaves_alone v r (fst (broadcastSnapshot d (s, w)))"
  by (rule leaves_alone_trans [OF _ end_ok_leaves [OF broadcastSnapshot_end_ok]])

lemma StopTimer_leaves: "leaves_alone v r s \<Longrightarrow> leaves_alone v r (StopTimer t s)"
  by (simp add: StopTimer_def leaves_alone_def same_course_def held_of_def split: option.split)

lemma AfterFunc_leaves: "leaves_alone v r s \<Longrightarrow> leaves_alone v r (fst (snd (AfterFunc d t ev (s, w))))"
  by (simp add: AfterFunc_def Let_def case_prod_unfold leaves_alone_def same_course_def held_of_def)

lemma setParticipant_leaves: "leaves_alone v r s \<Longrightarrow> v \<noteq> u \<Longrightarrow> leaves_alone v r (setParticipant u p s)"
  by (simp add: setParticipant_def leaves_alone_def same_course_def held_of_def)

lemma depart_leaves: "leaves_alone v r s \<Longrightarrow> v \<noteq> u \<Longrightarrow> leaves_alone v r (fst (departParticipant d u p (s, w)))"
  unfolding departParticipant_def Let_def case_prod_unfold fst_conv snd_conv
  by (rule check_leaves) (simp add: leaves_alone_def same_course_def held_of_def)

lemma update_leaves:
  "leaves_alone v r (s\<lparr>totalParticipants := n\<rparr>) = leaves_alone v r s"
  "leaves_alone v r (s\<lparr>finishedCount := n\<rparr>) = leaves_alone v r s"
  by (simp_all add: leaves_alone_def same_course_def held_of_def)

lemma mdel_leaves: "leaves_alone v r s \<Longrightarrow> v \<noteq> u \<Longrightarrow> leaves_alone v r (s\<lparr>participants := mdel u (participants s)\<rparr>)"
  by (simp add: leaves_alone_def same_course_def held_of_def)

lemmas leaves = leaves_alone_refl check_leaves snapshot_leaves StopTimer_leaves AfterFunc_leaves setParticipant_leaves
  depart_leaves mdel_leaves

lemma event_leaves_others:
  assumes "speaks_for ev = Some u" "v \<noteq> u"
  shows "leaves_alone v r (fst (applyEvent d ev (r, w)))"
  using assms
  by (cases ev) (auto simp: Let_def case_prod_unfold update_leaves split: option.split intro!: leaves)

lemma events_leave_others:
  assumes "\<forall>ev \<in> set evs. speaks_for ev = Some u" "v \<noteq> u"
  shows "leaves_alone v r (fst (applyEvents d evs (r, w)))"
  using assms(1)
proof (induction evs arbitrary: r w)
  case (Cons ev evs)
  obtain r1 w1 where s: "applyEvent d ev (r, w) = (r1, w1)" by fastforce
  from event_leaves_others [of ev u v r d w] Cons.prems assms(2) s have "leaves_alone v r r1" by simp
  from leaves_alone_trans [OF this Cons.IH] Cons.prems s show ?case by simp
qed (simp add: leaves_alone_refl)

section \<open>What a reader publishes\<close>

definition spoken :: "race_id \<Rightarrow> user_id \<Rightarrow> inbound_envelope \<Rightarrow> bool" where
  "spoken i u env \<longleftrightarrow> in_RaceID env = i \<and> in_UserID env = u \<and> proper_inbound env"

lemma spoken_envelopes [simp]: "spoken i u (message_envelope i u name data)" "spoken i u (disconnected_envelope i u name)"
  by (simp_all add: spoken_def message_envelope_def disconnected_envelope_def proper_inbound_def inbound_kind_of_def)

lemma readLoop_envelopes: "env \<in> set (fst (readLoop i u name rs)) \<Longrightarrow> spoken i u env"
proof (induction rs arbitrary: env)
  case (Cons r rs)
  then show ?case
    by (cases r) (auto simp: Let_def case_prod_unfold split: if_splits sum.splits)
qed simp

lemma subseq_set: "subseq xs ys \<Longrightarrow> set xs \<subseteq> set ys"
  by (induction rule: list_emb.induct) auto

section \<open>Properties\<close>

text \<open>C26: A client speaks for itself only, from the socket to the room. Whoever is admitted presented
  a valid token for the user and the race and has not been evicted. Whatever its frames hold, every
  envelope its reader publishes names this user and this race and reaches the inbound subscriptions
  of this race and no other; and whichever of the resulting events arrive, in the order they were sent,
  the room keeps what it holds of every other participant, live, departed or evicted, as well as its
  distance and whether it is active. The last thing a connection says is its departure.\<close>

theorem client_speaks_for_itself:
  assumes "redis_store (client l) live elems" "ws_admit l parse now ctx i token w = (Accepted u, w')"
    and "readLoop i u u rs = (envs, e)"
  shows "verifySessionToken parse now token = Inr (u, i) \<and> u \<notin> elems w (evictedKey i)
    \<and> (\<forall>env \<in> set envs. \<forall>s k. bus_reachable s \<and> k < bs_next s \<longrightarrow>
         since (bs_published (snd (PublishIn True False None i env s))) (bs_sub s k)
           = since (bs_published s) (bs_sub s k)
             @ (if sb_dir (bs_sub s k) = Inward \<and> sb_race (bs_sub s k) = i then [Inbound env] else []))
    \<and> (\<forall>evs d r w v. subseq evs (forwarded oob envs) \<and> v \<noteq> u \<longrightarrow> leaves_alone v r (fst (applyEvents d evs (r, w))))
    \<and> (\<forall>ev \<in> set (butlast (forwarded oob envs)). \<not> final_event ev)"
proof -
  obtain w1 v where v: "verifySessionToken parse now token = Inr (u, i)" "IsEvicted l ctx i u w1 = (Inr False, w')"
    "Owner l ctx i w = (Inr (Some v), w1)"
    using ws_admit_accepted [OF assms(2)] .
  have out: "u \<notin> elems w (evictedKey i)"
    using redis_store.is_evicted_view [OF assms(1) v(2) refl] redis_store.owner_view [OF assms(1) v(3) refl] by auto
  have bus: "since (bs_published (snd (PublishIn True False None i env s))) (bs_sub s k)
      = since (bs_published s) (bs_sub s k) @ (if sb_dir (bs_sub s k) = Inward \<and> sb_race (bs_sub s k) = i then [Inbound env] else [])"
    if "env \<in> set envs" "bus_reachable s" "k < bs_next s" for env s k
    using since_publish [OF bus_reachable_ok [OF that(2)] that(3) _ refl, of env i] readLoop_envelopes [of env i u u rs]
      that(1) assms(3) by (simp add: spoken_def)
  note heard = readLoop_events [OF assms(3) refl, of oob]
  have rest: "leaves_alone v r (fst (applyEvents d evs (r, w)))" if "subseq evs (forwarded oob envs)" "v \<noteq> u" for evs d r v and w :: 'd
    by (rule events_leave_others [OF _ that(2)]) (use subseq_set [OF that(1)] heard in blast)
  show ?thesis
    by (intro conjI ballI allI impI; (elim conjE)?;
        (rule v(1) | rule out | (rule bus; assumption) | (rule rest; assumption) | (use heard in blast)))
qed

theorem client_speaks_for_itself_witness:
  "let w = snd (Claim demo_locator False ''r1'' empty_redis);
       data = client_frame (zero_message\<lparr>Type := ''leave_race''\<rparr>);
       env = message_envelope ''r1'' ''a'' ''a'' data
   in fst (ws_admit demo_locator demo_parse 0 False ''r1'' ''a r1'' w) = Accepted ''a''
     \<and> readLoop ''r1'' ''a'' ''a'' [ReadFrame data None] = ([env], ReaderReturned)
     \<and> (\<forall>d r w. leaves_alone ''b'' r (fst (applyEvents d (forwarded (\<lambda>_. 0) [env]) (r, w :: unit))))"
proof -
  let ?w = "snd (Claim demo_locator False ''r1'' empty_redis)"
  let ?data = "client_frame (zero_message\<lparr>Type := ''leave_race''\<rparr>)"
  have c: "client demo_locator = mem_client" by (simp add: demo_locator_def)
  have "DecodeClientMessage ?data = Inr (zero_message\<lparr>Type := ''leave_race''\<rparr>)"
    by (simp add: DecodeClientMessage_def set_fields_client_frame zero_message_def in_int64_def known_type_def)
  then have r: "readLoop ''r1'' ''a'' ''a'' [ReadFrame ?data None] = ([message_envelope ''r1'' ''a'' ''a'' ?data], ReaderReturned)"
    by (simp add: zero_message_def)
  have "fst (ws_admit demo_locator demo_parse 0 False ''r1'' ''a r1'' ?w) = Accepted ''a''"
    by (simp add: ws_admit_def verifySessionToken_def demo_parse_def Owner_def IsEvicted_def Claim_def publish_def
        demo_locator_def mem_client_def mem_live_def empty_redis_def claimTTL_def)
  then obtain w' where a: "ws_admit demo_locator demo_parse 0 False ''r1'' ''a r1'' ?w = (Accepted ''a'', w')"
    by (metis prod.collapse)
  have "leaves_alone ''b'' s (fst (applyEvents d (forwarded (\<lambda>_. 0) [message_envelope ''r1'' ''a'' ''a'' ?data]) (s, x)))"
    for d s and x :: unit
    by (rule client_speaks_for_itself [OF mem.redis_store_axioms [folded c] a r,
          THEN conjunct2, THEN conjunct2, THEN conjunct2, THEN conjunct1, rule_format, OF conjI [OF subseq_order.order_refl]]) simp
  with a r show ?thesis by (simp add: Let_def)
qed

end
