(* ===== verification/Race_Service_Properties.thy ===== *)
theory Race_Service_Properties
  imports Race_Service
begin

text \<open>
  What the race service and its handlers guarantee, proved once against the laws of the repository
  interface (locale \<open>race_repository\<close>, extended by \<open>race_service_env\<close> for a service over it) and
  carried to the Postgres repository by interpretation.
\<close>

section \<open>The contract of the repository\<close>

text \<open>A client sees a store through the races in it and the users enrolled in them. Reads, and
  failed writes, leave this view alone.\<close>

definition same_view :: "('w \<Rightarrow> bool) \<Rightarrow> ('w \<Rightarrow> race_id \<Rightarrow> race option) \<Rightarrow> ('w \<Rightarrow> race_id \<Rightarrow> user_id set) \<Rightarrow>
    'w \<Rightarrow> 'w \<Rightarrow> bool" where
  "same_view sound stored enrolled w w' \<longleftrightarrow>
     sound w' \<and> stored w' = stored w \<and> enrolled w' = enrolled w"

locale race_repository =
  fixes repo :: "'w race_repo"
    and sound :: "'w \<Rightarrow> bool"
    and stored :: "'w \<Rightarrow> race_id \<Rightarrow> race option"
    and enrolled :: "'w \<Rightarrow> race_id \<Rightarrow> user_id set"
  assumes finite_enrolled: "sound w \<Longrightarrow> finite (enrolled w i)"
    and enrolled_stored: "sound w \<Longrightarrow> stored w i = None \<Longrightarrow> enrolled w i = {}"
    and get_race: "sound w \<Longrightarrow> repo_GetRace repo c i w = (x, w') \<Longrightarrow>
      same_view sound stored enrolled w w' \<and> (\<forall>r. x = Inr r \<longrightarrow> stored w i = Some r)"
    and is_participant: "sound w \<Longrightarrow> repo_IsParticipant repo c i u w = (y, w') \<Longrightarrow>
      same_view sound stored enrolled w w' \<and> (\<forall>b. y = Inr b \<longrightarrow> b = (u \<in> enrolled w i))"
    and count_participants: "sound w \<Longrightarrow> repo_CountParticipants repo c i w = (z, w') \<Longrightarrow>
      same_view sound stored enrolled w w' \<and> (\<forall>n. z = Inr n \<longrightarrow> n = int (card (enrolled w i)))"
    and add_participant: "sound w \<Longrightarrow> repo_AddParticipant repo c i u w = (e, w') \<Longrightarrow>
      (if e = None then sound w' \<and> stored w' = stored w
         \<and> enrolled w' = (enrolled w)(i := insert u (enrolled w i))
       else same_view sound stored enrolled w w')"
    and remove_participant: "sound w \<Longrightarrow> repo_RemoveParticipant repo c i u w = (e, w') \<Longrightarrow>
      (if e = None then sound w' \<and> stored w' = stored w \<and> u \<in> enrolled w i
         \<and> enrolled w' = (enrolled w)(i := enrolled w i - {u})
       else same_view sound stored enrolled w w')"
    and start_race: "sound w \<Longrightarrow> repo_StartRace repo c i prompt w = (x, w') \<Longrightarrow>
      (case x of Inl e \<Rightarrow> same_view sound stored enrolled w w'
       | Inr r \<Rightarrow> sound w' \<and> enrolled w' = enrolled w \<and> Status r = ''active'' \<and> PromptText r = Some prompt
           \<and> (\<exists>r0. stored w i = Some r0 \<and> stored w' = (stored w)(i \<mapsto> r0\<lparr>Status := ''active''\<rparr>)))"
    and create_race: "sound w \<Longrightarrow> repo_CreateRace repo c name n u w = (x, w') \<Longrightarrow>
      (case x of Inl e \<Rightarrow> same_view sound stored enrolled w w'
       | Inr r \<Rightarrow> sound w' \<and> enrolled w' = enrolled w \<and> stored w (ID r) = None
           \<and> stored w' = (stored w)(ID r \<mapsto> r) \<and> Status r = ''pending'' \<and> CreatedBy r = u
           \<and> Name r = name \<and> DistanceMeters r = n)"

locale race_service_env = race_repository repo sound stored enrolled
  for repo :: "'w race_repo" and sound stored enrolled +
  fixes svc :: "'w race_service"
  assumes svc_repo: "svc_repo svc = repo"
    and word_view: "sound w \<Longrightarrow> same_view sound stored enrolled w (snd (svc_word svc w))"
begin

lemma same_view_trans:
  "same_view sound stored enrolled w w1 \<Longrightarrow> same_view sound stored enrolled w1 w2 \<Longrightarrow>
   same_view sound stored enrolled w w2"
  by (simp add: same_view_def)

lemma sign_world: "snd (signSessionToken svc i u w) = w"
  by (simp add: signSessionToken_def split: sum.split)

lemma sign_eq: "signSessionToken svc i u w = (x, w') \<Longrightarrow> w' = w"
  using sign_world [of i u w] by simp

text \<open>Joining: nothing but the caller's enrolment can change, and it changes only for a pending race
  with a free place. A token is given out only to somebody who is enrolled afterwards.\<close>

lemma join_effect:
  assumes sound: "sound w" and run: "JoinRace svc c i u w = (x, w')"
  shows "sound w' \<and> stored w' = stored w
    \<and> (enrolled w' = enrolled w
       \<or> enrolled w' = (enrolled w)(i := insert u (enrolled w i))
         \<and> (\<exists>r. stored w i = Some r \<and> Status r = ''pending'') \<and> card (enrolled w i) < 10)
    \<and> (\<forall>t. x = Inr t \<longrightarrow> u \<in> enrolled w' i \<and> stored w i \<noteq> None)"
proof -
  obtain g w1 where g: "repo_GetRace repo c i w = (g, w1)" by fastforce
  note 1 = get_race [OF sound g]
  show ?thesis
  proof (cases g)
    case (Inl e)
    with run g 1 show ?thesis by (auto simp: JoinRace_def svc_repo same_view_def)
  next
    case (Inr r)
    have inv1: "sound w1" using 1 by (simp add: same_view_def)
    obtain y w2 where y: "repo_IsParticipant repo c i u w1 = (y, w2)" by fastforce
    note 2 = is_participant [OF inv1 y]
    have inv2: "sound w2" using 2 by (simp add: same_view_def)
    obtain z w3 where z: "repo_CountParticipants repo c i w2 = (z, w3)" by fastforce
    note 3 = count_participants [OF inv2 z]
    have inv3: "sound w3" using 3 by (simp add: same_view_def)
    obtain e w4 where e: "repo_AddParticipant repo c i u w3 = (e, w4)" by fastforce
    note 4 = add_participant [OF inv3 e]
    from run g Inr y z e 1 2 3 4 show ?thesis
      by (auto simp: JoinRace_def svc_repo same_view_def MaxParticipants_def
          split: sum.splits if_splits option.splits dest!: sign_eq)
  qed
qed

lemma create_effect:
  assumes sound: "sound w" and run: "CreateRace svc c name n u w = (Inr (Inr (r, t)), w')"
  shows "sound w' \<and> stored w (ID r) = None \<and> stored w' = (stored w)(ID r \<mapsto> r) \<and> Status r = ''pending''
    \<and> CreatedBy r = u \<and> DistanceMeters r = n \<and> 0 < n \<and> enrolled w' = (enrolled w)(ID r := {u})"
proof -
  obtain x w1 where x: "repo_CreateRace repo c (go_TrimSpace name) n u w = (x, w1)" by fastforce
  with run have xr: "x = Inr r" and n: "validateCreateRace name n = []"
    by (auto simp: CreateRace_def svc_repo Let_def split: sum.splits prod.splits option.splits if_splits)
  note 1 = create_race [OF sound x, unfolded xr sum.case]
  obtain e w2 where e: "repo_AddParticipant repo c (ID r) u w1 = (e, w2)" by fastforce
  have inv1: "sound w1" using 1 by simp
  note 2 = add_participant [OF inv1 e]
  have "e = None" "w' = w2"
    using run x xr e n
    by (auto simp: CreateRace_def svc_repo Let_def split: sum.splits prod.splits option.splits if_splits dest!: sign_eq)
  moreover have "enrolled w (ID r) = {}" using enrolled_stored [OF sound] 1 by blast
  moreover have "0 < n" using n by (auto simp: validateCreateRace_def split: if_splits)
  ultimately show ?thesis using 1 2 by auto
qed

lemma words_view: "sound w \<Longrightarrow> prompt_words svc k w = (ws, w') \<Longrightarrow>
    same_view sound stored enrolled w w' \<and> length ws = k"
proof (induction k arbitrary: w ws)
  case (Suc k)
  obtain x w1 where x: "svc_word svc w = (x, w1)" by fastforce
  obtain xs w2 where xs: "prompt_words svc k w1 = (xs, w2)" by fastforce
  have 1: "same_view sound stored enrolled w w1" using word_view [OF Suc.prems(1)] x by simp
  then have "sound w1" by (simp add: same_view_def)
  from Suc.IH [OF this] xs have "same_view sound stored enrolled w1 w2" "length xs = k"
    using Suc.prems(2) x by auto
  with 1 Suc.prems(2) x xs show ?case by (auto intro: same_view_trans)
qed (simp add: same_view_def)

text \<open>Starting: only the creator, only a pending race, and then it is active with as many words as
  its length.\<close>

lemma start_effect:
  assumes sound: "sound w" and run: "StartRace svc c i u w = (x, w')"
  shows "case x of Inl e \<Rightarrow> same_view sound stored enrolled w w'
    | Inr r \<Rightarrow> sound w' \<and> enrolled w' = enrolled w \<and> Status r = ''active''
        \<and> (\<exists>r0 ws. stored w i = Some r0 \<and> CreatedBy r0 = u \<and> Status r0 = ''pending''
             \<and> stored w' = (stored w)(i \<mapsto> r0\<lparr>Status := ''active''\<rparr>)
             \<and> PromptText r = Some (join_words ws) \<and> length ws = nat (DistanceMeters r0))"
proof -
  obtain g w1 where g: "repo_GetRace repo c i w = (g, w1)" by fastforce
  note 1 = get_race [OF sound g]
  show ?thesis
  proof (cases "\<exists>r. g = Inr r \<and> CreatedBy r = u \<and> Status r = ''pending''")
    case False
    with run g 1 show ?thesis
      by (auto simp: StartRace_def svc_repo split: sum.splits if_splits)
  next
    case True
    then obtain r0 where r0: "g = Inr r0" "CreatedBy r0 = u" "Status r0 = ''pending''" by blast
    have inv1: "sound w1" using 1 by (simp add: same_view_def)
    obtain ws w2 where ws: "prompt_words svc (nat (DistanceMeters r0)) w1 = (ws, w2)" by fastforce
    note 2 = words_view [OF inv1 ws]
    have inv2: "sound w2" using 2 by (simp add: same_view_def)
    have run2: "repo_StartRace repo c i (join_words ws) w2 = (x, w')"
      using run g r0 ws by (simp add: StartRace_def svc_repo generatePromptText_def)
    from start_race [OF inv2 run2] 1 2 r0 show ?thesis
      by (auto simp: same_view_def split: sum.splits)
  qed
qed

end

section \<open>The Postgres repository keeps the contract\<close>

definition pg_sound :: "db \<Rightarrow> bool" where
  "pg_sound s = tables_ok (tables s)"

definition pg_stored :: "db \<Rightarrow> race_id \<Rightarrow> race option" where
  "pg_stored s i = map_option (race_of_row i) (mget (races (tables s)) i)"

definition pg_enrolled :: "db \<Rightarrow> race_id \<Rightarrow> user_id set" where
  "pg_enrolled s i = {u. mget (race_participants (tables s)) (i, u) \<noteq> None}"

lemma pg_same_view:
  "tables s' = tables s \<Longrightarrow> pg_sound s \<Longrightarrow> same_view pg_sound pg_stored pg_enrolled s s'"
  by (simp add: same_view_def pg_sound_def pg_stored_def pg_enrolled_def fun_eq_iff)

lemma members_set:
  "distinct (mkeys (race_participants t)) \<Longrightarrow>
   set (members t i) = {u. mget (race_participants t) (i, u) \<noteq> None}"
  by (force simp: members_def map_of_eq_None_iff image_iff)

lemma members_distinct: "distinct (mkeys (race_participants t)) \<Longrightarrow> distinct (members t i)"
proof -
  assume d: "distinct (mkeys (race_participants t))"
  then have "distinct (filter (\<lambda>kv. fst (fst kv) = i) (race_participants t))" by (simp add: distinct_map)
  moreover have "inj_on (snd \<circ> fst) (set (filter (\<lambda>kv. fst (fst kv) = i) (race_participants t)))"
    using d by (auto intro!: inj_onI dest: eq_key_imp_eq_value)
  ultimately show ?thesis by (simp add: members_def distinct_map)
qed

lemma pg_tables_Inl: "pg ctx stmt s = (Inl e, s') \<Longrightarrow> tables s' = tables s"
  by (drule pg_Inl) simp

lemma enrolled_card: "pg_sound s \<Longrightarrow> card (pg_enrolled s i) = length (members (tables s) i)"
  unfolding pg_sound_def tables_ok_def pg_enrolled_def
  by (metis distinct_card members_distinct members_set)

lemma sound_step: "pg_sound s \<Longrightarrow> pg_sound (snd (pg_CreateRace c name n u s))"
  "pg_sound s \<Longrightarrow> pg_sound (snd (pg_AddParticipant c i u s))"
  "pg_sound s \<Longrightarrow> pg_sound (snd (pg_RemoveParticipant c i u s))"
  "pg_sound s \<Longrightarrow> pg_sound (snd (pg_StartRace c i prompt s))"
  using CreateRace_keeps [of tables_ok s name n u maxCreateRaceAttempts c]
    pg_keeps [of tables_ok s "insert_participant i u" c] pg_keeps [of tables_ok s "delete_participant i u" c]
    pg_keeps [of tables_ok s "update_start i prompt" c]
  by (auto simp: pg_sound_def pg_CreateRace_def pg_AddParticipant_def pg_RemoveParticipant_def pg_StartRace_def
      statements_ok split: prod.splits sum.splits pg_error.splits)

lemma AddParticipant_view:
  assumes "pg_sound s" "pg_AddParticipant c i u s = (e, s')"
  shows "if e = None then pg_sound s' \<and> pg_stored s' = pg_stored s
      \<and> pg_enrolled s' = (pg_enrolled s)(i := insert u (pg_enrolled s i))
    else same_view pg_sound pg_stored pg_enrolled s s'"
proof (cases "pg c (insert_participant i u) s")
  case (Pair x s1)
  show ?thesis
  proof (cases x)
    case (Inl p)
    with assms(2) Pair have "s' = s1" "e \<noteq> None" by (auto simp: pg_AddParticipant_def split: pg_error.splits)
    with Pair Inl assms(1) show ?thesis by (auto intro: pg_same_view pg_tables_Inl)
  next
    case (Inr y)
    with assms(2) Pair have s': "s' = s1" "e = None" by (auto simp: pg_AddParticipant_def)
    have "pg_sound s'" using sound_step(2) [OF assms(1), of c i u] assms(2) by simp
    moreover have "pg_stored s' = pg_stored s \<and> pg_enrolled s' = (pg_enrolled s)(i := insert u (pg_enrolled s i))"
      using Pair Inr s' by (auto elim!: pg_Inr simp: insert_participant_def Let_def pg_stored_def pg_enrolled_def
          fun_eq_iff split: if_splits)
    ultimately show ?thesis using s' by simp
  qed
qed

lemma RemoveParticipant_view:
  assumes "pg_sound s" "pg_RemoveParticipant c i u s = (e, s')"
  shows "if e = None then pg_sound s' \<and> pg_stored s' = pg_stored s \<and> u \<in> pg_enrolled s i
      \<and> pg_enrolled s' = (pg_enrolled s)(i := pg_enrolled s i - {u})
    else same_view pg_sound pg_stored pg_enrolled s s'"
proof (cases "pg c (delete_participant i u) s")
  case (Pair x s1)
  have sound: "pg_sound s'" using sound_step(3) [OF assms(1), of c i u] assms(2) by simp
  show ?thesis
  proof (cases x)
    case (Inl p)
    with assms(2) Pair have "s' = s1" "e \<noteq> None" by (auto simp: pg_RemoveParticipant_def)
    with Pair Inl assms(1) show ?thesis by (auto intro: pg_same_view pg_tables_Inl)
  next
    case (Inr y)
    with Pair have t: "tables s1 = (tables s)\<lparr>race_participants := mdel (i, u) (race_participants (tables s))\<rparr>"
      "y = (if mget (race_participants (tables s)) (i, u) = None then 0 else 1)"
      by (auto elim!: pg_Inr simp: delete_participant_def Let_def)
    moreover have "s' = s1" "e = None \<longleftrightarrow> y \<noteq> 0"
      using assms(2) Pair Inr by (auto simp: pg_RemoveParticipant_def split: if_splits)
    ultimately show ?thesis
      using sound by (auto simp: same_view_def pg_stored_def pg_enrolled_def fun_eq_iff
          simp del: map_of_eq_Some_iff split: if_splits)
  qed
qed

lemma StartRace_view:
  assumes "pg_sound s" "pg_StartRace c i prompt s = (x, s')"
  shows "case x of Inl e \<Rightarrow> same_view pg_sound pg_stored pg_enrolled s s'
    | Inr r \<Rightarrow> pg_sound s' \<and> pg_enrolled s' = pg_enrolled s \<and> Status r = ''active'' \<and> PromptText r = Some prompt
        \<and> (\<exists>r0. pg_stored s i = Some r0 \<and> pg_stored s' = (pg_stored s)(i \<mapsto> r0\<lparr>Status := ''active''\<rparr>))"
proof (cases "pg c (update_start i prompt) s")
  case (Pair y s1)
  have sound: "pg_sound s'" using sound_step(4) [OF assms(1), of c i prompt] assms(2) by simp
  show ?thesis
  proof (cases y)
    case (Inl p)
    with assms(2) Pair have "s' = s1" "\<exists>e. x = Inl e" by (auto simp: pg_StartRace_def)
    moreover have "tables s1 = tables s" using pg_tables_Inl Pair Inl by blast
    ultimately show ?thesis using pg_same_view [of s1 s] assms(1) by auto
  next
    case (Inr r)
    with assms(2) Pair have "s' = s1" "x = Inr r" by (auto simp: pg_StartRace_def)
    with Pair Inr sound show ?thesis
      by (auto elim!: pg_Inr simp: update_start_def Let_def pg_stored_def pg_enrolled_def race_of_row_def
          fun_eq_iff split: option.splits)
  qed
qed

lemma CreateRace_view:
  assumes "pg_sound s" "pg_CreateRace c name n u s = (x, s')"
  shows "case x of Inl e \<Rightarrow> same_view pg_sound pg_stored pg_enrolled s s'
    | Inr r \<Rightarrow> pg_sound s' \<and> pg_enrolled s' = pg_enrolled s \<and> pg_stored s (ID r) = None
        \<and> pg_stored s' = (pg_stored s)(ID r \<mapsto> r) \<and> Status r = ''pending'' \<and> CreatedBy r = u
        \<and> Name r = name \<and> DistanceMeters r = n"
proof (cases x)
  case (Inl e)
  with assms CreateRace_attempts_effect [of maxCreateRaceAttempts c name n u s x s'] show ?thesis
    by (simp add: pg_CreateRace_def pg_same_view)
next
  case (Inr r)
  with assms(2) CreateRace_attempts_effect [of maxCreateRaceAttempts c name n u s x s'] have
    r: "mget (races (tables s)) (ID r) = None"
      "r = \<lparr>ID = ID r, Name = name, DistanceMeters = n, Status = ''pending'', CreatedBy = u,
          CreatedAt = db_now s, StartedAt = None, PromptText = None\<rparr>"
    and t: "tables s' = (tables s)\<lparr>races := mput (ID r)
           \<lparr>r_name = name, r_distance_meters = n, r_status = ''pending'', r_created_by = u, r_started_at = None,
            r_ended_at = None, r_created_at = db_now s, r_prompt_text = None\<rparr> (races (tables s))\<rparr>"
    by (simp_all add: pg_CreateRace_def)
  have "pg_stored s' = (pg_stored s)(ID r \<mapsto> r)"
    using r(2) by (auto simp: pg_stored_def t fun_eq_iff race_of_row_def)
  moreover have "Status r = ''pending'' \<and> CreatedBy r = u \<and> Name r = name \<and> DistanceMeters r = n"
    by (subst (1 2 3 4) r(2)) simp
  moreover have "pg_sound s'" using sound_step(1) [OF assms(1), of c name n u] assms(2) by simp
  ultimately show ?thesis using Inr r(1) t by (simp add: pg_stored_def pg_enrolled_def fun_eq_iff)
qed

text \<open>Reads change no row.\<close>

lemma read_same_view:
  assumes "pg_sound s" "pg c (\<lambda>s. (f s, tables s)) s = (x, s')"
  shows "same_view pg_sound pg_stored pg_enrolled s s'"
  using pg_read [of c f s] assms by (simp add: pg_same_view)

lemma GetRace_view:
  assumes "pg_sound s" "pg_GetRace c i s = (x, s')"
  shows "same_view pg_sound pg_stored pg_enrolled s s' \<and> (\<forall>r. x = Inr r \<longrightarrow> pg_stored s i = Some r)"
proof -
  have stmt: "select_race i = (\<lambda>s. (case mget (races (tables s)) i of None \<Rightarrow> Inl ErrNoRows
      | Some row \<Rightarrow> Inr (race_of_row i row), tables s))"
    by (auto simp: select_race_def fun_eq_iff split: option.split)
  obtain y s1 where y: "pg c (select_race i) s = (y, s1)" by fastforce
  with assms(2) have "s' = s1" "x = Inr r \<Longrightarrow> y = Inr r" for r
    by (auto simp: pg_GetRace_def split: sum.splits pg_error.splits)
  moreover have "pg_stored s i = Some r" if "y = Inr r" for r
    using y that by (auto elim!: pg_Inr simp: select_race_def pg_stored_def split: option.splits)
  ultimately show ?thesis using read_same_view [OF assms(1) y [unfolded stmt]] by blast
qed

lemma IsParticipant_view:
  assumes "pg_sound s" "pg_IsParticipant c i u s = (y, s')"
  shows "same_view pg_sound pg_stored pg_enrolled s s' \<and> (\<forall>b. y = Inr b \<longrightarrow> b = (u \<in> pg_enrolled s i))"
proof -
  obtain b s1 where b: "pg c (\<lambda>s. (Inr (mget (race_participants (tables s)) (i, u) \<noteq> None), tables s)) s = (b, s1)"
    by fastforce
  with assms(2) have "s' = s1" "y = Inr v \<Longrightarrow> b = Inr v" for v
    by (auto simp: pg_IsParticipant_def split: sum.splits)
  moreover have "b = Inr v \<Longrightarrow> v = (u \<in> pg_enrolled s i)" for v
    using b by (auto elim!: pg_Inr simp: pg_enrolled_def)
  ultimately show ?thesis using read_same_view [OF assms(1) b] by blast
qed

lemma CountParticipants_view:
  assumes "pg_sound s" "pg_CountParticipants c i s = (z, s')"
  shows "same_view pg_sound pg_stored pg_enrolled s s' \<and> (\<forall>n. z = Inr n \<longrightarrow> n = int (card (pg_enrolled s i)))"
proof -
  obtain b s1 where b: "pg c (\<lambda>s. (Inr (int (length (members (tables s) i))), tables s)) s = (b, s1)"
    by fastforce
  with assms(2) have "s' = s1" "z = Inr v \<Longrightarrow> b = Inr v" for v
    by (auto simp: pg_CountParticipants_def split: sum.splits)
  moreover have "b = Inr v \<Longrightarrow> v = int (card (pg_enrolled s i))" for v
    using b by (auto elim!: pg_Inr simp: enrolled_card [OF assms(1)])
  ultimately show ?thesis using read_same_view [OF assms(1) b] by blast
qed

lemma pg_enrolled_stored:
  assumes "pg_sound s"
  shows "finite (pg_enrolled s i)" and "pg_stored s i = None \<Longrightarrow> pg_enrolled s i = {}"
proof -
  have d: "distinct (mkeys (race_participants (tables s)))"
    using assms by (simp add: pg_sound_def tables_ok_def)
  show "finite (pg_enrolled s i)" unfolding pg_enrolled_def members_set [OF d, symmetric] by simp
  assume none: "pg_stored s i = None"
  have "(i, u) \<notin> dom (mget (race_participants (tables s)))" for u
    using tables_okD(2) [of "tables s"] none assms unfolding pg_sound_def pg_stored_def by fastforce
  then show "pg_enrolled s i = {}" by (auto simp: pg_enrolled_def)
qed

lemma pg_repo_simps:
  "repo_CreateRace pg_repo = pg_CreateRace" "repo_GetRace pg_repo = pg_GetRace"
  "repo_AddParticipant pg_repo = pg_AddParticipant" "repo_CountParticipants pg_repo = pg_CountParticipants"
  "repo_IsParticipant pg_repo = pg_IsParticipant" "repo_RemoveParticipant pg_repo = pg_RemoveParticipant"
  "repo_StartRace pg_repo = pg_StartRace"
  by (simp_all add: pg_repo_def)

interpretation pg: race_repository pg_repo pg_sound pg_stored pg_enrolled
  by (unfold_locales; (unfold pg_repo_simps)?; (erule pg_enrolled_stored GetRace_view IsParticipant_view
      CountParticipants_view AddParticipant_view RemoveParticipant_view StartRace_view CreateRace_view); assumption?)

text \<open>The service as the server wires it: over the Postgres repository, with the words drawn from a
  corpus by the process's random source.\<close>

definition pg_service :: "(session_claims \<Rightarrow> go_error + string) \<Rightarrow> (nat \<Rightarrow> string) \<Rightarrow> db race_service" where
  "pg_service sign corpus =
     \<lparr>svc_repo = pg_repo, svc_sign = sign, svc_now = db_now,
      svc_word = (\<lambda>s. (corpus (rand_pos s), s\<lparr>rand_pos := Suc (rand_pos s)\<rparr>))\<rparr>"

interpretation pgs: race_service_env pg_repo pg_sound pg_stored pg_enrolled "pg_service sign corpus"
  for sign corpus
  by unfold_locales (simp_all add: pg_service_def pg_same_view)

definition demo_service :: "db race_service" where
  "demo_service = pg_service (\<lambda>c. Inr (cl_user_id c)) (\<lambda>_. ''go'')"

definition db_noop_deps :: "db room_deps" where
  "db_noop_deps =
     \<lparr>FinishRace = (\<lambda>ctx i n results w. (None, w)), LeaveRace = (\<lambda>ctx i u w. (None, w)),
      CancelRace = (\<lambda>ctx i w. (None, w)), PublishWorkoutSample = NoopPublisher_PublishWorkoutSample,
      PublishRaceFinished = NoopPublisher_PublishRaceFinished, MarkEvicted = NoopEvictionRecorder_MarkEvicted,
      Now = (\<lambda>s. (db_now s, s)), MapIter = (\<lambda>m s. (m, s))\<rparr>"

definition demo_handler :: "db race_handler" where
  "demo_handler = \<lparr>h_svc = demo_service, h_room_deps = db_noop_deps, h_registry_deps = noop_registry_deps\<rparr>"

lemma demo_db_sound: "pg_sound demo_db"
  by (simp add: pg_sound_def demo_tables_ok)

lemmas service_exec = demo_service_def pg_service_def pg_repo_simps pg_def signSessionToken_def
  demo_db_def demo_tables_def race_of_row_def Let_def

section \<open>Properties\<close>

text \<open>C21: Joining a race never changes anything but the enrolment of the caller, and enrols the caller
  only in a pending race that has fewer than ten participants; a token is handed out only to a
  caller who is enrolled in an existing race afterwards. Joining again, whatever the status of the
  race, leaves the tables alone.\<close>

theorem join_race_safe:
  assumes "pg_sound s" "JoinRace (pg_service sign corpus) c i u s = (x, s')"
  shows "pg_sound s' \<and> pg_stored s' = pg_stored s
    \<and> (pg_enrolled s' = pg_enrolled s
       \<or> pg_enrolled s' = (pg_enrolled s)(i := insert u (pg_enrolled s i))
         \<and> (\<exists>r. pg_stored s i = Some r \<and> Status r = ''pending'') \<and> card (pg_enrolled s i) < 10)
    \<and> (\<forall>t. x = Inr t \<longrightarrow> u \<in> pg_enrolled s' i \<and> pg_stored s i \<noteq> None)"
  by (rule pgs.join_effect [OF assms])

theorem join_race_safe_witness:
  "''b'' \<in> pg_enrolled (snd (JoinRace demo_service False ''r1'' ''b'' demo_db)) ''r1''"
proof -
  have "JoinRace demo_service False ''r1'' ''b'' demo_db
      = (Inr ''b'', snd (JoinRace demo_service False ''r1'' ''b'' demo_db))"
    by (simp add: JoinRace_def pg_GetRace_def select_race_def pg_IsParticipant_def pg_CountParticipants_def
        members_def MaxParticipants_def pg_AddParticipant_def insert_participant_def service_exec)
  from join_race_safe [OF demo_db_sound this [unfolded demo_service_def]] show ?thesis
    by (simp add: demo_service_def)
qed

text \<open>Starting a race succeeds only for its creator and only while it is pending; then it is
  active, with a prompt of exactly as many words as the race is long, and nothing else changes.
  When it does not succeed the store is as it was.\<close>

theorem start_race_guarded:
  assumes "pg_sound s" "StartRace (pg_service sign corpus) c i u s = (x, s')"
  shows "case x of Inl e \<Rightarrow> pg_sound s' \<and> pg_stored s' = pg_stored s \<and> pg_enrolled s' = pg_enrolled s
    | Inr r \<Rightarrow> pg_sound s' \<and> pg_enrolled s' = pg_enrolled s \<and> Status r = ''active''
        \<and> (\<exists>r0 ws. pg_stored s i = Some r0 \<and> CreatedBy r0 = u \<and> Status r0 = ''pending''
             \<and> pg_stored s' = (pg_stored s)(i \<mapsto> r0\<lparr>Status := ''active''\<rparr>)
             \<and> PromptText r = Some (join_words ws) \<and> length ws = nat (DistanceMeters r0))"
  using pgs.start_effect [OF assms] by (cases x) (auto simp: same_view_def)

theorem start_race_guarded_witness:
  "\<exists>r. pg_stored (snd (StartRace demo_service False ''r1'' ''a'' demo_db)) ''r1'' = Some r \<and> Status r = ''active''
     \<and> pg_stored (snd (StartRace demo_service False ''r1'' ''b'' demo_db)) ''r1'' = pg_stored demo_db ''r1''"
proof -
  have "\<exists>r. StartRace demo_service False ''r1'' ''a'' demo_db
      = (Inr r, snd (StartRace demo_service False ''r1'' ''a'' demo_db))"
    by (simp add: StartRace_def pg_GetRace_def select_race_def generatePromptText_def pg_StartRace_def
        update_start_def numeral_2_eq_2 service_exec)
  then obtain r where a: "StartRace demo_service False ''r1'' ''a'' demo_db
      = (Inr r, snd (StartRace demo_service False ''r1'' ''a'' demo_db))" by blast
  have b: "StartRace demo_service False ''r1'' ''b'' demo_db
      = (Inl ErrNotCreator, snd (StartRace demo_service False ''r1'' ''b'' demo_db))"
    by (simp add: StartRace_def pg_GetRace_def select_race_def service_exec)
  from start_race_guarded [OF demo_db_sound a [unfolded demo_service_def]]
    start_race_guarded [OF demo_db_sound b [unfolded demo_service_def]]
  show ?thesis by (auto simp: demo_service_def)
qed

text \<open>C6: When the creation of a race is answered with 201, the race is new, stored as pending with a
  positive length under the caller's name, the caller is its only participant, and the registry has
  a fresh room for it. Any other answer leaves the registry as it was.\<close>

theorem create_handler_effect:
  assumes "pg_sound s" "h_svc h = pg_service sign corpus"
    and "Create h caller ctx body (reg, s) = (reply, reg', s')"
  shows "case reply of
      WriteJSON code resp \<Rightarrow> (\<exists>u name s1. caller = Some u \<and> body = Some (name, DistanceMeters (cr_Race resp))
        \<and> code = 201 \<and> Status (cr_Race resp) = ''pending'' \<and> CreatedBy (cr_Race resp) = u
        \<and> 0 < DistanceMeters (cr_Race resp) \<and> pg_stored s (ID (cr_Race resp)) = None
        \<and> pg_sound s1 \<and> pg_stored s1 = (pg_stored s)(ID (cr_Race resp) \<mapsto> cr_Race resp)
        \<and> pg_enrolled s1 = (pg_enrolled s)(ID (cr_Race resp) := {u})
        \<and> (reg', s') = snd (Spawn (svc_room_deps (h_svc h) (h_room_deps h)) (h_registry_deps h)
              (ID (cr_Race resp)) (DistanceMeters (cr_Race resp)) (reg, s1))
        \<and> Get (ID (cr_Race resp)) reg' = Some (next_actor reg))
    | _ \<Rightarrow> reg' = reg"
proof (cases "caller = None \<or> body = None")
  case True
  with assms(3) show ?thesis by (auto simp: Create_def split: option.splits)
next
  case False
  then obtain u name n where c: "caller = Some u" "body = Some (name, n)" by auto
  obtain out s1 where run: "CreateRace (h_svc h) ctx name n u s = (out, s1)" by fastforce
  show ?thesis
  proof (cases "\<exists>r t. out = Inr (Inr (r, t))")
    case True
    then obtain r t where o: "out = Inr (Inr (r, t))" by blast
    note eff = pgs.create_effect [OF assms(1) run [unfolded assms(2) o]]
    have reply: "reply = WriteJSON 201 \<lparr>cr_Race = r, cr_SessionToken = t\<rparr>"
      and sp: "(reg', s') = snd (Spawn (svc_room_deps (h_svc h) (h_room_deps h)) (h_registry_deps h)
              (ID r) (DistanceMeters r) (reg, s1))"
      using assms(3) c run o by (auto simp: Create_def Let_def case_prod_unfold)
    have "Get (ID r) reg' = Some (next_actor reg)"
      using arg_cong [OF sp, of fst] by (simp add: Spawn_eq Get_def Let_def case_prod_unfold)
    with eff c reply sp show ?thesis by auto
  next
    case False
    with assms(3) c run have "reg' = reg \<and> (\<forall>code resp. reply \<noteq> WriteJSON code resp)"
      by (auto simp: Create_def split: sum.splits)
    then show ?thesis by (auto split: reply.split)
  qed
qed

theorem create_handler_effect_witness:
  "\<exists>resp reg' s'. Create demo_handler (Some ''a'') False (Some (''dash'', 3)) (NewRegistry, demo_db)
      = (WriteJSON 201 resp, reg', s') \<and> Get (ID (cr_Race resp)) reg' = Some 0"
proof -
  obtain reply reg' s' where run: "Create demo_handler (Some ''a'') False (Some (''dash'', 3)) (NewRegistry, demo_db)
      = (reply, reg', s')" by (metis surj_pair)
  have "\<exists>r s1. CreateRace demo_service False ''dash'' 3 ''a'' demo_db = (Inr (Inr r), s1)"
    using demo_GenerateRaceID
    by (simp add: CreateRace_def validateCreateRace_def go_TrimSpace_def go_is_space_def pg_CreateRace_def
        maxCreateRaceAttempts_def numeral_eq_Suc insert_race_def pg_AddParticipant_def
        insert_participant_def service_exec)
  then obtain resp where resp: "reply = WriteJSON 201 resp"
    using run by (auto simp: Create_def demo_handler_def Let_def case_prod_unfold)
  have "h_svc demo_handler = pg_service (\<lambda>c. Inr (cl_user_id c)) (\<lambda>_. ''go'')"
    by (simp add: demo_handler_def demo_service_def)
  from create_handler_effect [OF demo_db_sound this run] resp run show ?thesis
    by (auto simp: NewRegistry_def)
qed

text \<open>C5: The start of a race is answered with 200 exactly when the store made a pending race of the
  caller active and its room is in the registry; the room is then told, with the prompt of the
  answer. Any other answer tells no room anything, and it leaves the store as it was - except when
  the room is missing: then the race has been made active and the answer is 500.\<close>

theorem start_handler_effect:
  assumes "pg_sound s" "h_svc h = pg_service sign corpus"
    and "Start h caller ctx i (reg, s) = (reply, reg', s')"
  shows "case reply of
      WriteJSON code resp \<Rightarrow> code = 200 \<and> isValidRaceID i
        \<and> (\<exists>k u r0. Get i reg = Some k \<and> reg' = MarkActive (sr_PromptText resp) k reg
             \<and> caller = Some u \<and> pg_stored s i = Some r0 \<and> CreatedBy r0 = u \<and> Status r0 = ''pending''
             \<and> pg_stored s' = (pg_stored s)(i \<mapsto> r0\<lparr>Status := ''active''\<rparr>))
    | _ \<Rightarrow> reg' = reg \<and> (pg_stored s' = pg_stored s
        \<or> reply = WriteError 500 ''internal_error'' \<and> Get i reg = None
          \<and> (\<exists>r0. Status r0 = ''pending'' \<and> pg_stored s' = (pg_stored s)(i \<mapsto> r0\<lparr>Status := ''active''\<rparr>)))"
proof (cases "caller = None \<or> \<not> isValidRaceID i")
  case True
  with assms(3) show ?thesis by (auto simp: Start_def split: option.splits if_splits)
next
  case False
  then obtain u where c: "caller = Some u" "isValidRaceID i" by auto
  obtain x s1 where run: "StartRace (h_svc h) ctx i u s = (x, s1)" by fastforce
  note eff = pgs.start_effect [OF assms(1) run [unfolded assms(2)]]
  show ?thesis
  proof (cases x)
    case (Inl e)
    then have "pg_stored s1 = pg_stored s" using eff by (simp add: same_view_def)
    with assms(3) c run Inl show ?thesis by (cases e) (auto simp: Start_def)
  next
    case (Inr r)
    with eff obtain r0 where r0: "pg_stored s i = Some r0" "CreatedBy r0 = u" "Status r0 = ''pending''"
      "pg_stored s1 = (pg_stored s)(i \<mapsto> r0\<lparr>Status := ''active''\<rparr>)" by auto
    show ?thesis
    proof (cases "Get i reg")
      case None
      with assms(3) c run Inr r0 show ?thesis by (auto simp: Start_def Let_def)
    next
      case (Some k)
      with assms(3) c run Inr r0 show ?thesis by (auto simp: Start_def Let_def)
    qed
  qed
qed

theorem start_handler_effect_witness:
  "\<exists>reply s'. Start demo_handler (Some ''b'') False ''111111111111'' (NewRegistry, demo_db)
      = (reply, NewRegistry, s') \<and> pg_stored s' = pg_stored demo_db"
proof -
  have "\<exists>s1. Start demo_handler (Some ''b'') False ''111111111111'' (NewRegistry, demo_db)
      = (WriteError 404 ''race_not_found'', NewRegistry, s1)"
    by (simp add: Start_def demo_handler_def isValidRaceID_def race_id_char_def in_range_def StartRace_def
        pg_GetRace_def select_race_def service_exec)
  then obtain s1 where run: "Start demo_handler (Some ''b'') False ''111111111111'' (NewRegistry, demo_db)
      = (WriteError 404 ''race_not_found'', NewRegistry, s1)" by blast
  have "h_svc demo_handler = pg_service (\<lambda>c. Inr (cl_user_id c)) (\<lambda>_. ''go'')"
    by (simp add: demo_handler_def demo_service_def)
  from start_handler_effect [OF demo_db_sound this run] run show ?thesis by auto
qed

section \<open>The statements behind a start\<close>

text \<open>The update that starts a race does not look at the status, unlike the one that cancels it: a
  race cancelled between the service's check and the update comes back to life.\<close>

lemma start_revives_cancelled:
  "let s1 = snd (pg_CancelRace False ''r1'' demo_db); s2 = snd (pg_StartRace False ''r1'' ''go go'' s1)
   in map_option Status (pg_stored s1 ''r1'') = Some ''cancelled''
      \<and> map_option Status (pg_stored s2 ''r1'') = Some ''active''"
  by (simp add: pg_CancelRace_def update_cancelled_def pg_StartRace_def update_start_def pg_stored_def service_exec)

text \<open>A creator who has left the lobby finds their own race on the list of open races, which is
  documented to leave out the races the caller created.\<close>

lemma own_race_listed:
  "map or_ID (select_open ''a'' (tables (snd (pg_RemoveParticipant False ''r1'' ''a'' demo_db)))) = [''r1'']"
  by (simp add: pg_RemoveParticipant_def delete_participant_def select_open_def is_open_def members_def
      openRacesLimit_def MaxParticipants_def service_exec)

end
