(* ===== verification/Concurrent_Joins.thy ===== *)
theory Concurrent_Joins
  imports Race_Service_Properties
begin

text \<open>
  Requests that join one race at the same time: \<^verbatim>\<open>RaceService.JoinRace\<close> statement by statement
  over a repository the requests share (\<^verbatim>\<open>internal/race/service.go\<close>). The handlers run on
  goroutines of their own and nothing in the code holds the database between two statements, so a
  step is one call of the repository by one request, or something else that happens to the store.
\<close>

section \<open>One request\<close>

text \<open>What a request does next.\<close>

datatype join_phase = JoinGetRace | JoinIsParticipant race | JoinCount | JoinAdd | JoinSign | JoinDone "go_error + string"

definition join_stmt :: "'w race_service \<Rightarrow> bool \<Rightarrow> race_id \<Rightarrow> user_id \<Rightarrow> join_phase \<times> 'w \<Rightarrow> join_phase \<times> 'w" where
  "join_stmt svc ctx i u = (\<lambda>(p, w).
     case p of
       JoinGetRace \<Rightarrow> (case repo_GetRace (svc_repo svc) ctx i w of
           (Inl e, w1) \<Rightarrow> (JoinDone (Inl e), w1)
         | (Inr r, w1) \<Rightarrow> (JoinIsParticipant r, w1))
     | JoinIsParticipant r \<Rightarrow> (case repo_IsParticipant (svc_repo svc) ctx i u w of
           (Inl e, w1) \<Rightarrow> (JoinDone (Inl e), w1)
         | (Inr alreadyIn, w1) \<Rightarrow>
             (if alreadyIn then JoinSign else if Status r \<noteq> ''pending'' then JoinDone (Inl ErrRaceNotPending) else JoinCount, w1))
     | JoinCount \<Rightarrow> (case repo_CountParticipants (svc_repo svc) ctx i w of
           (Inl e, w1) \<Rightarrow> (JoinDone (Inl e), w1)
         | (Inr cnt, w1) \<Rightarrow> (if MaxParticipants \<le> cnt then JoinDone (Inl ErrRaceFull) else JoinAdd, w1))
     | JoinAdd \<Rightarrow> (case repo_AddParticipant (svc_repo svc) ctx i u w of
           (Some e, w1) \<Rightarrow> (JoinDone (Inl e), w1)
         | (None, w1) \<Rightarrow> (JoinSign, w1))
     | JoinSign \<Rightarrow> (case signSessionToken svc i u w of (x, w1) \<Rightarrow> (JoinDone x, w1))
     | JoinDone x \<Rightarrow> (JoinDone x, w))"

lemma join_stmt_simps:
  "join_stmt svc ctx i u (JoinGetRace, w) = (case repo_GetRace (svc_repo svc) ctx i w of
     (Inl e, w1) \<Rightarrow> (JoinDone (Inl e), w1) | (Inr r, w1) \<Rightarrow> (JoinIsParticipant r, w1))"
  "join_stmt svc ctx i u (JoinIsParticipant r, w) = (case repo_IsParticipant (svc_repo svc) ctx i u w of
     (Inl e, w1) \<Rightarrow> (JoinDone (Inl e), w1)
   | (Inr alreadyIn, w1) \<Rightarrow>
       (if alreadyIn then JoinSign else if Status r \<noteq> ''pending'' then JoinDone (Inl ErrRaceNotPending) else JoinCount, w1))"
  "join_stmt svc ctx i u (JoinCount, w) = (case repo_CountParticipants (svc_repo svc) ctx i w of
     (Inl e, w1) \<Rightarrow> (JoinDone (Inl e), w1)
   | (Inr cnt, w1) \<Rightarrow> (if MaxParticipants \<le> cnt then JoinDone (Inl ErrRaceFull) else JoinAdd, w1))"
  "join_stmt svc ctx i u (JoinAdd, w) = (case repo_AddParticipant (svc_repo svc) ctx i u w of
     (Some e, w1) \<Rightarrow> (JoinDone (Inl e), w1) | (None, w1) \<Rightarrow> (JoinSign, w1))"
  "join_stmt svc ctx i u (JoinSign, w) = (case signSessionToken svc i u w of (x, w1) \<Rightarrow> (JoinDone x, w1))"
  "join_stmt svc ctx i u (JoinDone x, w) = (JoinDone x, w)"
  by (simp_all add: join_stmt_def)

text \<open>A request alone is \<open>JoinRace\<close>: it is done after five statements at most.\<close>

lemma join_alone:
  "(join_stmt svc ctx i u ^^ 5) (JoinGetRace, w) = (case JoinRace svc ctx i u w of (x, w1) \<Rightarrow> (JoinDone x, w1))"
  by (simp add: numeral_eq_Suc funpow_swap1 JoinRace_def join_stmt_simps split: sum.split prod.split option.split)

section \<open>Many requests\<close>

record 'w joining =
  jn_store :: 'w
  jn_requests :: "(user_id \<times> join_phase) list"

definition in_phase :: "(join_phase \<Rightarrow> bool) \<Rightarrow> 'w joining \<Rightarrow> nat" where
  "in_phase P s = length (filter (P \<circ> snd) (jn_requests s))"

definition unfinished :: "join_phase \<Rightarrow> bool" where
  "unfinished p = (case p of JoinDone _ \<Rightarrow> False | _ \<Rightarrow> True)"

text \<open>\<open>limit\<close> is the number of requests for the race that are in flight at once; \<open>env\<close> is what else
  happens to the store.\<close>

inductive join_step :: "'w race_service \<Rightarrow> ('w \<Rightarrow> 'w \<Rightarrow> bool) \<Rightarrow> nat \<Rightarrow> race_id \<Rightarrow> 'w joining \<Rightarrow> 'w joining \<Rightarrow> bool"
  for svc :: "'w race_service" and env :: "'w \<Rightarrow> 'w \<Rightarrow> bool" and limit :: nat and i :: race_id where
  arrive: "in_phase unfinished s < limit \<Longrightarrow>
    join_step svc env limit i s (s\<lparr>jn_requests := jn_requests s @ [(u, JoinGetRace)]\<rparr>)"
| statement: "k < length (jn_requests s) \<Longrightarrow> jn_requests s ! k = (u, p) \<Longrightarrow>
    join_stmt svc ctx i u (p, jn_store s) = (p', w) \<Longrightarrow>
    join_step svc env limit i s (s\<lparr>jn_store := w, jn_requests := (jn_requests s)[k := (u, p')]\<rparr>)"
| other: "env (jn_store s) w \<Longrightarrow> join_step svc env limit i s (s\<lparr>jn_store := w\<rparr>)"

lemma in_phase_update:
  assumes "k < length (jn_requests s)" "jn_requests s ! k = (u, p)"
  shows "in_phase P (s\<lparr>jn_store := w, jn_requests := (jn_requests s)[k := (u, p')]\<rparr>) + of_bool (P p)
    = in_phase P s + of_bool (P p')"
proof -
  let ?xs = "jn_requests s"
  have s: "?xs = take k ?xs @ (u, p) # drop (Suc k) ?xs" using assms by (metis id_take_nth_drop)
  have t: "?xs[k := (u, p')] = take k ?xs @ (u, p') # drop (Suc k) ?xs" using assms by (simp add: upd_conv_take_nth_drop)
  have "in_phase P s = length (filter (P \<circ> snd) (take k ?xs @ (u, p) # drop (Suc k) ?xs))"
    unfolding in_phase_def by (subst s) simp
  then show ?thesis by (simp add: in_phase_def t)
qed

lemma adding_unfinished: "in_phase ((=) JoinAdd) s \<le> in_phase unfinished s"
proof -
  have "length (filter ((=) JoinAdd \<circ> snd) rs) \<le> length (filter (unfinished \<circ> snd) rs)" for rs :: "(user_id \<times> join_phase) list"
    by (induction rs) (auto simp: unfinished_def)
  then show ?thesis by (simp add: in_phase_def)
qed

context race_service_env
begin

definition joins_ok :: "nat \<Rightarrow> race_id \<Rightarrow> 'w joining \<Rightarrow> bool" where
  "joins_ok limit i s \<longleftrightarrow> sound (jn_store s) \<and> in_phase unfinished s \<le> limit
     \<and> card (enrolled (jn_store s) i) + in_phase ((=) JoinAdd) s \<le> 9 + max 1 limit"

lemma joins_ok_statement:
  assumes "joins_ok limit i s" "k < length (jn_requests s)" "jn_requests s ! k = (u, p)"
    "join_stmt svc ctx i u (p, jn_store s) = (p', w)"
  shows "joins_ok limit i (s\<lparr>jn_store := w, jn_requests := (jn_requests s)[k := (u, p')]\<rparr>)"
proof -
  note ok = assms(1) [unfolded joins_ok_def]
  note un = in_phase_update [OF assms(2,3), where P = unfinished and w = w and p' = p'] and ad = in_phase_update [OF assms(2,3), where P = "(=) JoinAdd" and w = w and p' = p']
  note le = adding_unfinished
  show ?thesis
  proof (cases p)
    case JoinGetRace
    obtain x w1 where g: "repo_GetRace repo ctx i (jn_store s) = (x, w1)" by fastforce
    with get_race [OF _ g] ok assms(4) JoinGetRace un ad show ?thesis
      by (cases x) (auto simp: join_stmt_simps svc_repo same_view_def joins_ok_def unfinished_def)
  next
    case (JoinIsParticipant r)
    obtain x w1 where g: "repo_IsParticipant repo ctx i u (jn_store s) = (x, w1)" by fastforce
    with is_participant [OF _ g] ok assms(4) JoinIsParticipant un ad show ?thesis
      by (cases x) (auto simp: join_stmt_simps svc_repo same_view_def joins_ok_def unfinished_def split: if_splits)
  next
    case JoinCount
    obtain x w1 where g: "repo_CountParticipants repo ctx i (jn_store s) = (x, w1)" by fastforce
    with count_participants [OF _ g] ok assms(4) JoinCount un ad
      le [of "s\<lparr>jn_store := w, jn_requests := (jn_requests s)[k := (u, p')]\<rparr>"] show ?thesis
      by (cases x) (auto simp: join_stmt_simps svc_repo same_view_def joins_ok_def unfinished_def MaxParticipants_def split: if_splits)
  next
    case JoinAdd
    obtain x w1 where g: "repo_AddParticipant repo ctx i u (jn_store s) = (x, w1)" by fastforce
    have "card (insert u (enrolled (jn_store s) i)) \<le> Suc (card (enrolled (jn_store s) i))" 
      using finite_enrolled ok by (simp add: card_insert_if)
    with add_participant [OF _ g] ok assms(4) JoinAdd un ad g show ?thesis
      by (cases x) (auto simp: join_stmt_simps svc_repo same_view_def joins_ok_def unfinished_def)
  next
    case JoinSign
    with ok assms(4) un ad sign_world [of i u "jn_store s"] show ?thesis
      by (auto simp: join_stmt_simps joins_ok_def unfinished_def split: prod.splits)
  next
    case (JoinDone x)
    with ok assms(4) un ad show ?thesis by (auto simp: join_stmt_simps joins_ok_def unfinished_def)
  qed
qed

lemma joins_ok_step:
  assumes "join_step svc env limit i s t" "joins_ok limit i s"
    and "\<And>w w'. env w w' \<Longrightarrow> sound w \<Longrightarrow> sound w' \<and> card (enrolled w' i) \<le> card (enrolled w i)"
  shows "joins_ok limit i t"
  using assms(1,2)
proof (induction rule: join_step.induct)
  case (arrive s u)
  then show ?case by (auto simp: joins_ok_def in_phase_def unfinished_def)
next
  case (statement k s u p ctx p' w)
  show ?case by (rule joins_ok_statement [OF statement.prems statement.hyps])
next
  case (other s w)
  with assms(3) [OF other.hyps] show ?case by (auto simp: joins_ok_def in_phase_def)
qed

lemma joins_bounded:
  assumes "sound w" "card (enrolled w i) \<le> 10" "(join_step svc env limit i)\<^sup>*\<^sup>* \<lparr>jn_store = w, jn_requests = []\<rparr> t"
    and "\<And>w w'. env w w' \<Longrightarrow> sound w \<Longrightarrow> sound w' \<and> card (enrolled w' i) \<le> card (enrolled w i)"
  shows "joins_ok limit i t"
  using assms(3)
proof (induction rule: rtranclp_induct)
  case base
  show ?case using assms(1,2) by (simp add: joins_ok_def in_phase_def)
next
  case (step s t)
  show ?case by (rule joins_ok_step [OF step.hyps(2) step.IH assms(4)])
qed

end

section \<open>A race of ten takes eleven\<close>

text \<open>Nine participants and two requests that both count before either inserts.\<close>

definition nine :: "user_id list" where
  "nine = map (\<lambda>c. [c]) ''123456789''"

definition crowd :: db where
  "crowd = demo_db\<lparr>tables := demo_tables\<lparr>
     users := map (\<lambda>u. (u, \<lparr>u_email = u, u_display_name = u, u_password_hash = '''', u_created_at = 0\<rparr>)) (nine @ [''a'', ''x'', ''y'']),
     race_participants := map (\<lambda>u. ((''r1'', u), \<lparr>p_finish_rank = None, p_finish_time_ms = None, p_avg_pace_watt = None,
       p_disconnected_count = 0, p_joined_at = 1\<rparr>)) nine\<rparr>\<rparr>"

lemma joins_overfill:
  "let svc = demo_service;
       (p1, s1) = (join_stmt svc False ''r1'' ''x'' ^^ 3) (JoinGetRace, crowd);
       (p2, s2) = (join_stmt svc False ''r1'' ''y'' ^^ 3) (JoinGetRace, s1);
       (p3, s3) = join_stmt svc False ''r1'' ''x'' (p1, s2);
       (p4, s4) = join_stmt svc False ''r1'' ''y'' (p2, s3)
   in p3 = JoinSign \<and> p4 = JoinSign \<and> length (members (tables crowd) ''r1'') = 9 \<and> length (members (tables s4) ''r1'') = 11"
  by (simp add: numeral_eq_Suc join_stmt_simps pg_GetRace_def select_race_def pg_IsParticipant_def pg_CountParticipants_def
      members_def MaxParticipants_def pg_AddParticipant_def insert_participant_def service_exec crowd_def nine_def)

section \<open>Properties\<close>

text \<open>C22: Requests that join a race at the same time overfill it by no more than their number. In every
  interleaving of the statements of the requests, with whatever else happens to the store as long
  as it enrols nobody in the race, a race of at most ten participants has never more than nine and
  the greatest number of requests in flight at once; so ten when they come one after the other. A
  request that is not interrupted is \<^verbatim>\<open>JoinRace\<close>. (With two requests eleven are reached; see
  above.)\<close>

theorem concurrent_joins_bounded:
  assumes "pg_sound s" "card (pg_enrolled s i) \<le> 10"
    and "(join_step (pg_service sign corpus) env limit i)\<^sup>*\<^sup>* \<lparr>jn_store = s, jn_requests = []\<rparr> t"
    and "\<And>w w'. env w w' \<Longrightarrow> pg_sound w \<Longrightarrow> pg_sound w' \<and> card (pg_enrolled w' i) \<le> card (pg_enrolled w i)"
  shows "pg_sound (jn_store t) \<and> card (pg_enrolled (jn_store t) i) \<le> 9 + max 1 limit
    \<and> (limit = 1 \<longrightarrow> card (pg_enrolled (jn_store t) i) \<le> 10)
    \<and> (\<forall>ctx u w. (join_stmt (pg_service sign corpus) ctx i u ^^ 5) (JoinGetRace, w)
         = (case JoinRace (pg_service sign corpus) ctx i u w of (x, w1) \<Rightarrow> (JoinDone x, w1)))"
proof -
  have "pgs.joins_ok limit i t" by (rule pgs.joins_bounded [OF assms])
  then show ?thesis using join_alone by (auto simp: pgs.joins_ok_def)
qed

lemma lone_statements:
  "(join_stmt svc ctx i u ^^ n) (p, w) = (p', w') \<Longrightarrow>
   (join_step svc env limit i)\<^sup>*\<^sup>* \<lparr>jn_store = w, jn_requests = [(u, p)]\<rparr> \<lparr>jn_store = w', jn_requests = [(u, p')]\<rparr>"
proof (induction n arbitrary: p w)
  case (Suc n)
  obtain p1 w1 where s: "join_stmt svc ctx i u (p, w) = (p1, w1)" by fastforce
  have "join_step svc env limit i \<lparr>jn_store = w, jn_requests = [(u, p)]\<rparr> \<lparr>jn_store = w1, jn_requests = [(u, p1)]\<rparr>"
    using join_step.statement [of 0 "\<lparr>jn_store = w, jn_requests = [(u, p)]\<rparr>" u p svc ctx i p1 w1 env limit] s by simp
  moreover have "(join_stmt svc ctx i u ^^ n) (p1, w1) = (p', w')" using Suc.prems s by (simp add: funpow_swap1)
  ultimately show ?case using Suc.IH by (meson converse_rtranclp_into_rtranclp)
qed simp

theorem concurrent_joins_bounded_witness:
  "let s = snd (JoinRace demo_service False ''r1'' ''b'' demo_db)
   in pg_enrolled s ''r1'' = {''a'', ''b''} \<and> card (pg_enrolled s ''r1'') \<le> 10"
proof -
  let ?s = "snd (JoinRace demo_service False ''r1'' ''b'' demo_db)"
  have e: "pg_enrolled demo_db ''r1'' = {''a''}"
    by (auto simp: pg_enrolled_def demo_db_def demo_tables_def)
  have e2: "pg_enrolled ?s ''r1'' = {''a'', ''b''}"
    by (auto simp: pg_enrolled_def JoinRace_def pg_GetRace_def select_race_def pg_IsParticipant_def pg_CountParticipants_def
        members_def MaxParticipants_def pg_AddParticipant_def insert_participant_def service_exec)
  have "join_step demo_service (=) 1 ''r1'' \<lparr>jn_store = demo_db, jn_requests = []\<rparr> \<lparr>jn_store = demo_db, jn_requests = [(''b'', JoinGetRace)]\<rparr>"
    using join_step.arrive [of "\<lparr>jn_store = demo_db, jn_requests = []\<rparr>" 1 demo_service "(=)" "''r1''" "''b''"]
    by (simp add: in_phase_def)
  moreover have "(join_stmt demo_service False ''r1'' ''b'' ^^ 5) (JoinGetRace, demo_db)
      = (JoinDone (fst (JoinRace demo_service False ''r1'' ''b'' demo_db)), ?s)"
    by (simp add: join_alone case_prod_unfold)
  from lone_statements [OF this, of "(=)" 1]
  have "(join_step demo_service (=) 1 ''r1'')\<^sup>*\<^sup>* \<lparr>jn_store = demo_db, jn_requests = [(''b'', JoinGetRace)]\<rparr>
      \<lparr>jn_store = ?s, jn_requests = [(''b'', JoinDone (fst (JoinRace demo_service False ''r1'' ''b'' demo_db)))]\<rparr>" .
  ultimately have run: "(join_step demo_service (=) 1 ''r1'')\<^sup>*\<^sup>* \<lparr>jn_store = demo_db, jn_requests = []\<rparr>
      \<lparr>jn_store = ?s, jn_requests = [(''b'', JoinDone (fst (JoinRace demo_service False ''r1'' ''b'' demo_db)))]\<rparr>"
    by (rule converse_rtranclp_into_rtranclp)
  have "card (pg_enrolled ?s ''r1'') \<le> 10"
    using concurrent_joins_bounded [OF demo_db_sound _ run [unfolded demo_service_def]] e by (simp add: demo_service_def)
  with e2 show ?thesis by (simp add: Let_def)
qed

end
