(* ===== verification/Leaderboard.thy ===== *)
theory Leaderboard
  imports Race_Service "HOL-Library.Product_Lexorder"
begin

text \<open>
  The leaderboard: the queries of \<^verbatim>\<open>internal/postgres/leaderboard_repository.go\<close> over the
  tables, the service of \<^verbatim>\<open>internal/leaderboard/service.go\<close> with its paging in Go's
  \<^verbatim>\<open>int\<close>, and the two handlers. SQL leaves the order of rows that compare equal open:
  \<open>scan\<close> is the order in which the rows come to the sort, any permutation of them. NUMERIC and
  float64 values are the rationals they denote; NULL is \<open>None\<close>.
\<close>

section \<open>Data\<close>

record stats =
  TotalRaces :: int
  TotalWins :: int
  TotalPaceWattSum :: float64

datatype window = WindowAllTime | WindowWeekly

definition parse_window :: "string \<Rightarrow> window option" where
  "parse_window s = (if s = ''alltime'' then Some WindowAllTime
     else if s = ''weekly'' then Some WindowWeekly else None)"

record lb_entry =
  le_UserID :: user_id
  le_DisplayName :: string
  le_Races :: int
  le_Wins :: int
  le_AvgWPM :: float64

record me_response =
  me_RacesJoined :: int
  me_RacesWon :: int
  me_AvgWPM :: float64

record entry_response =
  er_Rank :: int
  er_UserID :: user_id
  er_DisplayName :: string
  er_Races :: int
  er_Wins :: int
  er_AvgWPM :: float64

record top_response =
  tr_Window :: string
  tr_Page :: int
  tr_TotalPages :: int
  tr_Entries :: "entry_response list"

section \<open>The queries\<close>

definition pg_GetUserStats :: "bool \<Rightarrow> user_id \<Rightarrow> db \<Rightarrow> (go_error + stats) \<times> db" where
  "pg_GetUserStats ctx u s =
     (case pg ctx (\<lambda>s. (case mget (leaderboard_alltime (tables s)) u of
          None \<Rightarrow> Inl ErrNoRows
        | Some l \<Rightarrow> Inr \<lparr>TotalRaces = l_total_races l, TotalWins = l_total_wins l,
                         TotalPaceWattSum = l_total_pace_watt_sum l\<rparr>, tables s)) s of
        (Inl ErrNoRows, s1) \<Rightarrow> (Inr \<lparr>TotalRaces = 0, TotalWins = 0, TotalPaceWattSum = 0\<rparr>, s1)
      | (Inl _, s1) \<Rightarrow> (Inl (wrapped ''get user stats''), s1)
      | (Inr st, s1) \<Rightarrow> (Inr st, s1))"

text \<open>A row of either ranking query, the average still as SQL has it. In a descending order NULL comes
  first.\<close>

record top_row =
  t_id :: user_id
  t_display_name :: string
  t_races :: int
  t_wins :: int
  t_avg_wpm :: "float64 option"

definition top_order :: "top_row \<Rightarrow> int \<times> int \<times> float64" where
  "top_order r = (- t_wins r, (case t_avg_wpm r of None \<Rightarrow> (0, 0) | Some x \<Rightarrow> (1, - x)))"

definition topAllTimeQuery :: "db_tables \<Rightarrow> top_row list" where
  "topAllTimeQuery t =
     map (\<lambda>(u, l). \<lparr>t_id = u, t_display_name = u_display_name (the (mget (users t) u)),
            t_races = l_total_races l, t_wins = l_total_wins l,
            t_avg_wpm = Some (l_total_pace_watt_sum l / of_int (l_total_races l))\<rparr>)
       (List.filter (\<lambda>(u, l). 0 < l_total_races l \<and> mget (users t) u \<noteq> None) (leaderboard_alltime t))"

definition countAllTimeQuery :: "db_tables \<Rightarrow> int" where
  "countAllTimeQuery t = int (length (List.filter (\<lambda>(u, l). 0 < l_total_races l) (leaderboard_alltime t)))"

definition seven_days :: duration where
  "seven_days = 7 * 24 * 3600 * second"

text \<open>The participations of races that finished in the last seven days.\<close>

definition weekly_rows :: "time \<Rightarrow> db_tables \<Rightarrow> ((race_id \<times> user_id) \<times> participant_row) list" where
  "weekly_rows now t = List.filter (\<lambda>((i, u), p).
     case mget (races t) i of None \<Rightarrow> False
     | Some r \<Rightarrow> r_status r = ''finished'' \<and> (case r_ended_at r of None \<Rightarrow> False | Some e \<Rightarrow> now - seven_days \<le> e))
     (race_participants t)"

text \<open>SQL's \<^verbatim>\<open>avg\<close>: NULLs do not count, and the average of no value is NULL.\<close>

definition sql_avg :: "float64 option list \<Rightarrow> float64 option" where
  "sql_avg xs = (let ys = List.map_filter id xs in
     if ys = [] then None else Some (sum_list ys / of_nat (length ys)))"

definition topWeeklyQuery :: "time \<Rightarrow> db_tables \<Rightarrow> top_row list" where
  "topWeeklyQuery now t =
     (let rows = weekly_rows now t in
      map (\<lambda>u. let mine = map snd (List.filter (\<lambda>kv. snd (fst kv) = u) rows) in
             \<lparr>t_id = u, t_display_name = u_display_name (the (mget (users t) u)),
              t_races = int (length mine),
              t_wins = int (length (List.filter (\<lambda>p. p_finish_rank p = Some 1) mine)),
              t_avg_wpm = sql_avg (map p_avg_pace_watt mine)\<rparr>)
        (List.filter (\<lambda>u. mget (users t) u \<noteq> None) (remdups (map (snd \<circ> fst) rows))))"

definition countWeeklyQuery :: "time \<Rightarrow> db_tables \<Rightarrow> int" where
  "countWeeklyQuery now t = int (length (remdups (map (snd \<circ> fst) (weekly_rows now t))))"

text \<open>\<^verbatim>\<open>LIMIT\<close> and \<^verbatim>\<open>OFFSET\<close>; a negative offset is an error of the statement.\<close>

definition limit_offset :: "int \<Rightarrow> int \<Rightarrow> 'a list \<Rightarrow> pg_error + 'a list" where
  "limit_offset limit offset xs =
     (if limit < 0 \<or> offset < 0 then Inl OutOfRange
      else Inr (take (nat limit) (drop (nat offset) xs)))"

text \<open>\<^verbatim>\<open>rows.Scan\<close> into a \<^verbatim>\<open>float64\<close> cannot take NULL.\<close>

fun scan_rows :: "top_row list \<Rightarrow> lb_entry list option" where
  "scan_rows [] = Some []"
| "scan_rows (r # rs) =
     (case t_avg_wpm r of
        None \<Rightarrow> None
      | Some x \<Rightarrow> map_option (\<lambda>es. \<lparr>le_UserID = t_id r, le_DisplayName = t_display_name r,
                     le_Races = t_races r, le_Wins = t_wins r, le_AvgWPM = x\<rparr> # es) (scan_rows rs))"

definition ranking :: "(top_row list \<Rightarrow> top_row list) \<Rightarrow> window \<Rightarrow> time \<Rightarrow> db_tables \<Rightarrow> top_row list" where
  "ranking scan win now t = sort_key top_order (scan
     (case win of WindowAllTime \<Rightarrow> topAllTimeQuery t | WindowWeekly \<Rightarrow> topWeeklyQuery now t))"

definition top_count :: "window \<Rightarrow> time \<Rightarrow> db_tables \<Rightarrow> int" where
  "top_count win now t = (case win of WindowAllTime \<Rightarrow> countAllTimeQuery t | WindowWeekly \<Rightarrow> countWeeklyQuery now t)"

definition pg_GetTop :: "(top_row list \<Rightarrow> top_row list) \<Rightarrow> bool \<Rightarrow> window \<Rightarrow> int \<Rightarrow> int \<Rightarrow> db \<Rightarrow>
    (go_error + (lb_entry list \<times> int)) \<times> db" where
  "pg_GetTop scan ctx win limit offset s =
     (case pg ctx (\<lambda>s. (Inr (top_count win (db_now s) (tables s)), tables s)) s of
        (Inl _, s1) \<Rightarrow> (Inl (wrapped ''get top leaderboard: count''), s1)
      | (Inr cnt, s1) \<Rightarrow>
          (case pg ctx (\<lambda>s. (limit_offset limit offset (ranking scan win (db_now s) (tables s)), tables s)) s1 of
             (Inl _, s2) \<Rightarrow> (Inl (wrapped ''get top leaderboard''), s2)
           | (Inr rows, s2) \<Rightarrow>
               (case scan_rows rows of
                  None \<Rightarrow> (Inl (wrapped ''get top leaderboard: scan''), s2)
                | Some entries \<Rightarrow> (Inr (entries, cnt), s2))))"

section \<open>The service\<close>

text \<open>\<^verbatim>\<open>math.Round\<close>: to the nearest integer, halves away from zero.\<close>

definition go_Round :: "float64 \<Rightarrow> float64" where
  "go_Round x = of_int (if 0 \<le> x then \<lfloor>x + 1 / 2\<rfloor> else \<lceil>x - 1 / 2\<rceil>)"

definition GetMyStats :: "bool \<Rightarrow> user_id \<Rightarrow> db \<Rightarrow> (go_error + me_response) \<times> db" where
  "GetMyStats ctx u s =
     (case pg_GetUserStats ctx u s of
        (Inl e, s1) \<Rightarrow> (Inl e, s1)
      | (Inr st, s1) \<Rightarrow>
          (Inr \<lparr>me_RacesJoined = TotalRaces st, me_RacesWon = TotalWins st,
             me_AvgWPM = (if 0 < TotalRaces st
               then go_Round (TotalPaceWattSum st / of_int (TotalRaces st) * 100) / 100 else 0)\<rparr>, s1))"

definition pageSize :: int where
  "pageSize = 5"

definition GetTop :: "(top_row list \<Rightarrow> top_row list) \<Rightarrow> bool \<Rightarrow> string \<Rightarrow> int \<Rightarrow> db \<Rightarrow>
    ((string \<times> string) list + (go_error + top_response)) \<times> db" where
  "GetTop scan ctx windowParam page0 s =
     (case parse_window windowParam of
        None \<Rightarrow> (Inl [(''window'', ''must be alltime or weekly'')], s)
      | Some win \<Rightarrow>
          let page = (if page0 < 1 then 1 else page0);
              offset = int64 ((page - 1) * pageSize) in
          (case pg_GetTop scan ctx win pageSize offset s of
             (Inl e, s1) \<Rightarrow> (Inr (Inl e), s1)
           | (Inr (entries, cnt), s1) \<Rightarrow>
               (Inr (Inr \<lparr>tr_Window = windowParam, tr_Page = page,
                  tr_TotalPages = max 1 (go_quot (int64 (cnt + pageSize - 1)) pageSize),
                  tr_Entries = map (\<lambda>(i, e). \<lparr>er_Rank = int64 (offset + int i + 1), er_UserID = le_UserID e,
                    er_DisplayName = le_DisplayName e, er_Races = le_Races e, er_Wins = le_Wins e,
                    er_AvgWPM = le_AvgWPM e\<rparr>) (enumerate 0 entries)\<rparr>), s1)))"

section \<open>The handlers\<close>

definition digit :: "char \<Rightarrow> int option" where
  "digit c = (let n = of_char c :: int in if 48 \<le> n \<and> n \<le> 57 then Some (n - 48) else None)"

fun digits :: "string \<Rightarrow> int \<Rightarrow> int option" where
  "digits [] acc = Some acc"
| "digits (c # cs) acc = (case digit c of None \<Rightarrow> None | Some d \<Rightarrow> digits cs (10 * acc + d))"

text \<open>The number \<^verbatim>\<open>strconv.Atoi\<close> returns, its error ignored: 0 for text that is not a number, the
  nearest bound for one that does not fit.\<close>

definition go_Atoi :: "string \<Rightarrow> int" where
  "go_Atoi s =
     (let neg = (s \<noteq> [] \<and> hd s = CHR ''-'');
          body = (if s \<noteq> [] \<and> (hd s = CHR ''-'' \<or> hd s = CHR ''+'') then tl s else s) in
      if body = [] then 0
      else case digits body 0 of
        None \<Rightarrow> 0
      | Some n \<Rightarrow> let v = (if neg then - n else n) in max (- (2 ^ 63)) (min (2 ^ 63 - 1) v))"

definition Me :: "user_id option \<Rightarrow> bool \<Rightarrow> db \<Rightarrow> me_response reply \<times> db" where
  "Me caller ctx s =
     (case caller of None \<Rightarrow> (WriteError 401 ''unauthorized'', s)
      | Some u \<Rightarrow>
        (case GetMyStats ctx u s of
           (Inl _, s1) \<Rightarrow> (WriteError 500 ''internal_error'', s1)
         | (Inr st, s1) \<Rightarrow> (WriteJSON 200 st, s1)))"

definition Top :: "(top_row list \<Rightarrow> top_row list) \<Rightarrow> user_id option \<Rightarrow> bool \<Rightarrow> string \<Rightarrow> string \<Rightarrow> db \<Rightarrow>
    top_response reply \<times> db" where
  "Top scan caller ctx windowParam pageParam s =
     (case caller of None \<Rightarrow> (WriteError 401 ''unauthorized'', s)
      | Some u \<Rightarrow>
        (case GetTop scan ctx windowParam (go_Atoi pageParam) s of
           (Inl errs, s1) \<Rightarrow> (WriteFieldErrors errs, s1)
         | (Inr (Inl _), s1) \<Rightarrow> (WriteError 500 ''internal_error'', s1)
         | (Inr (Inr resp), s1) \<Rightarrow> (WriteJSON 200 resp, s1)))"

end
