(* ===== verification/Auth_Service.thy ===== *)
theory Auth_Service
  imports Race_Service Protocol Tokens
begin

text \<open>
  Accounts: the users table and \<^verbatim>\<open>internal/postgres/auth_repository.go\<close>, the service and
  handlers of \<^verbatim>\<open>internal/auth\<close>, and the bearer-token check of
  \<^verbatim>\<open>internal/middleware/auth.go\<close>. The address parser of \<^verbatim>\<open>net/mail\<close>,
  \<^verbatim>\<open>bcrypt\<close>, the token library and the database's generator of identifiers are parameters.
\<close>

section \<open>The repository\<close>

record user =
  user_ID :: user_id
  user_Email :: string
  user_DisplayName :: string
  user_PasswordHash :: string
  user_CreatedAt :: time

definition row_by_email :: "string \<Rightarrow> db_tables \<Rightarrow> (user_id \<times> user_row) option" where
  "row_by_email email t = List.find (\<lambda>(_, row). u_email row = email) (users t)"

text \<open>\<open>newid\<close> is the default of the column \<^verbatim>\<open>id\<close>. The row that is returned has no password
  hash.\<close>

definition insert_user :: "(db \<Rightarrow> user_id) \<Rightarrow> string \<Rightarrow> string \<Rightarrow> string \<Rightarrow> db \<Rightarrow> (pg_error + user) \<times> db_tables" where
  "insert_user newid email name hash s =
     (let t = tables s; i = newid s in
      if row_by_email email t \<noteq> None \<or> mget (users t) i \<noteq> None then (Inl UniqueViolation, t)
      else (Inr \<lparr>user_ID = i, user_Email = email, user_DisplayName = name, user_PasswordHash = '''', user_CreatedAt = db_now s\<rparr>,
            t\<lparr>users := mput i \<lparr>u_email = email, u_display_name = name, u_password_hash = hash, u_created_at = db_now s\<rparr> (users t)\<rparr>))"

definition pg_CreateUser :: "(db \<Rightarrow> user_id) \<Rightarrow> bool \<Rightarrow> string \<Rightarrow> string \<Rightarrow> string \<Rightarrow> db \<Rightarrow> (go_error + user) \<times> db" where
  "pg_CreateUser newid ctx email name hash s =
     (case pg ctx (insert_user newid email name hash) s of
        (Inl UniqueViolation, s1) \<Rightarrow> (Inl ErrEmailTaken, s1)
      | (Inl _, s1) \<Rightarrow> (Inl (wrapped ''create user''), s1)
      | (Inr u, s1) \<Rightarrow> (Inr u, s1))"

definition user_of_row :: "user_id \<times> user_row \<Rightarrow> user" where
  "user_of_row = (\<lambda>(i, row). \<lparr>user_ID = i, user_Email = u_email row, user_DisplayName = u_display_name row,
     user_PasswordHash = u_password_hash row, user_CreatedAt = u_created_at row\<rparr>)"

definition pg_GetUserByEmail :: "bool \<Rightarrow> string \<Rightarrow> db \<Rightarrow> (go_error + user) \<times> db" where
  "pg_GetUserByEmail ctx email s =
     (case pg ctx (\<lambda>s. (case row_by_email email (tables s) of None \<Rightarrow> Inl ErrNoRows
                        | Some r \<Rightarrow> Inr (user_of_row r), tables s)) s of
        (Inl ErrNoRows, s1) \<Rightarrow> (Inl ErrUserNotFound, s1)
      | (Inl _, s1) \<Rightarrow> (Inl (wrapped ''get user by email''), s1)
      | (Inr u, s1) \<Rightarrow> (Inr u, s1))"

section \<open>The service\<close>

text \<open>\<^verbatim>\<open>AuthRepository\<close>, and what the service calls of the libraries.\<close>

record 'w auth_repo =
  repo_CreateUser :: "bool \<Rightarrow> string \<Rightarrow> string \<Rightarrow> string \<Rightarrow> 'w \<Rightarrow> (go_error + user) \<times> 'w"
  repo_GetUserByEmail :: "bool \<Rightarrow> string \<Rightarrow> 'w \<Rightarrow> (go_error + user) \<times> 'w"

definition pg_auth_repo :: "(db \<Rightarrow> user_id) \<Rightarrow> db auth_repo" where
  "pg_auth_repo newid = \<lparr>repo_CreateUser = pg_CreateUser newid, repo_GetUserByEmail = pg_GetUserByEmail\<rparr>"

record login_claims =
  lc_sub :: user_id
  lc_email :: string
  lc_exp :: int

record 'w auth_service =
  auth_repo :: "'w auth_repo"
  ParseAddress :: "string \<Rightarrow> bool"
  GenerateFromPassword :: "string \<Rightarrow> 'w \<Rightarrow> (go_error + string) \<times> 'w"
  CompareHashAndPassword :: "string \<Rightarrow> string \<Rightarrow> go_error option"
  auth_sign :: "login_claims \<Rightarrow> go_error + string"
  auth_now :: "'w \<Rightarrow> time"

text \<open>The ASCII part of \<^verbatim>\<open>strings.ToLower\<close>.\<close>

definition go_ToLower :: "string \<Rightarrow> string" where
  "go_ToLower s = map lower s"

definition validateRegister :: "(string \<Rightarrow> bool) \<Rightarrow> string \<Rightarrow> string \<Rightarrow> string \<Rightarrow> (string \<times> string) list" where
  "validateRegister valid email password displayName =
     (if valid email then [] else [(''email'', ''invalid format'')])
     @ (if length password < 8 then [(''password'', ''must be at least 8 characters'')] else [])
     @ (if length (go_TrimSpace displayName) = 0 \<or> 50 < length displayName
        then [(''display_name'', ''must be 1-50 characters'')] else [])"

definition Register :: "'w auth_service \<Rightarrow> bool \<Rightarrow> string \<Rightarrow> string \<Rightarrow> string \<Rightarrow> 'w \<Rightarrow>
    ((string \<times> string) list + (go_error + user)) \<times> 'w" where
  "Register svc ctx email password displayName w =
     (let errs = validateRegister (ParseAddress svc) email password displayName in
      if errs \<noteq> [] then (Inl errs, w)
      else
        (case GenerateFromPassword svc password w of
           (Inl e, w1) \<Rightarrow> (Inr (Inl (ErrOther ''auth: hash password'')), w1)
         | (Inr hash, w1) \<Rightarrow>
             (case repo_CreateUser (auth_repo svc) ctx (go_ToLower email) displayName hash w1 of
                (Inl e, w2) \<Rightarrow> (Inr (Inl e), w2)
              | (Inr u, w2) \<Rightarrow> (Inr (Inr u), w2))))"

definition Login :: "'w auth_service \<Rightarrow> bool \<Rightarrow> string \<Rightarrow> string \<Rightarrow> 'w \<Rightarrow> (go_error + (string \<times> time)) \<times> 'w" where
  "Login svc ctx email password w =
     (if email = '''' \<or> password = '''' then (Inl ErrInvalidCredentials, w)
      else
        (case repo_GetUserByEmail (auth_repo svc) ctx (go_ToLower email) w of
           (Inl ErrUserNotFound, w1) \<Rightarrow> (Inl ErrInvalidCredentials, w1)
         | (Inl e, w1) \<Rightarrow> (Inl e, w1)
         | (Inr u, w1) \<Rightarrow>
             if CompareHashAndPassword svc (user_PasswordHash u) password \<noteq> None then (Inl ErrInvalidCredentials, w1)
             else
               let expiresAt = auth_now svc w1 + 24 * 3600 * second in
               (case auth_sign svc \<lparr>lc_sub = user_ID u, lc_email = user_Email u, lc_exp = expiresAt div second\<rparr> of
                  Inl e \<Rightarrow> (Inl (ErrOther ''auth: sign token''), w1)
                | Inr signed \<Rightarrow> (Inr (signed, expiresAt), w1))))"

section \<open>The handlers\<close>

record register_response =
  rr_ID :: user_id
  rr_Email :: string
  rr_DisplayName :: string

record login_response =
  lr_Token :: string
  lr_ExpiresAt :: time

text \<open>The body is \<open>None\<close> when it does not decode.\<close>

definition Register_handler :: "'w auth_service \<Rightarrow> bool \<Rightarrow> (string \<times> string \<times> string) option \<Rightarrow> 'w \<Rightarrow>
    register_response reply \<times> 'w" where
  "Register_handler svc ctx body w =
     (case body of None \<Rightarrow> (WriteError 400 ''invalid_body'', w)
      | Some (email, password, displayName) \<Rightarrow>
        (case Register svc ctx email password displayName w of
           (Inl errs, w1) \<Rightarrow> (WriteFieldErrors errs, w1)
         | (Inr (Inl ErrEmailTaken), w1) \<Rightarrow> (WriteError 409 ''email_taken'', w1)
         | (Inr (Inl _), w1) \<Rightarrow> (WriteError 500 ''internal_error'', w1)
         | (Inr (Inr u), w1) \<Rightarrow>
             (WriteJSON 201 \<lparr>rr_ID = user_ID u, rr_Email = user_Email u, rr_DisplayName = user_DisplayName u\<rparr>, w1)))"

definition Login_handler :: "'w auth_service \<Rightarrow> bool \<Rightarrow> (string \<times> string) option \<Rightarrow> 'w \<Rightarrow> login_response reply \<times> 'w" where
  "Login_handler svc ctx body w =
     (case body of None \<Rightarrow> (WriteError 400 ''invalid_body'', w)
      | Some (email, password) \<Rightarrow>
        (case Login svc ctx email password w of
           (Inl ErrInvalidCredentials, w1) \<Rightarrow> (WriteError 401 ''invalid_credentials'', w1)
         | (Inl _, w1) \<Rightarrow> (WriteError 500 ''internal_error'', w1)
         | (Inr (token, expiresAt), w1) \<Rightarrow> (WriteJSON 200 \<lparr>lr_Token = token, lr_ExpiresAt = expiresAt\<rparr>, w1)))"

section \<open>The middleware\<close>

text \<open>The user the middleware puts into the request's context, or \<open>None\<close> where it answers 401 itself.\<close>

definition Auth_user :: "jwt_parser \<Rightarrow> time \<Rightarrow> string \<Rightarrow> user_id option" where
  "Auth_user parse now header =
     (if \<not> go_HasPrefix header ''Bearer '' then None
      else let tokenString = go_TrimPrefix header ''Bearer '' in
      if tokenString = '''' then None
      else
        (case parse now tokenString of
           Inl _ \<Rightarrow> None
         | Inr (valid, m) \<Rightarrow>
             if \<not> valid then None
             else
               (case mc_exp m of
                  None \<Rightarrow> None
                | Some t \<Rightarrow>
                    if t * second < now then None
                    else if mc_sub m = None \<or> mc_sub m = Some '''' then None
                    else mc_sub m)))"

definition Auth :: "jwt_parser \<Rightarrow> time \<Rightarrow> string \<Rightarrow> (user_id option \<Rightarrow> 'w \<Rightarrow> 'a reply \<times> 'w) \<Rightarrow> 'w \<Rightarrow> 'a reply \<times> 'w" where
  "Auth parse now header handler w =
     (case Auth_user parse now header of
        None \<Rightarrow> (WriteError 401 ''unauthorized'', w)
      | Some u \<Rightarrow> handler (Some u) w)"

end
