(* ===== verification/Http_Api.thy ===== *)
theory Http_Api
  imports Leaderboard Auth_Service Event_Log
begin

text \<open>
  The HTTP side of the race service: the routes (\<^verbatim>\<open>internal/httpserver/route.go\<close>), the
  probes (\<^verbatim>\<open>healthz.go\<close>, \<^verbatim>\<open>readiness.go\<close>), the wire format of requests and
  replies (the \<^verbatim>\<open>dtos.go\<close> files, \<^verbatim>\<open>internal/httpx\<close>) and the middleware of
  \<^verbatim>\<open>cmd/server\<close> (\<^verbatim>\<open>internal/middleware\<close>). A path is the list of its segments, a
  trailing slash being a last empty one; paths are clean, as \<^verbatim>\<open>ServeMux\<close> redirects others.
  The pages that Prometheus, Swagger and pprof serve are a parameter.
\<close>

section \<open>Requests and replies\<close>

record http_request =
  rq_Method :: string
  rq_Path :: "string list"
  rq_Authorization :: string
  rq_Query :: "string \<Rightarrow> string"
  rq_Body :: frame

record http_response =
  rs_Status :: nat
  rs_Headers :: "(string \<times> string) list"
  rs_Body :: "json option"

definition httpx_WriteJSON :: "nat \<Rightarrow> json \<Rightarrow> http_response" where
  "httpx_WriteJSON status body =
     \<lparr>rs_Status = status, rs_Headers = [(''Content-Type'', ''application/json'')], rs_Body = Some body\<rparr>"

definition httpx_WriteError :: "nat \<Rightarrow> string \<Rightarrow> http_response" where
  "httpx_WriteError status code = httpx_WriteJSON status (JObject [(''error'', JString code)])"

definition write_reply :: "('a \<Rightarrow> json) \<Rightarrow> 'a reply \<Rightarrow> http_response" where
  "write_reply enc rep = (case rep of
       WriteJSON status x \<Rightarrow> httpx_WriteJSON status (enc x)
     | WriteError status code \<Rightarrow> httpx_WriteError status code
     | WriteFieldErrors errs \<Rightarrow>
         httpx_WriteJSON 400 (JObject [(''errors'', JObject (map (\<lambda>(k, m). (k, JString m)) errs))]))"

subsection \<open>Bodies of requests\<close>

definition create_member :: "string \<Rightarrow> json \<Rightarrow> string \<times> int \<Rightarrow> (string \<times> int) option" where
  "create_member k v = (\<lambda>(name, n).
     if same_key k ''name'' then map_option (\<lambda>x. (x, n)) (string_field v name)
     else if same_key k ''distance_meters'' then map_option (\<lambda>x. (name, x)) (int_field v n)
     else Some (name, n))"

definition decode_create :: "frame \<Rightarrow> (string \<times> int) option" where
  "decode_create body = Option.bind body (decode_struct create_member ('''', 0))"

definition register_member :: "string \<Rightarrow> json \<Rightarrow> string \<times> string \<times> string \<Rightarrow> (string \<times> string \<times> string) option" where
  "register_member k v = (\<lambda>(email, password, name).
     if same_key k ''email'' then map_option (\<lambda>x. (x, password, name)) (string_field v email)
     else if same_key k ''password'' then map_option (\<lambda>x. (email, x, name)) (string_field v password)
     else if same_key k ''display_name'' then map_option (\<lambda>x. (email, password, x)) (string_field v name)
     else Some (email, password, name))"

definition decode_register :: "frame \<Rightarrow> (string \<times> string \<times> string) option" where
  "decode_register body = Option.bind body (decode_struct register_member ('''', '''', ''''))"

definition login_member :: "string \<Rightarrow> json \<Rightarrow> string \<times> string \<Rightarrow> (string \<times> string) option" where
  "login_member k v = (\<lambda>(email, password).
     if same_key k ''email'' then map_option (\<lambda>x. (x, password)) (string_field v email)
     else if same_key k ''password'' then map_option (\<lambda>x. (email, x)) (string_field v password)
     else Some (email, password))"

definition decode_login :: "frame \<Rightarrow> (string \<times> string) option" where
  "decode_login body = Option.bind body (decode_struct login_member ('''', ''''))"

subsection \<open>Bodies of replies\<close>

text \<open>\<open>fmt\<close> writes an instant as RFC 3339.\<close>

definition createRaceResponse_json :: "(time \<Rightarrow> string) \<Rightarrow> create_race_response \<Rightarrow> json" where
  "createRaceResponse_json fmt x = (let r = cr_Race x in
     JObject [(''id'', JString (ID r)), (''name'', JString (Name r)), (''distance_meters'', JInt (DistanceMeters r)),
       (''status'', JString (Status r)), (''created_by'', JString (CreatedBy r)),
       (''created_at'', JString (fmt (CreatedAt r))), (''session_token'', JString (cr_SessionToken x))])"

definition joinRaceResponse_json :: "join_race_response \<Rightarrow> json" where
  "joinRaceResponse_json x =
     JObject [(''race_id'', JString (jr_RaceID x)), (''session_token'', JString (jr_SessionToken x))]"

definition startRaceResponse_json :: "(time \<Rightarrow> string) \<Rightarrow> start_race_response \<Rightarrow> json" where
  "startRaceResponse_json fmt x =
     JObject [(''id'', JString (sr_ID x)), (''status'', JString (sr_Status x)),
       (''started_at'', JString (case sr_StartedAt x of None \<Rightarrow> '''' | Some t \<Rightarrow> fmt t)),
       (''prompt_text'', JString (sr_PromptText x))]"

definition getRaceTextResponse_json :: "string \<Rightarrow> json" where
  "getRaceTextResponse_json p = JObject [(''prompt_text'', JString p)]"

definition openRaceResponse_json :: "(time \<Rightarrow> string) \<Rightarrow> open_race \<Rightarrow> json" where
  "openRaceResponse_json fmt o' =
     JObject [(''id'', JString (or_ID o')), (''name'', JString (or_Name o')), (''distance_meters'', JInt (or_DistanceMeters o')),
       (''host_display_name'', JString (or_HostDisplayName o')), (''player_count'', JInt (or_PlayerCount o')),
       (''max_players'', JInt (or_MaxPlayers o')), (''created_at'', JString (fmt (or_CreatedAt o')))]"

definition listOpenRacesResponse_json :: "(time \<Rightarrow> string) \<Rightarrow> open_race list \<Rightarrow> json" where
  "listOpenRacesResponse_json fmt os = JObject [(''races'', JArray (map (openRaceResponse_json fmt) os))]"

definition participantResponse_json :: "(time \<Rightarrow> string) \<Rightarrow> race_participant \<Rightarrow> json" where
  "participantResponse_json fmt p =
     JObject [(''user_id'', JString (rp_UserID p)), (''display_name'', JString (rp_DisplayName p)),
       (''joined_at'', JString (fmt (rp_JoinedAt p))), (''finish_rank'', json_pointer (rp_FinishRank p)),
       (''finish_time_ms'', json_pointer (rp_FinishTimeMs p)), (''avg_pace_watt'', json_float (rp_AvgPaceWatt p))]"

definition raceStatusResponse_json :: "(time \<Rightarrow> string) \<Rightarrow> race_status_response \<Rightarrow> json" where
  "raceStatusResponse_json fmt x = (let r = rd_Race (st_Detail x) in
     JObject [(''id'', JString (ID r)), (''name'', JString (Name r)), (''distance_meters'', JInt (DistanceMeters r)),
       (''status'', JString (Status r)), (''created_by'', JString (CreatedBy r)),
       (''participants'', JArray (map (participantResponse_json fmt) (rd_Participants (st_Detail x)))),
       (''pending_expires_at'', case st_PendingExpiresAt x of None \<Rightarrow> JNull | Some t \<Rightarrow> JString (fmt t))])"

definition registerResponse_json :: "register_response \<Rightarrow> json" where
  "registerResponse_json x =
     JObject [(''id'', JString (rr_ID x)), (''email'', JString (rr_Email x)), (''display_name'', JString (rr_DisplayName x))]"

definition loginResponse_json :: "(time \<Rightarrow> string) \<Rightarrow> login_response \<Rightarrow> json" where
  "loginResponse_json fmt x = JObject [(''token'', JString (lr_Token x)), (''expires_at'', JString (fmt (lr_ExpiresAt x)))]"

definition leaderboardMe_json :: "me_response \<Rightarrow> json" where
  "leaderboardMe_json x = JObject [(''races_joined'', JInt (me_RacesJoined x)), (''races_won'', JInt (me_RacesWon x)),
     (''avg_wpm'', json_float (me_AvgWPM x))]"

definition leaderboardEntry_json :: "entry_response \<Rightarrow> json" where
  "leaderboardEntry_json e = JObject [(''rank'', JInt (er_Rank e)), (''user_id'', JString (er_UserID e)),
     (''display_name'', JString (er_DisplayName e)), (''races'', JInt (er_Races e)), (''wins'', JInt (er_Wins e)),
     (''avg_wpm'', json_float (er_AvgWPM e))]"

definition leaderboardTop_json :: "top_response \<Rightarrow> json" where
  "leaderboardTop_json x = JObject [(''window'', JString (tr_Window x)), (''page'', JInt (tr_Page x)),
     (''total_pages'', JInt (tr_TotalPages x)), (''entries'', JArray (map leaderboardEntry_json (tr_Entries x)))]"

section \<open>The service process\<close>

record api =
  a_race :: "db race_handler"
  a_auth :: "db auth_service"
  a_parse :: jwt_parser
  a_format :: "time \<Rightarrow> string"
  a_scan :: "top_row list \<Rightarrow> top_row list"
  a_origin :: string
  a_PprofEnabled :: bool
  a_page :: "string \<Rightarrow> http_request \<Rightarrow> http_response"

record http_log =
  hl_method :: string
  hl_path :: "string list"
  hl_status :: nat
  hl_request_id :: string
  hl_user_id :: "user_id option"

record api_state =
  as_reg :: "db registry"
  as_db :: db
  as_shuttingDown :: bool
  as_now :: time
  as_log :: "http_log list"

definition MarkShuttingDown :: "api_state \<Rightarrow> api_state" where
  "MarkShuttingDown st = st\<lparr>as_shuttingDown := True\<rparr>"

subsection \<open>Probes\<close>

definition status_page :: "nat \<Rightarrow> string \<Rightarrow> http_response" where
  "status_page status s = httpx_WriteJSON status (JObject [(''status'', JString s)])"

definition NewHealthzHandler :: "bool \<Rightarrow> api_state \<Rightarrow> http_response \<times> api_state" where
  "NewHealthzHandler ctx st =
     (if as_shuttingDown st then (status_page 503 ''shutting_down'', st)
      else (case pg ctx pg_noop (as_db st) of
          (Inl _, s) \<Rightarrow> (status_page 503 ''db_unreachable'', st\<lparr>as_db := s\<rparr>)
        | (Inr _, s) \<Rightarrow> (status_page 200 ''ok'', st\<lparr>as_db := s\<rparr>)))"

definition NewLivezHandler :: "api_state \<Rightarrow> http_response \<times> api_state" where
  "NewLivezHandler st = (status_page 200 ''ok'', st)"

section \<open>Routes\<close>

datatype endpoint =
    Healthz | Livez | Metrics | AuthRegister | AuthLogin
  | RacesCreate | RacesList | RaceJoin | RaceStart | RaceText | RaceStatus
  | LeaderboardMe | LeaderboardTop | Swagger | Pprof

datatype segment = Lit string | Wild | Subtree

definition RegisterRoutes :: "bool \<Rightarrow> (string option \<times> segment list \<times> endpoint) list" where
  "RegisterRoutes pprof =
     [(Some ''GET'', [Lit ''healthz''], Healthz), (Some ''GET'', [Lit ''livez''], Livez),
      (Some ''GET'', [Lit ''metrics''], Metrics),
      (Some ''POST'', [Lit ''auth'', Lit ''register''], AuthRegister),
      (Some ''POST'', [Lit ''auth'', Lit ''login''], AuthLogin),
      (Some ''POST'', [Lit ''races''], RacesCreate), (Some ''GET'', [Lit ''races''], RacesList),
      (Some ''POST'', [Lit ''races'', Wild, Lit ''join''], RaceJoin),
      (Some ''POST'', [Lit ''races'', Wild, Lit ''start''], RaceStart),
      (Some ''GET'', [Lit ''races'', Wild, Lit ''text''], RaceText),
      (Some ''GET'', [Lit ''races'', Wild], RaceStatus),
      (Some ''GET'', [Lit ''leaderboard'', Lit ''me''], LeaderboardMe),
      (Some ''GET'', [Lit ''leaderboard''], LeaderboardTop),
      (Some ''GET'', [Lit ''swagger'', Subtree], Swagger)]
     @ (if pprof then [(None, [Lit ''debug'', Lit ''pprof'', Subtree], Pprof)] else [])"

text \<open>\<^verbatim>\<open>ServeMux\<close>: a wildcard takes one segment that is not empty, a pattern with a trailing
  slash everything below it; \<^verbatim>\<open>GET\<close> stands for \<^verbatim>\<open>HEAD\<close> too. No two of the
  patterns overlap. (The five patterns below \<^verbatim>\<open>/debug/pprof\<close> are one here.)\<close>

fun path_matches :: "segment list \<Rightarrow> string list \<Rightarrow> bool" where
  "path_matches [] p = (p = [])"
| "path_matches [Subtree] p = (p \<noteq> [])"
| "path_matches (Lit s # ss) p = (case p of [] \<Rightarrow> False | x # xs \<Rightarrow> x = s \<and> path_matches ss xs)"
| "path_matches (Wild # ss) p = (case p of [] \<Rightarrow> False | x # xs \<Rightarrow> x \<noteq> '''' \<and> path_matches ss xs)"
| "path_matches (Subtree # ss) p = False"

definition method_matches :: "string option \<Rightarrow> string \<Rightarrow> bool" where
  "method_matches m method = (case m of None \<Rightarrow> True | Some x \<Rightarrow> x = method \<or> (x = ''GET'' \<and> method = ''HEAD''))"

definition mux_Handler :: "(string option \<times> segment list \<times> 'e) list \<Rightarrow> string \<Rightarrow> string list \<Rightarrow> nat + 'e" where
  "mux_Handler rs method path =
     (case List.find (\<lambda>(m, pat, e). path_matches pat path \<and> method_matches m method) rs of
        Some (_, _, e) \<Rightarrow> Inr e
      | None \<Rightarrow> Inl (if list_ex (\<lambda>(m, pat, e). path_matches pat path) rs then 405 else 404))"

definition PathValue_id :: "http_request \<Rightarrow> string" where
  "PathValue_id rq = (case rq_Path rq of _ # i # _ \<Rightarrow> i | _ \<Rightarrow> '''')"

section \<open>Serving an endpoint\<close>

definition on_db_reply :: "('a \<Rightarrow> json) \<Rightarrow> (db \<Rightarrow> 'a reply \<times> db) \<Rightarrow> api_state \<Rightarrow> http_response \<times> api_state" where
  "on_db_reply enc f st = (case f (as_db st) of (rep, s) \<Rightarrow> (write_reply enc rep, st\<lparr>as_db := s\<rparr>))"

definition on_room_reply :: "('a \<Rightarrow> json) \<Rightarrow> (db registry \<times> db \<Rightarrow> 'a reply \<times> db registry \<times> db) \<Rightarrow> api_state \<Rightarrow>
    http_response \<times> api_state" where
  "on_room_reply enc f st = (case f (as_reg st, as_db st) of (rep, reg, s) \<Rightarrow>
     (write_reply enc rep, st\<lparr>as_reg := reg, as_db := s\<rparr>))"

definition requireAuth :: "api \<Rightarrow> http_request \<Rightarrow> api_state \<Rightarrow> (user_id option \<Rightarrow> 'w \<Rightarrow> 'a reply \<times> 'w) \<Rightarrow> 'w \<Rightarrow> 'a reply \<times> 'w" where
  "requireAuth api rq st = Auth (a_parse api) (as_now st) (rq_Authorization rq)"

fun serve_endpoint :: "api \<Rightarrow> bool \<Rightarrow> http_request \<Rightarrow> endpoint \<Rightarrow> api_state \<Rightarrow> http_response \<times> api_state" where
  "serve_endpoint api ctx rq Healthz st = NewHealthzHandler ctx st"
| "serve_endpoint api ctx rq Livez st = NewLivezHandler st"
| "serve_endpoint api ctx rq Metrics st = (a_page api ''metrics'' rq, st)"
| "serve_endpoint api ctx rq Swagger st = (a_page api ''swagger'' rq, st)"
| "serve_endpoint api ctx rq Pprof st = (a_page api ''pprof'' rq, st)"
| "serve_endpoint api ctx rq AuthRegister st =
     on_db_reply registerResponse_json (Register_handler (a_auth api) ctx (decode_register (rq_Body rq))) st"
| "serve_endpoint api ctx rq AuthLogin st =
     on_db_reply (loginResponse_json (a_format api)) (Login_handler (a_auth api) ctx (decode_login (rq_Body rq))) st"
| "serve_endpoint api ctx rq RacesCreate st =
     on_room_reply (createRaceResponse_json (a_format api))
       (requireAuth api rq st (\<lambda>caller. Create (a_race api) caller ctx (decode_create (rq_Body rq)))) st"
| "serve_endpoint api ctx rq RacesList st =
     on_db_reply (listOpenRacesResponse_json (a_format api)) (requireAuth api rq st (\<lambda>caller. ListOpen (a_race api) caller ctx)) st"
| "serve_endpoint api ctx rq RaceJoin st =
     on_db_reply joinRaceResponse_json (requireAuth api rq st (\<lambda>caller. Join (a_race api) caller ctx (PathValue_id rq))) st"
| "serve_endpoint api ctx rq RaceStart st =
     on_room_reply (startRaceResponse_json (a_format api))
       (requireAuth api rq st (\<lambda>caller. Start (a_race api) caller ctx (PathValue_id rq))) st"
| "serve_endpoint api ctx rq RaceText st =
     on_db_reply getRaceTextResponse_json (requireAuth api rq st (\<lambda>caller. Text (a_race api) caller ctx (PathValue_id rq))) st"
| "serve_endpoint api ctx rq RaceStatus st =
     on_db_reply (raceStatusResponse_json (a_format api))
       (requireAuth api rq st (\<lambda>caller. Status_handler (a_race api) caller ctx (PathValue_id rq))) st"
| "serve_endpoint api ctx rq LeaderboardMe st =
     on_db_reply leaderboardMe_json (requireAuth api rq st (\<lambda>caller. Me caller ctx)) st"
| "serve_endpoint api ctx rq LeaderboardTop st =
     on_db_reply leaderboardTop_json (requireAuth api rq st
       (\<lambda>caller. Top (a_scan api) caller ctx (rq_Query rq ''window'') (rq_Query rq ''page''))) st"

section \<open>The middleware\<close>

definition serve_mux :: "api \<Rightarrow> bool \<Rightarrow> http_request \<Rightarrow> api_state \<Rightarrow> http_response \<times> api_state" where
  "serve_mux api ctx rq st =
     (case mux_Handler (RegisterRoutes (a_PprofEnabled api)) (rq_Method rq) (rq_Path rq) of
        Inl status \<Rightarrow> (\<lparr>rs_Status = status, rs_Headers = [], rs_Body = None\<rparr>, st)
      | Inr e \<Rightarrow> serve_endpoint api ctx rq e st)"

definition cors_headers :: "string \<Rightarrow> (string \<times> string) list" where
  "cors_headers origin = [(''Access-Control-Allow-Origin'', origin),
     (''Access-Control-Allow-Methods'', ''GET, POST, OPTIONS''),
     (''Access-Control-Allow-Headers'', ''Authorization, Content-Type'')]"

definition Cors :: "string \<Rightarrow> http_request \<Rightarrow> (api_state \<Rightarrow> http_response \<times> api_state) \<Rightarrow> api_state \<Rightarrow> http_response \<times> api_state" where
  "Cors origin rq next_handler st =
     (if rq_Method rq = ''OPTIONS''
      then (\<lparr>rs_Status = 204, rs_Headers = cors_headers origin, rs_Body = None\<rparr>, st)
      else (case next_handler st of (rs, st1) \<Rightarrow> (rs\<lparr>rs_Headers := cors_headers origin @ rs_Headers rs\<rparr>, st1)))"

text \<open>The user \<^verbatim>\<open>Auth\<close> records for the log line, when the request reaches it.\<close>

definition protected_endpoint :: "endpoint \<Rightarrow> bool" where
  "protected_endpoint e = (e \<in> {RacesCreate, RacesList, RaceJoin, RaceStart, RaceText, RaceStatus, LeaderboardMe, LeaderboardTop})"

definition logged_user :: "api \<Rightarrow> http_request \<Rightarrow> api_state \<Rightarrow> user_id option" where
  "logged_user api rq st =
     (if rq_Method rq = ''OPTIONS'' then None
      else (case mux_Handler (RegisterRoutes (a_PprofEnabled api)) (rq_Method rq) (rq_Path rq) of
          Inl _ \<Rightarrow> None
        | Inr e \<Rightarrow> if protected_endpoint e then Auth_user (a_parse api) (as_now st) (rq_Authorization rq) else None))"

definition RequestLog :: "api \<Rightarrow> http_request \<Rightarrow> string \<Rightarrow> (api_state \<Rightarrow> http_response \<times> api_state) \<Rightarrow> api_state \<Rightarrow>
    http_response \<times> api_state" where
  "RequestLog api rq request_id next_handler st =
     (case next_handler st of (rs, st1) \<Rightarrow>
       (rs, st1\<lparr>as_log := as_log st1 @ [\<lparr>hl_method = rq_Method rq, hl_path = rq_Path rq, hl_status = rs_Status rs,
          hl_request_id = request_id, hl_user_id = logged_user api rq st\<rparr>]\<rparr>))"

definition hex_digit :: "nat \<Rightarrow> char" where
  "hex_digit n = (if n < 10 then char_of (48 + n) else char_of (87 + n))"

text \<open>Bytes the random source does not give stay zero.\<close>

fun random_bytes :: "nat \<Rightarrow> db \<Rightarrow> nat list \<times> db" where
  "random_bytes 0 s = ([], s)"
| "random_bytes (Suc n) s =
     (let b = (case rand_src s (rand_pos s) of None \<Rightarrow> 0 | Some x \<Rightarrow> x mod 256);
          (bs, s1) = random_bytes n (s\<lparr>rand_pos := Suc (rand_pos s)\<rparr>)
      in (b # bs, s1))"

definition generateRequestID :: "db \<Rightarrow> string \<times> db" where
  "generateRequestID s = (case random_bytes 16 s of (bs, s1) \<Rightarrow>
     (concat (map (\<lambda>b. [hex_digit (b div 16), hex_digit (b mod 16)]) bs), s1))"

definition RequestID :: "(string \<Rightarrow> api_state \<Rightarrow> http_response \<times> api_state) \<Rightarrow> api_state \<Rightarrow> http_response \<times> api_state" where
  "RequestID next_handler st =
     (case generateRequestID (as_db st) of (i, s) \<Rightarrow>
       (case next_handler i (st\<lparr>as_db := s\<rparr>) of (rs, st1) \<Rightarrow>
         (rs\<lparr>rs_Headers := (''X-Request-ID'', i) # rs_Headers rs\<rparr>, st1)))"

text \<open>The handler of the server, from the outermost layer in.\<close>

definition server_handler :: "api \<Rightarrow> bool \<Rightarrow> http_request \<Rightarrow> api_state \<Rightarrow> http_response \<times> api_state" where
  "server_handler api ctx rq =
     RequestID (\<lambda>i. RequestLog api rq i (Cors (a_origin api) rq (serve_mux api ctx rq)))"

end
