(* ===== verification/Request_Log.thy ===== *)
theory Request_Log
  imports Http_Api
begin

text \<open>
  The request log as it is written in \<^verbatim>\<open>internal/middleware/requestlog.go\<close>: a wrapper around
  the response writer that remembers the status (\<^verbatim>\<open>statusWriter\<close>), and a cell in the context that
  \<^verbatim>\<open>Auth\<close> fills (\<^verbatim>\<open>requestLogAttrs\<close>, \<^verbatim>\<open>setUserIDForLog\<close>). A handler is the sequence of
  its calls on the writer; the lemmas show that for the replies of \<open>Http_Api\<close> the line is the one
  that \<open>RequestLog\<close> records there.
\<close>

section \<open>Response writers\<close>

text \<open>The writer of net/http: the first status counts, a body without one means 200. Whether it is an
  \<^verbatim>\<open>http.Hijacker\<close> depends on the server.\<close>

record net_writer =
  nw_status :: "nat option"
  nw_body :: "json option list"
  nw_hijacker :: bool
  nw_hijacked :: bool

definition net_WriteHeader :: "nat \<Rightarrow> net_writer \<Rightarrow> net_writer" where
  "net_WriteHeader n w = (if nw_status w = None then w\<lparr>nw_status := Some n\<rparr> else w)"

definition net_Write :: "json option \<Rightarrow> net_writer \<Rightarrow> net_writer" where
  "net_Write b w = (net_WriteHeader 200 w)\<lparr>nw_body := nw_body w @ [b]\<rparr>"

record statusWriter =
  sw_ResponseWriter :: net_writer
  sw_status :: nat

definition sw_WriteHeader :: "nat \<Rightarrow> statusWriter \<Rightarrow> statusWriter" where
  "sw_WriteHeader n sw = sw\<lparr>sw_status := n, sw_ResponseWriter := net_WriteHeader n (sw_ResponseWriter sw)\<rparr>"

definition sw_Hijack :: "statusWriter \<Rightarrow> go_error option \<times> statusWriter" where
  "sw_Hijack sw =
     (if \<not> nw_hijacker (sw_ResponseWriter sw) then (Some (ErrOther ''underlying ResponseWriter does not implement http.Hijacker''), sw)
      else (None, sw\<lparr>sw_ResponseWriter := (sw_ResponseWriter sw)\<lparr>nw_hijacked := True\<rparr>\<rparr>))"

section \<open>The cell in the context\<close>

text \<open>\<^verbatim>\<open>None\<close>: no \<^verbatim>\<open>RequestLog\<close> is around the handler.\<close>

type_synonym requestLogAttrs = "user_id option"

definition setUserIDForLog :: "user_id \<Rightarrow> requestLogAttrs \<Rightarrow> requestLogAttrs" where
  "setUserIDForLog u cell = (case cell of None \<Rightarrow> None | Some _ \<Rightarrow> Some u)"

datatype writer_call = WriteHeader nat | Write "json option" | Hijack | Authenticated user_id

fun handler_call :: "writer_call \<Rightarrow> statusWriter \<times> requestLogAttrs \<Rightarrow> statusWriter \<times> requestLogAttrs" where
  "handler_call (WriteHeader n) (sw, cell) = (sw_WriteHeader n sw, cell)"
| "handler_call (Write b) (sw, cell) = (sw\<lparr>sw_ResponseWriter := net_Write b (sw_ResponseWriter sw)\<rparr>, cell)"
| "handler_call Hijack (sw, cell) = (snd (sw_Hijack sw), cell)"
| "handler_call (Authenticated u) (sw, cell) = (sw, setUserIDForLog u cell)"

text \<open>\<^verbatim>\<open>RequestLog\<close>'s own frame: what goes to the client, and the status and the user of the line.\<close>

definition RequestLog_frame :: "bool \<Rightarrow> writer_call list \<Rightarrow> net_writer \<times> nat \<times> user_id option" where
  "RequestLog_frame hijacker calls =
     (let w = \<lparr>nw_status = None, nw_body = [], nw_hijacker = hijacker, nw_hijacked = False\<rparr>;
          (sw, cell) = fold handler_call calls (\<lparr>sw_ResponseWriter = w, sw_status = 200\<rparr>, Some '''')
      in (sw_ResponseWriter sw, sw_status sw, if cell = Some '''' then None else cell))"

section \<open>The handlers' calls\<close>

text \<open>\<^verbatim>\<open>WriteJSON\<close>, and a reply without a body.\<close>

definition reply_calls :: "http_response \<Rightarrow> writer_call list" where
  "reply_calls rs = WriteHeader (rs_Status rs) # (case rs_Body rs of None \<Rightarrow> [] | Some b \<Rightarrow> [Write (Some b)])"

definition Auth_calls :: "jwt_parser \<Rightarrow> time \<Rightarrow> string \<Rightarrow> http_response \<Rightarrow> writer_call list" where
  "Auth_calls parse now header rs =
     (case Auth_user parse now header of None \<Rightarrow> reply_calls rs | Some u \<Rightarrow> Authenticated u # reply_calls rs)"

definition request_calls :: "api \<Rightarrow> http_request \<Rightarrow> api_state \<Rightarrow> http_response \<Rightarrow> writer_call list" where
  "request_calls api rq st rs =
     (if rq_Method rq = ''OPTIONS'' then [WriteHeader 204]
      else (case mux_Handler (RegisterRoutes (a_PprofEnabled api)) (rq_Method rq) (rq_Path rq) of
          Inl _ \<Rightarrow> reply_calls rs
        | Inr e \<Rightarrow> if protected_endpoint e then Auth_calls (a_parse api) (as_now st) (rq_Authorization rq) rs else reply_calls rs))"

lemma Auth_user_nonempty: "Auth_user parse now header = Some u \<Longrightarrow> u \<noteq> ''''"
  by (auto simp: Auth_user_def Let_def split: if_splits sum.splits option.splits)

lemma frame_reply:
  "RequestLog_frame h (reply_calls rs) = (fst (RequestLog_frame h (reply_calls rs)), rs_Status rs, None)"
  "nw_status (fst (RequestLog_frame h (reply_calls rs))) = Some (rs_Status rs)"
  "u \<noteq> '''' \<Longrightarrow> RequestLog_frame h (Authenticated u # reply_calls rs) = (fst (RequestLog_frame h (reply_calls rs)), rs_Status rs, Some u)"
  by (auto simp: RequestLog_frame_def reply_calls_def sw_WriteHeader_def net_WriteHeader_def net_Write_def setUserIDForLog_def
      Let_def split: option.split)

text \<open>The status and the user in the line are those \<open>RequestLog\<close> of \<open>Http_Api\<close> records, and the
  status is the one the client gets.\<close>

lemma request_log_line:
  assumes "rq_Method rq = ''OPTIONS'' \<longrightarrow> rs_Status rs = 204"
    and "next_handler st = (rs, st1)" "RequestLog api rq request_id next_handler st = (rs', st')"
    and "RequestLog_frame h (request_calls api rq st rs) = (w, status, user)"
  shows "rs' = rs \<and> nw_status w = Some status \<and> \<not> nw_hijacked w
    \<and> as_log st' = as_log st1 @ [\<lparr>hl_method = rq_Method rq, hl_path = rq_Path rq, hl_status = status,
         hl_request_id = request_id, hl_user_id = user\<rparr>]"
proof -
  have hij: "\<not> nw_hijacked (fst (RequestLog_frame h (reply_calls rs)))"
    by (auto simp: RequestLog_frame_def reply_calls_def sw_WriteHeader_def net_WriteHeader_def net_Write_def Let_def split: option.split)
  have "status = rs_Status rs \<and> user = logged_user api rq st \<and> nw_status w = Some status \<and> \<not> nw_hijacked w"
  proof (cases "rq_Method rq = ''OPTIONS''")
    case True
    with assms(1,4) show ?thesis
      by (auto simp: request_calls_def logged_user_def RequestLog_frame_def sw_WriteHeader_def net_WriteHeader_def)
  next
    case False
    show ?thesis
    proof (cases "\<exists>e. mux_Handler (RegisterRoutes (a_PprofEnabled api)) (rq_Method rq) (rq_Path rq) = Inr e \<and> protected_endpoint e")
      case True
      then obtain e where e: "mux_Handler (RegisterRoutes (a_PprofEnabled api)) (rq_Method rq) (rq_Path rq) = Inr e" "protected_endpoint e"
        by blast
      show ?thesis
      proof (cases "Auth_user (a_parse api) (as_now st) (rq_Authorization rq)")
        case None
        with False e assms(4) frame_reply(1,2) [of h rs] hij show ?thesis by (auto simp: request_calls_def logged_user_def Auth_calls_def)
      next
        case (Some u)
        with False e assms(4) frame_reply(2) [of h rs] frame_reply(3) [OF Auth_user_nonempty [OF Some], of h rs] hij
        show ?thesis by (auto simp: request_calls_def logged_user_def Auth_calls_def)
      qed
    next
      case False
      with \<open>rq_Method rq \<noteq> ''OPTIONS''\<close> assms(4) frame_reply(1,2) [of h rs] hij show ?thesis
        by (auto simp: request_calls_def logged_user_def split: sum.splits if_splits)
    qed
  qed
  with assms(2,3) show ?thesis by (auto simp: RequestLog_def)
qed

text \<open>A handler that writes a body without a status is logged with 200; one that sets the status twice
  would be logged with the second, while the client gets the first; a hijacked connection is logged
  with 200.\<close>

lemma status_writer_corners:
  "fst (snd (RequestLog_frame h [Write b])) = 200"
  "nw_status (fst (RequestLog_frame h [WriteHeader m, WriteHeader n])) = Some m"
  "fst (snd (RequestLog_frame h [WriteHeader m, WriteHeader n])) = n"
  "fst (snd (RequestLog_frame True [Hijack])) = 200" "nw_hijacked (fst (RequestLog_frame True [Hijack]))"
  by (simp_all add: RequestLog_frame_def sw_WriteHeader_def net_WriteHeader_def net_Write_def sw_Hijack_def)

end
