(* ===== verification/Kafka_Producer.thy ===== *)
theory Kafka_Producer
  imports Event_Log "HOL-Library.Sublist"
begin

text \<open>
  The producer of the event log (\<^verbatim>\<open>NewProducer\<close> and \<^verbatim>\<open>Close\<close> in
  \<^verbatim>\<open>internal/kafka/producer.go\<close>) over kafka-go's writer. The writer does what kafka-go
  documents of an asynchronous one: \<^verbatim>\<open>WriteMessages\<close> hands a message to the queue of the
  partition its balancer chooses and returns, unless it fails at once; each queue is sent in batches,
  one after the other; a batch that is tried again may be in the log more than once; the error of a
  batch goes to the error logger; \<^verbatim>\<open>Close\<close> waits until all queues are empty. The hash function
  and the number of partitions of a topic are parameters.
\<close>

section \<open>The writer\<close>

datatype balancer = Hash | RoundRobin

record writer_config =
  wc_Addr :: "string list"
  wc_Balancer :: balancer
  wc_Async :: bool
  wc_AllowAutoTopicCreation :: bool
  wc_ErrorLogger :: bool

definition NewProducer :: "string list \<Rightarrow> writer_config" where
  "NewProducer brokers = \<lparr>wc_Addr = brokers, wc_Balancer = Hash, wc_Async = True, wc_AllowAutoTopicCreation = True,
     wc_ErrorLogger = True\<rparr>"

type_synonym partition = "string \<times> nat"

text \<open>\<open>kp_sent\<close>: per partition the batches that were sent, each with the number of times it is in
  the log. \<open>kp_accepted\<close> records what \<^verbatim>\<open>WriteMessages\<close> took, in order; nothing reads it.\<close>

record kafka_producer =
  kp_cfg :: writer_config
  kp_turn :: nat
  kp_queue :: "partition \<Rightarrow> kafka_message list"
  kp_sent :: "partition \<Rightarrow> (kafka_message list \<times> nat) list"
  kp_closing :: bool
  kp_closed :: bool
  kp_errors :: "string list"
  kp_accepted :: "kafka_message list"

definition start_producer :: "string list \<Rightarrow> kafka_producer" where
  "start_producer brokers = \<lparr>kp_cfg = NewProducer brokers, kp_turn = 0, kp_queue = (\<lambda>_. []), kp_sent = (\<lambda>_. []), kp_closing = False,
     kp_closed = False, kp_errors = [], kp_accepted = []\<rparr>"

definition balance :: "(string \<Rightarrow> nat) \<Rightarrow> (string \<Rightarrow> nat) \<Rightarrow> kafka_producer \<Rightarrow> kafka_message \<Rightarrow> partition" where
  "balance hash parts s m =
     (km_Topic m, (case wc_Balancer (kp_cfg s) of Hash \<Rightarrow> hash (km_Key m) | RoundRobin \<Rightarrow> kp_turn s) mod parts (km_Topic m))"

text \<open>\<open>err\<close> is an error that \<^verbatim>\<open>WriteMessages\<close> reports at once (a message that is too large, a
  topic whose partitions cannot be looked up).\<close>

definition WriteMessages :: "(string \<Rightarrow> nat) \<Rightarrow> (string \<Rightarrow> nat) \<Rightarrow> go_error option \<Rightarrow> kafka_producer writer" where
  "WriteMessages hash parts err ctx m s =
     (if kp_closing s then (Some (ErrOther ''io: read/write on closed pipe''), s)
      else case err of
        Some e \<Rightarrow> (Some e, s)
      | None \<Rightarrow>
          let tp = balance hash parts s m in
          (None, s\<lparr>kp_queue := (kp_queue s)(tp := kp_queue s tp @ [m]), kp_turn := Suc (kp_turn s),
                   kp_accepted := kp_accepted s @ [m]\<rparr>))"

text \<open>The first \<open>n\<close> messages of a queue go out as one batch: in the log \<open>copies\<close> times, and with
  an error or without. Without an error it is there at least once.\<close>

definition Printf :: "string \<Rightarrow> kafka_producer \<Rightarrow> kafka_producer" where
  "Printf line s = (if wc_ErrorLogger (kp_cfg s) then s\<lparr>kp_errors := kp_errors s @ [line]\<rparr> else s)"

definition send_batch :: "partition \<Rightarrow> nat \<Rightarrow> nat \<Rightarrow> string option \<Rightarrow> kafka_producer \<Rightarrow> kafka_producer" where
  "send_batch tp n copies err s =
     (let s1 = s\<lparr>kp_queue := (kp_queue s)(tp := drop n (kp_queue s tp)),
                 kp_sent := (kp_sent s)(tp := kp_sent s tp @ [(take n (kp_queue s tp), copies)])\<rparr>
      in case err of None \<Rightarrow> s1 | Some line \<Rightarrow> Printf line s1)"

definition Close_begin :: "kafka_producer \<Rightarrow> kafka_producer" where
  "Close_begin s = s\<lparr>kp_closing := True\<rparr>"

definition Close_return :: "kafka_producer \<Rightarrow> kafka_producer" where
  "Close_return s = s\<lparr>kp_closed := True\<rparr>"

inductive producer_step :: "(string \<Rightarrow> nat) \<Rightarrow> (string \<Rightarrow> nat) \<Rightarrow> kafka_producer \<Rightarrow> kafka_producer \<Rightarrow> bool"
  for hash :: "string \<Rightarrow> nat" and parts :: "string \<Rightarrow> nat" where
  accept: "producer_step hash parts s (snd (WriteMessages hash parts err ctx m s))"
| batch: "kp_queue s tp \<noteq> [] \<Longrightarrow> 0 < n \<Longrightarrow> (err = None \<Longrightarrow> 0 < copies) \<Longrightarrow>
    producer_step hash parts s (send_batch tp n copies err s)"
| close: "producer_step hash parts s (Close_begin s)"
| closed: "kp_closing s \<Longrightarrow> \<forall>tp. kp_queue s tp = [] \<Longrightarrow> producer_step hash parts s (Close_return s)"

inductive reachable_producer :: "(string \<Rightarrow> nat) \<Rightarrow> (string \<Rightarrow> nat) \<Rightarrow> kafka_producer \<Rightarrow> bool"
  for hash :: "string \<Rightarrow> nat" and parts :: "string \<Rightarrow> nat" where
  start: "reachable_producer hash parts (start_producer brokers)"
| step: "reachable_producer hash parts s \<Longrightarrow> producer_step hash parts s s' \<Longrightarrow> reachable_producer hash parts s'"

section \<open>The log\<close>

definition written :: "kafka_message list \<times> nat \<Rightarrow> kafka_message list" where
  "written b = concat (replicate (snd b) (fst b))"

definition partition_log :: "kafka_producer \<Rightarrow> partition \<Rightarrow> kafka_message list" where
  "partition_log s tp = concat (map written (kp_sent s tp))"

definition of_race :: "string \<Rightarrow> race_id \<Rightarrow> kafka_message \<Rightarrow> bool" where
  "of_race t i m \<longleftrightarrow> km_Topic m = t \<and> km_Key m = i"

text \<open>The partition of a message by its key.\<close>

definition key_partition :: "(string \<Rightarrow> nat) \<Rightarrow> (string \<Rightarrow> nat) \<Rightarrow> kafka_message \<Rightarrow> partition" where
  "key_partition hash parts m = (km_Topic m, hash (km_Key m) mod parts (km_Topic m))"

definition producer_ok :: "(string \<Rightarrow> nat) \<Rightarrow> (string \<Rightarrow> nat) \<Rightarrow> kafka_producer \<Rightarrow> bool" where
  "producer_ok hash parts s \<longleftrightarrow> wc_Balancer (kp_cfg s) = Hash \<and> wc_ErrorLogger (kp_cfg s)
     \<and> (\<forall>tp. concat (map fst (kp_sent s tp)) @ kp_queue s tp = filter (\<lambda>m. key_partition hash parts m = tp) (kp_accepted s))
     \<and> (kp_errors s = [] \<longrightarrow> (\<forall>tp. list_all (\<lambda>b. 0 < snd b) (kp_sent s tp)))
     \<and> (kp_closed s \<longrightarrow> kp_closing s \<and> (\<forall>tp. kp_queue s tp = []))"

lemma WriteMessages_ok: "producer_ok hash parts s \<Longrightarrow> producer_ok hash parts (snd (WriteMessages hash parts err ctx m s))"
  by (auto simp: producer_ok_def WriteMessages_def Let_def balance_def key_partition_def split: option.split)

lemma send_batch_ok:
  assumes "producer_ok hash parts s" "err = None \<Longrightarrow> 0 < copies"
  shows "producer_ok hash parts (send_batch tp n copies err s)"
proof -
  have "concat (map fst (kp_sent s tp)) @ take n (kp_queue s tp) @ drop n (kp_queue s tp)
      = filter (\<lambda>m. key_partition hash parts m = tp) (kp_accepted s)"
    using assms(1) unfolding producer_ok_def by (cases tp) simp
  with assms show ?thesis
    by (cases err) (auto simp: producer_ok_def send_batch_def Printf_def Let_def)
qed

lemma producer_step_ok: "producer_step hash parts s s' \<Longrightarrow> producer_ok hash parts s \<Longrightarrow> producer_ok hash parts s'"
proof (induction rule: producer_step.induct)
  case (accept s err ctx m)
  then show ?case by (rule WriteMessages_ok)
next
  case (batch s tp n err copies)
  then show ?case by (blast intro: send_batch_ok)
qed (auto simp: producer_ok_def Close_begin_def Close_return_def)

lemma reachable_producer_ok: "reachable_producer hash parts s \<Longrightarrow> producer_ok hash parts s"
proof (induction rule: reachable_producer.induct)
  case (start brokers)
  show ?case by (simp add: producer_ok_def start_producer_def NewProducer_def)
qed (rule producer_step_ok)

lemma filter_written: "filter P (written b) = written (filter P (fst b), snd b)"
  by (simp add: written_def filter_concat map_replicate_const)

lemma filter_written_all: "filter P (concat (map written bs)) = concat (map written (map (\<lambda>b. (filter P (fst b), snd b)) bs))"
  by (induction bs) (simp_all add: filter_written)

lemma race_partition: "of_race t i m \<Longrightarrow> key_partition hash parts m = (t, hash i mod parts t)"
  by (simp add: of_race_def key_partition_def)

lemma race_filter:
  "filter (of_race t i) (filter (\<lambda>m. key_partition hash parts m = tp) ms)
     = (if tp = (t, hash i mod parts t) then filter (of_race t i) ms else [])"
  using race_partition [of t i _ hash parts] by (auto simp: filter_empty_conv intro: filter_cong)

lemma race_blocks:
  assumes "producer_ok hash parts s"
  shows "concat (map fst (map (\<lambda>b. (filter (of_race t i) (fst b), snd b)) (kp_sent s tp))) @ filter (of_race t i) (kp_queue s tp)
    = (if tp = (t, hash i mod parts t) then filter (of_race t i) (kp_accepted s) else [])"
proof -
  have "concat (map fst (kp_sent s tp)) @ kp_queue s tp = filter (\<lambda>m. key_partition hash parts m = tp) (kp_accepted s)"
    using assms unfolding producer_ok_def by (cases tp) simp
  then have "filter (of_race t i) (concat (map fst (kp_sent s tp))) @ filter (of_race t i) (kp_queue s tp)
      = (if tp = (t, hash i mod parts t) then filter (of_race t i) (kp_accepted s) else [])"
    by (metis filter_append race_filter)
  then show ?thesis by (simp add: filter_concat comp_def)
qed

lemma set_written: "set (written b) = (if snd b = 0 then {} else set (fst b))"
  by (auto simp: written_def)

section \<open>Closing\<close>

lemma busy_partitions_finite:
  assumes "producer_ok hash parts s"
  shows "finite {tp. kp_queue s tp \<noteq> []}"
proof (rule finite_subset)
  show "{tp. kp_queue s tp \<noteq> []} \<subseteq> key_partition hash parts ` set (kp_accepted s)"
  proof
    fix tp assume "tp \<in> {tp. kp_queue s tp \<noteq> []}"
    then obtain m where "m \<in> set (kp_queue s tp)" by (cases "kp_queue s tp") auto
    moreover have "set (kp_queue s tp) \<subseteq> set (filter (\<lambda>m. key_partition hash parts m = tp) (kp_accepted s))"
      using assms unfolding producer_ok_def by (metis Un_upper2 set_append)
    ultimately show "tp \<in> key_partition hash parts ` set (kp_accepted s)" by force
  qed
qed simp

lemma close_drains:
  assumes "finite A" "{tp. kp_queue s tp \<noteq> []} = A" "kp_closing s"
  shows "\<exists>s'. (producer_step hash parts)\<^sup>*\<^sup>* s s' \<and> kp_closed s' \<and> kp_errors s' = kp_errors s"
  using assms
proof (induction A arbitrary: s rule: finite_induct)
  case empty
  then have "producer_step hash parts s (Close_return s)" by (intro producer_step.closed) auto
  then show ?case by (intro exI [of _ "Close_return s"]) (auto simp: Close_return_def)
next
  case (insert tp A)
  let ?s = "send_batch tp (length (kp_queue s tp)) 1 None s"
  have "kp_queue s tp \<noteq> []" using insert.prems(1) by auto
  then have step: "producer_step hash parts s ?s" by (intro producer_step.batch) auto
  have "{tp. kp_queue ?s tp \<noteq> []} = A" "kp_closing ?s" "kp_errors ?s = kp_errors s"
    using insert.hyps(2) insert.prems by (auto simp: send_batch_def)
  with insert.IH [of ?s] step show ?case by (metis converse_rtranclp_into_rtranclp)
qed

section \<open>Properties\<close>


definition demo_message :: kafka_message where
  "demo_message = \<lparr>km_Topic = TopicRaceFinished, km_Offset = 0, km_Key = ''r1'', km_Value = None\<rparr>"

definition demo_producer :: kafka_producer where
  "demo_producer = Close_return (Close_begin (send_batch (TopicRaceFinished, 1) 1 2 None
     (snd (WriteMessages (\<lambda>_. 7) (\<lambda>_. 3) None False demo_message (start_producer [''kafka:9092''])))))"

lemmas demo_producer_simps = demo_message_def start_producer_def NewProducer_def WriteMessages_def balance_def Let_def
  send_batch_def Close_begin_def Close_return_def

lemma demo_producer_reachable: "reachable_producer (\<lambda>_. 7) (\<lambda>_. 3) demo_producer"
proof -
  let ?h = "\<lambda>_ :: string. 7 :: nat" and ?p = "\<lambda>_ :: string. 3 :: nat"
  let ?s1 = "snd (WriteMessages ?h ?p None False demo_message (start_producer [''kafka:9092'']))"
  let ?s2 = "send_batch (TopicRaceFinished, 1) 1 2 None ?s1"
  have "producer_step ?h ?p ?s1 ?s2"
    by (rule producer_step.batch) (simp_all add: demo_producer_simps)
  moreover have "producer_step ?h ?p (Close_begin ?s2) demo_producer" unfolding demo_producer_def
    by (rule producer_step.closed) (simp_all add: demo_producer_simps)
  ultimately show ?thesis
    by (meson reachable_producer.intros producer_step.accept producer_step.close)
qed


end
