(* ===== verification/Room_Query.thy ===== *)
theory Room_Query
  imports Room_Run
begin

text \<open>
  The synchronous query of a room, \<^verbatim>\<open>RoomActor.IsEvicted\<close> in \<^verbatim>\<open>internal/room/room.go\<close>: a
  goroutine that puts a question with its own reply channel into the inbox and waits for the answer
  or for the end of the room, beside the room and all the other goroutines of \<open>Room_Run\<close>.
\<close>

section \<open>The caller\<close>

datatype query_phase = QueryOffering | QueryWaiting | QueryAnswered bool

record 'w query_run =
  qr_room :: "'w room_run"
  qr_phase :: query_phase

text \<open>The two selects. When several cases are ready either may be taken.\<close>

definition query_send :: "user_id \<Rightarrow> nat \<Rightarrow> 'w query_run \<Rightarrow> 'w query_run" where
  "query_send u c q = q\<lparr>qr_room := (qr_room q)\<lparr>actor := (actor (qr_room q))\<lparr>inbox := inbox (actor (qr_room q)) @ [evictionQuery u c]\<rparr>\<rparr>,
     qr_phase := QueryWaiting\<rparr>"

definition query_return :: "bool \<Rightarrow> 'w query_run \<Rightarrow> 'w query_run" where
  "query_return b q = q\<lparr>qr_phase := QueryAnswered b\<rparr>"

text \<open>The channel is made for this call: nobody else offers a question with it.\<close>

inductive query_step :: "'w room_deps \<Rightarrow> ('w \<Rightarrow> 'w \<Rightarrow> bool) \<Rightarrow> user_id \<Rightarrow> nat \<Rightarrow> 'w query_run \<Rightarrow> 'w query_run \<Rightarrow> bool"
  for d :: "'w room_deps" and env :: "'w \<Rightarrow> 'w \<Rightarrow> bool" and u :: user_id and c :: nat where
  room: "run_step d env (qr_room q) s \<Longrightarrow> \<forall>v. evictionQuery v c \<notin> set (senders s) \<Longrightarrow> query_step d env u c q (q\<lparr>qr_room := s\<rparr>)"
| send: "qr_phase q = QueryOffering \<Longrightarrow> length (inbox (actor (qr_room q))) < inboxCapacity \<Longrightarrow>
    query_step d env u c q (query_send u c q)"
| refused: "qr_phase q = QueryOffering \<Longrightarrow> cancelled (actor (qr_room q)) \<Longrightarrow> query_step d env u c q (query_return False q)"
| answer: "qr_phase q = QueryWaiting \<Longrightarrow> (c, b) \<in> set (replies (actor (qr_room q))) \<Longrightarrow> query_step d env u c q (query_return b q)"
| gone: "qr_phase q = QueryWaiting \<Longrightarrow> cancelled (actor (qr_room q)) \<Longrightarrow> query_step d env u c q (query_return False q)"

section \<open>What the room does meanwhile\<close>

lemma checkRaceFinished_fields [simp]:
  "evicted (fst (checkRaceFinished d (r, w))) = evicted r" "replies (fst (checkRaceFinished d (r, w))) = replies r"
  using checkRaceFinished_end_ok [of r d w] by (auto simp: end_ok_def ends_only_fields)

lemma broadcastSnapshot_fields [simp]:
  "evicted (fst (broadcastSnapshot d (r, w))) = evicted r" "replies (fst (broadcastSnapshot d (r, w))) = replies r"
  using broadcastSnapshot_end_ok [of r d w] by (auto simp: end_ok_def ends_only_fields)

lemma expirePendingRoom_fields [simp]:
  "evicted (fst (expirePendingRoom d (r, w))) = evicted r" "replies (fst (expirePendingRoom d (r, w))) = replies r"
  using expirePendingRoom_end_ok [of r d w] by (auto simp: end_ok_def ends_only_fields)

lemmas query_simps = Let_def case_prod_unfold AfterFunc_def departParticipant_def setParticipant_def StopTimer_def
  broadcastRaceStarted_def sendBroadcast_def

lemma applyEvent_evicted: "evicted r \<subseteq> evicted (fst (applyEvent d ev (r, w)))"
  by (cases ev) (auto simp: query_simps split: option.split)

lemma applyEvent_replies:
  "replies (fst (applyEvent d ev (r, w))) = replies r @
     (case ev of evictionQuery u c \<Rightarrow> if c \<in> fst ` set (replies r) then [] else [(c, u \<in> evicted r)] | _ \<Rightarrow> [])"
  by (cases ev) (auto simp: query_simps split: option.split)

section \<open>What is asked and what is answered\<close>

definition asks :: "nat \<Rightarrow> room_event \<Rightarrow> bool" where
  "asks c ev = (case ev of evictionQuery v k \<Rightarrow> k = c | _ \<Rightarrow> False)"

text \<open>\<open>e\<close>: the user had been evicted when the call began.\<close>

definition query_ok :: "bool \<Rightarrow> user_id \<Rightarrow> nat \<Rightarrow> 'w query_run \<Rightarrow> bool" where
  "query_ok e u c q \<longleftrightarrow> (let r = actor (qr_room q) in
     (\<not> running (qr_room q) \<longrightarrow> cancelled r) \<and> (e \<longrightarrow> u \<in> evicted r) \<and> (\<forall>ev \<in> set (senders (qr_room q)). \<not> asks c ev)
     \<and> (\<forall>b. (c, b) \<in> set (replies r) \<longrightarrow> (b \<longrightarrow> u \<in> evicted r) \<and> (e \<longrightarrow> b))
     \<and> (\<forall>ev \<in> set (inbox r). asks c ev \<longrightarrow> ev = evictionQuery u c)
     \<and> (case qr_phase q of
          QueryOffering \<Rightarrow> True
        | QueryWaiting \<Rightarrow> c \<in> fst ` set (replies r) \<or> evictionQuery u c \<in> set (inbox r)
        | QueryAnswered b \<Rightarrow> (b \<longrightarrow> u \<in> evicted r) \<and> (e \<and> \<not> b \<longrightarrow> cancelled r)))"

lemma asks_iff: "asks c ev \<longleftrightarrow> (\<exists>v. ev = evictionQuery v c)"
  by (cases ev) (auto simp: asks_def)

text \<open>One step of the room.\<close>

definition room_moves :: "nat \<Rightarrow> 'w room_run \<Rightarrow> 'w room_run \<Rightarrow> bool" where
  "room_moves c s t \<longleftrightarrow> evicted (actor s) \<subseteq> evicted (actor t) \<and> (cancelled (actor s) \<longrightarrow> cancelled (actor t))
     \<and> (\<not> running t \<longrightarrow> \<not> running s \<or> cancelled (actor t))
     \<and> (replies (actor t) = replies (actor s) \<and> set (inbox (actor s)) \<subseteq> set (inbox (actor t))
          \<and> set (inbox (actor t)) \<subseteq> set (inbox (actor s)) \<union> set (senders s)
        \<or> (\<exists>ev rest. inbox (actor s) = ev # rest \<and> inbox (actor t) = rest
          \<and> replies (actor t) = replies (actor s) @ (case ev of
               evictionQuery v k \<Rightarrow> if k \<in> fst ` set (replies (actor s)) then [] else [(k, v \<in> evicted (actor s))] | _ \<Rightarrow> [])))"

lemma run_step_moves:
  assumes "run_step d env s t"
  shows "room_moves c s t"
proof -
  have "cancelled (actor s) \<longrightarrow> cancelled (actor t)" using run_step_cancelled [OF assms] by blast
  with assms show ?thesis
  proof (induction rule: run_step.induct)
    case (receive s ev rest)
    obtain r w where a: "applyEvent d ev ((actor s)\<lparr>inbox := rest\<rparr>, world s) = (r, w)" by fastforce
    have "inbox r = rest" "evicted (actor s) \<subseteq> evicted r"
      using applyEvent_inbox [of d ev "(actor s)\<lparr>inbox := rest\<rparr>" "world s"]
        applyEvent_evicted [of "(actor s)\<lparr>inbox := rest\<rparr>" d ev "world s"] a by simp_all
    moreover have "replies r = replies (actor s) @ (case ev of
         evictionQuery v k \<Rightarrow> if k \<in> fst ` set (replies (actor s)) then [] else [(k, v \<in> evicted (actor s))] | _ \<Rightarrow> [])"
      using applyEvent_replies [of d ev "(actor s)\<lparr>inbox := rest\<rparr>" "world s", unfolded a fst_conv]
      by (simp split: room_event.split)
    ultimately show ?case using receive by (simp add: room_moves_def Run_receive_def a)
  next
    case (tick s)
    then show ?case by (simp add: room_moves_def Run_tick_def case_prod_unfold Let_def)
  qed (auto simp: room_moves_def run_defs)
qed

lemma query_ok_room:
  assumes "query_ok e u c q" "room_moves c (qr_room q) s" "\<forall>ev \<in> set (senders s). \<not> asks c ev"
  shows "query_ok e u c (q\<lparr>qr_room := s\<rparr>)"
proof -
  let ?r = "actor (qr_room q)" and ?t = "actor s"
  note ok = assms(1) [unfolded query_ok_def Let_def]
  note mv = assms(2) [unfolded room_moves_def]
  have grow: "evicted ?r \<subseteq> evicted ?t" "cancelled ?r \<longrightarrow> cancelled ?t" "\<not> running s \<longrightarrow> cancelled ?t"
    using mv ok by blast+
  have inbox: "ev = evictionQuery u c" if "asks c ev" "ev \<in> set (inbox ?t)" for ev
  proof -
    have "ev \<in> set (inbox ?r) \<union> set (senders (qr_room q))" using mv that(2) by auto
    with ok that(1) show ?thesis by blast
  qed
  have replies: "(c, b) \<in> set (replies ?r) \<or> b = (u \<in> evicted ?r)" if "(c, b) \<in> set (replies ?t)" for b
    using mv
  proof (elim conjE disjE exE)
    fix ev rest assume i: "inbox ?r = ev # rest" and r: "replies ?t = replies ?r @ (case ev of
        evictionQuery v k \<Rightarrow> if k \<in> fst ` set (replies ?r) then [] else [(k, v \<in> evicted ?r)] | _ \<Rightarrow> [])"
    have "asks c ev \<longrightarrow> ev = evictionQuery u c" using ok i by simp
    with that r show ?thesis by (cases ev) (auto simp: asks_def split: if_splits)
  qed (use that in simp_all)
  have waits: "c \<in> fst ` set (replies ?t) \<or> evictionQuery u c \<in> set (inbox ?t)"
    if "c \<in> fst ` set (replies ?r) \<or> evictionQuery u c \<in> set (inbox ?r)"
    using mv
  proof (elim conjE disjE exE)
    fix ev rest assume i: "inbox ?r = ev # rest" "inbox ?t = rest" and r: "replies ?t = replies ?r @ (case ev of
        evictionQuery v k \<Rightarrow> if k \<in> fst ` set (replies ?r) then [] else [(k, v \<in> evicted ?r)] | _ \<Rightarrow> [])"
    show ?thesis
    proof (cases "c \<in> fst ` set (replies ?r)")
      case False
      with that i r show ?thesis by (cases "ev = evictionQuery u c") auto
    qed (simp only: r set_append image_Un Un_iff simp_thms)
  qed (use that in auto)
  have old: "(b \<longrightarrow> u \<in> evicted ?r) \<and> (e \<longrightarrow> b)" if "(c, b) \<in> set (replies ?r)" for b using ok that by blast
  have e: "e \<longrightarrow> u \<in> evicted ?r" using ok by blast
  have "\<forall>b. (c, b) \<in> set (replies ?t) \<longrightarrow> (b \<longrightarrow> u \<in> evicted ?t) \<and> (e \<longrightarrow> b)"
    using replies old e grow(1) by blast
  moreover have "case qr_phase q of QueryOffering \<Rightarrow> True
      | QueryWaiting \<Rightarrow> c \<in> fst ` set (replies ?t) \<or> evictionQuery u c \<in> set (inbox ?t)
      | QueryAnswered b \<Rightarrow> (b \<longrightarrow> u \<in> evicted ?t) \<and> (e \<and> \<not> b \<longrightarrow> cancelled ?t)"
  proof (cases "qr_phase q")
    case QueryWaiting
    with ok have "c \<in> fst ` set (replies ?r) \<or> evictionQuery u c \<in> set (inbox ?r)" by simp
    from waits [OF this] QueryWaiting show ?thesis by simp
  next
    case (QueryAnswered b)
    with ok have "(b \<longrightarrow> u \<in> evicted ?r) \<and> (e \<and> \<not> b \<longrightarrow> cancelled ?r)" by simp
    with grow QueryAnswered show ?thesis by auto
  qed simp
  moreover have "e \<longrightarrow> u \<in> evicted ?t" using e grow(1) by blast
  moreover have sel: "qr_room (q\<lparr>qr_room := s\<rparr>) = s" "qr_phase (q\<lparr>qr_room := s\<rparr>) = qr_phase q" by simp_all
  ultimately show ?thesis using grow(3) inbox assms(3)
    unfolding query_ok_def Let_def sel by (intro conjI) blast+
qed

lemma query_ok_step:
  assumes "query_step d env u c q q'" "query_ok e u c q"
  shows "query_ok e u c q'"
  using assms
proof (induction rule: query_step.induct)
  case (room q s)
  show ?case by (rule query_ok_room [OF room.prems run_step_moves [OF room.hyps(1)]]) (use room.hyps(2) in \<open>auto simp: asks_iff\<close>)
qed (auto simp: query_ok_def query_send_def query_return_def asks_iff Let_def)

lemma query_ok_run: "(query_step d env u c)\<^sup>*\<^sup>* q q' \<Longrightarrow> query_ok e u c q \<Longrightarrow> query_ok e u c q'"
  by (induction rule: rtranclp_induct) (auto intro: query_ok_step)

section \<open>The query returns\<close>

lemma query_receive:
  assumes "query_ok e u c q" "running (qr_room q)" "inbox (actor (qr_room q)) = ev # rest"
  shows "query_step d env u c q (q\<lparr>qr_room := Run_receive d ev rest (qr_room q)\<rparr>)"
proof (rule query_step.room)
  show "run_step d env (qr_room q) (Run_receive d ev rest (qr_room q))" by (rule run_step.receive [OF assms(2,3)])
  show "\<forall>v. evictionQuery v c \<notin> set (senders (Run_receive d ev rest (qr_room q)))"
    using assms(1) by (auto simp: query_ok_def Run_receive_def Let_def case_prod_unfold asks_iff)
qed

lemma Run_receive_fields:
  "running (Run_receive d ev rest s) = running s" "inbox (actor (Run_receive d ev rest s)) = rest"
  by (simp_all add: Run_receive_def Let_def case_prod_unfold)

lemma waiting_returns:
  assumes "query_ok e u c q" "qr_phase q = QueryWaiting"
  shows "\<exists>q' b. (query_step d env u c)\<^sup>*\<^sup>* q q' \<and> qr_phase q' = QueryAnswered b"
  using assms
proof (induction "length (inbox (actor (qr_room q)))" arbitrary: q rule: less_induct)
  case less
  let ?r = "actor (qr_room q)"
  have ends: ?case if "query_step d env u c q (query_return b q)" for b
    using that by (intro exI [of _ "query_return b q"]) (auto simp: query_return_def)
  show ?case
  proof (cases "cancelled ?r \<or> c \<in> fst ` set (replies ?r)")
    case True
    then show ?thesis
    proof
      assume "cancelled ?r"
      from ends [OF query_step.gone [OF less.prems(2) this]] show ?thesis .
    next
      assume "c \<in> fst ` set (replies ?r)"
      then obtain b where "(c, b) \<in> set (replies ?r)" by auto
      from ends [OF query_step.answer [OF less.prems(2) this]] show ?thesis .
    qed
  next
    case False
    then have run: "running (qr_room q)" "evictionQuery u c \<in> set (inbox ?r)"
      using less.prems by (auto simp: query_ok_def Let_def)
    then obtain ev rest where i: "inbox ?r = ev # rest" by (cases "inbox ?r") auto
    let ?q = "q\<lparr>qr_room := Run_receive d ev rest (qr_room q)\<rparr>"
    note st = query_receive [OF less.prems(1) run(1) i, of d env]
    obtain q' b where "(query_step d env u c)\<^sup>*\<^sup>* ?q q'" "qr_phase q' = QueryAnswered b"
      using less.hyps [of ?q] query_ok_step [OF st less.prems(1)] less.prems(2) i by (auto simp: Run_receive_fields)
    with st show ?thesis by (meson converse_rtranclp_into_rtranclp)
  qed
qed

text \<open>A call of \<^verbatim>\<open>IsEvicted\<close> on a room that has its invariant, with a channel nobody else has.
  Whatever the room and the others do meanwhile: True means that the user is evicted; a user who was
  evicted when the call began gets True unless the room has been cancelled; and as long as there is
  no answer, the call can go on to one.\<close>

lemma eviction_query_answered:
  assumes "\<not> running (qr_room q) \<longrightarrow> cancelled (actor (qr_room q))" "length (inbox (actor (qr_room q))) \<le> inboxCapacity"
    and "\<forall>ev \<in> set (senders (qr_room q)) \<union> set (inbox (actor (qr_room q))). \<not> asks c ev"
    and "c \<notin> fst ` set (replies (actor (qr_room q)))" "qr_phase q = QueryOffering"
    and "(query_step d env u c)\<^sup>*\<^sup>* q q'"
  shows "(\<forall>b. qr_phase q' = QueryAnswered b \<longrightarrow> (b \<longrightarrow> u \<in> evicted (actor (qr_room q')))
      \<and> (u \<in> evicted (actor (qr_room q)) \<longrightarrow> b \<or> cancelled (actor (qr_room q'))))
    \<and> (qr_phase q' = QueryWaiting \<longrightarrow> (\<exists>q'' b. (query_step d env u c)\<^sup>*\<^sup>* q' q'' \<and> qr_phase q'' = QueryAnswered b))"
proof -
  have "query_ok (u \<in> evicted (actor (qr_room q))) u c q"
    using assms(1,3,4,5) by (auto simp: query_ok_def Let_def image_iff)
  from query_ok_run [OF assms(6) this] have ok: "query_ok (u \<in> evicted (actor (qr_room q))) u c q'" .
  with waiting_returns [OF ok] show ?thesis by (auto simp: query_ok_def Let_def)
qed

end
