(* ===== verification/Race_Hub.thy ===== *)
theory Race_Hub
  imports Protocol "HOL-Library.Sublist"
begin

text \<open>
  The fan-out of a gateway (\<^verbatim>\<open>internal/wsgateway/racehub.go\<close>) and the life of a connection
  (\<^verbatim>\<open>serveConn\<close> and \<^verbatim>\<open>writeLoop\<close> in \<^verbatim>\<open>endpoint.go\<close>). The goroutines of hubs and
  connections, the shared registry of hubs and the bus are one state; a step is one iteration of a
  select loop or one call that holds the registry's mutex. \<open>rh_fanned\<close>, \<open>cn_offered\<close>,
  \<open>cn_dropped\<close>, \<open>cn_written\<close> and \<open>hs_published\<close> record what has happened; no operation reads
  them.
\<close>

section \<open>State\<close>

definition connBufferSize :: nat where
  "connBufferSize = 8"

text \<open>The deferred calls of \<^verbatim>\<open>run\<close> take the hub through \<open>HubClosed\<close> (\<^verbatim>\<open>h.closed\<close> is
  closed) and \<open>HubUnsubscribed\<close> to \<open>HubGone\<close> (\<^verbatim>\<open>onClose\<close> has returned).\<close>

datatype hub_phase = HubRunning | HubClosed | HubUnsubscribed | HubGone

record 'p race_hub =
  rh_race :: race_id
  rh_conns :: "nat list"
  rh_in :: "'p outbound_envelope list"
  rh_phase :: hub_phase
  rh_stop :: bool
  rh_connCount :: nat
  rh_fanned :: "'p option list"

datatype conn_phase = ConnAttached | ConnServing | ConnUnregistered | ConnDetached
datatype writer_phase = Writing | WriterDraining | WriterDone

record 'p conn =
  cn_race :: race_id
  cn_hub :: nat
  cn_phase :: conn_phase
  cn_ch :: "'p option list"
  cn_cancelled :: bool
  cn_reading :: bool
  cn_writer :: writer_phase
  cn_offered :: "'p option list"
  cn_dropped :: nat
  cn_written :: "'p option list"

text \<open>\<^verbatim>\<open>RaceHubRegistry\<close>: per race the hub and the reference count.\<close>

record 'p hub_sys =
  hs_hubs :: "(race_id \<times> (nat \<times> int)) list"
  hs_hub :: "nat \<Rightarrow> 'p race_hub"
  hs_next_hub :: nat
  hs_conn :: "nat \<Rightarrow> 'p conn"
  hs_next_conn :: nat
  hs_published :: "race_id \<Rightarrow> 'p option list"

definition newRaceHub :: "race_id \<Rightarrow> 'p race_hub" where
  "newRaceHub i = \<lparr>rh_race = i, rh_conns = [], rh_in = [], rh_phase = HubRunning, rh_stop = False,
     rh_connCount = 0, rh_fanned = []\<rparr>"

definition new_conn :: "race_id \<Rightarrow> nat \<Rightarrow> 'p conn" where
  "new_conn i h = \<lparr>cn_race = i, cn_hub = h, cn_phase = ConnAttached, cn_ch = [], cn_cancelled = False,
     cn_reading = True, cn_writer = Writing, cn_offered = [], cn_dropped = 0, cn_written = []\<rparr>"

definition NewRaceHubRegistry :: "'p hub_sys" where
  "NewRaceHubRegistry = \<lparr>hs_hubs = [], hs_hub = (\<lambda>_. newRaceHub ''''), hs_next_hub = 0,
     hs_conn = (\<lambda>_. new_conn '''' 0), hs_next_conn = 0, hs_published = (\<lambda>_. [])\<rparr>"

abbreviation upd_hub :: "nat \<Rightarrow> ('p race_hub \<Rightarrow> 'p race_hub) \<Rightarrow> 'p hub_sys \<Rightarrow> 'p hub_sys" where
  "upd_hub h f s \<equiv> s\<lparr>hs_hub := (hs_hub s)(h := f (hs_hub s h))\<rparr>"

abbreviation upd_conn :: "nat \<Rightarrow> ('p conn \<Rightarrow> 'p conn) \<Rightarrow> 'p hub_sys \<Rightarrow> 'p hub_sys" where
  "upd_conn c f s \<equiv> s\<lparr>hs_conn := (hs_conn s)(c := f (hs_conn s c))\<rparr>"

section \<open>The registry of hubs\<close>

text \<open>\<open>sub\<close> is the outcome of \<^verbatim>\<open>SubscribeOut\<close>, consulted on the first attach of a race.\<close>

definition attach :: "go_error option \<Rightarrow> race_id \<Rightarrow> 'p hub_sys \<Rightarrow> (go_error + nat) \<times> 'p hub_sys" where
  "attach sub i s =
     (case mget (hs_hubs s) i of
        Some (h, n) \<Rightarrow> (Inr h, s\<lparr>hs_hubs := mput i (h, n + 1) (hs_hubs s)\<rparr>)
      | None \<Rightarrow>
          (case sub of
             Some e \<Rightarrow> (Inl e, s)
           | None \<Rightarrow>
               let h = hs_next_hub s in
               (Inr h, s\<lparr>hs_hub := (hs_hub s)(h := newRaceHub i), hs_next_hub := Suc h,
                         hs_hubs := mput i (h, 1) (hs_hubs s)\<rparr>)))"

definition signalStop :: "'p race_hub \<Rightarrow> 'p race_hub" where
  "signalStop hub = hub\<lparr>rh_stop := True\<rparr>"

definition detach :: "race_id \<Rightarrow> 'p hub_sys \<Rightarrow> 'p hub_sys" where
  "detach i s =
     (case mget (hs_hubs s) i of
        None \<Rightarrow> s
      | Some (h, n) \<Rightarrow>
          if n - 1 \<le> 0 then upd_hub h signalStop (s\<lparr>hs_hubs := mdel i (hs_hubs s)\<rparr>)
          else s\<lparr>hs_hubs := mput i (h, n - 1) (hs_hubs s)\<rparr>)"

definition hub_onClose :: "nat \<Rightarrow> 'p hub_sys \<Rightarrow> 'p hub_sys" where
  "hub_onClose h s = s\<lparr>hs_hubs := mdel (rh_race (hs_hub s h)) (hs_hubs s)\<rparr>"

definition hub_Count :: "'p race_hub \<Rightarrow> nat" where
  "hub_Count hub = rh_connCount hub"

definition hubs_Count :: "'p hub_sys \<Rightarrow> nat" where
  "hubs_Count s = sum_list (map (\<lambda>(_, (h, _)). hub_Count (hs_hub s h)) (hs_hubs s))"

section \<open>The hub\<close>

definition offer :: "'p option \<Rightarrow> 'p conn \<Rightarrow> 'p conn" where
  "offer p c = c\<lparr>cn_ch := chan_try_send connBufferSize p (cn_ch c),
     cn_offered := cn_offered c @ [p],
     cn_dropped := cn_dropped c + (if length (cn_ch c) < connBufferSize then 0 else 1)\<rparr>"

definition fan_out :: "'p option \<Rightarrow> nat list \<Rightarrow> (nat \<Rightarrow> 'p conn) \<Rightarrow> nat \<Rightarrow> 'p conn" where
  "fan_out p cs m = (\<lambda>c. if c \<in> set cs then offer p (m c) else m c)"

text \<open>One envelope received. A broadcast hands on its payload as it is, absent or not; an envelope of
  another kind is ignored.\<close>

definition hub_receive :: "nat \<Rightarrow> 'p outbound_envelope \<Rightarrow> 'p hub_sys \<Rightarrow> 'p hub_sys" where
  "hub_receive h env s =
     (case out_Kind env of
        OutboundKindBroadcast \<Rightarrow>
          upd_hub h (\<lambda>hub. hub\<lparr>rh_fanned := rh_fanned hub @ [out_Payload env]\<rparr>)
            (s\<lparr>hs_conn := fan_out (out_Payload env) (rh_conns (hs_hub s h)) (hs_conn s)\<rparr>)
      | OutboundKindRoomClosed \<Rightarrow> upd_hub h (\<lambda>hub. hub\<lparr>rh_phase := HubClosed\<rparr>) s
      | OutboundKindOther _ \<Rightarrow> s)"

text \<open>The calls of a connection on its hub: a hub that has closed makes them no-ops.\<close>

definition registerConn :: "nat \<Rightarrow> nat \<Rightarrow> 'p hub_sys \<Rightarrow> 'p hub_sys" where
  "registerConn h c s =
     (if rh_phase (hs_hub s h) = HubRunning
      then upd_hub h (\<lambda>hub. hub\<lparr>rh_conns := List.insert c (rh_conns hub),
             rh_connCount := length (List.insert c (rh_conns hub))\<rparr>) s
      else s)"

definition unregisterConn :: "nat \<Rightarrow> nat \<Rightarrow> 'p hub_sys \<Rightarrow> 'p hub_sys" where
  "unregisterConn h c s =
     (if rh_phase (hs_hub s h) = HubRunning
      then upd_hub h (\<lambda>hub. hub\<lparr>rh_conns := removeAll c (rh_conns hub),
             rh_connCount := length (removeAll c (rh_conns hub))\<rparr>) s
      else s)"

definition disconnectAll :: "nat \<Rightarrow> 'p hub_sys \<Rightarrow> 'p hub_sys" where
  "disconnectAll h s =
     (if rh_phase (hs_hub s h) = HubRunning
      then s\<lparr>hs_conn := (\<lambda>c. if c \<in> set (rh_conns (hs_hub s h))
             then (hs_conn s c)\<lparr>cn_cancelled := True\<rparr> else hs_conn s c)\<rparr>
      else s)"

definition Shutdown :: "'p hub_sys \<Rightarrow> 'p hub_sys" where
  "Shutdown s = fold (\<lambda>(_, (h, _)). disconnectAll h) (hs_hubs s) s"

section \<open>A connection\<close>

text \<open>\<^verbatim>\<open>serveConn\<close> from \<^verbatim>\<open>attach\<close> on; a failed subscription closes the connection before
  anything else.\<close>

definition serveConn_attach :: "go_error option \<Rightarrow> race_id \<Rightarrow> 'p hub_sys \<Rightarrow> 'p hub_sys" where
  "serveConn_attach sub i s =
     (case attach sub i s of
        (Inl e, s1) \<Rightarrow> s1
      | (Inr h, s1) \<Rightarrow> s1\<lparr>hs_conn := (hs_conn s1)(hs_next_conn s1 := new_conn i h),
                          hs_next_conn := Suc (hs_next_conn s1)\<rparr>)"

definition serveConn_register :: "nat \<Rightarrow> 'p hub_sys \<Rightarrow> 'p hub_sys" where
  "serveConn_register c s =
     upd_conn c (\<lambda>x. x\<lparr>cn_phase := ConnServing\<rparr>) (registerConn (cn_hub (hs_conn s c)) c s)"

text \<open>Both loops have returned: the deferred calls run in the reverse order.\<close>

definition serveConn_unregister :: "nat \<Rightarrow> 'p hub_sys \<Rightarrow> 'p hub_sys" where
  "serveConn_unregister c s =
     upd_conn c (\<lambda>x. x\<lparr>cn_phase := ConnUnregistered, cn_cancelled := True\<rparr>)
       (unregisterConn (cn_hub (hs_conn s c)) c s)"

definition serveConn_detach :: "nat \<Rightarrow> 'p hub_sys \<Rightarrow> 'p hub_sys" where
  "serveConn_detach c s =
     upd_conn c (\<lambda>x. x\<lparr>cn_phase := ConnDetached\<rparr>) (detach (cn_race (hs_conn s c)) s)"

text \<open>One message taken from the channel by \<^verbatim>\<open>writeLoop\<close>, in either loop; a failed write ends it,
  and the end of either loop cancels the connection's context.\<close>

definition writeMsg :: "bool \<Rightarrow> 'p conn \<Rightarrow> 'p conn" where
  "writeMsg ok c =
     (case cn_ch c of
        [] \<Rightarrow> c
      | m # ms \<Rightarrow>
          if ok then c\<lparr>cn_ch := ms, cn_written := cn_written c @ [m]\<rparr>
          else c\<lparr>cn_ch := ms, cn_dropped := cn_dropped c + 1, cn_writer := WriterDone, cn_cancelled := True\<rparr>)"

definition writer_sees_closed :: "'p conn \<Rightarrow> 'p conn" where
  "writer_sees_closed c = c\<lparr>cn_writer := WriterDraining\<rparr>"

definition writer_returns :: "'p conn \<Rightarrow> 'p conn" where
  "writer_returns c = c\<lparr>cn_writer := WriterDone, cn_cancelled := True\<rparr>"

definition reader_returns :: "'p conn \<Rightarrow> 'p conn" where
  "reader_returns c = c\<lparr>cn_reading := False, cn_cancelled := True\<rparr>"

section \<open>The bus and the interleaving\<close>

text \<open>An envelope published for a race reaches those of its subscribed hubs that the bus delivers it
  to; NATS promises order, not delivery.\<close>

definition subscribed :: "'p race_hub \<Rightarrow> bool" where
  "subscribed hub = (rh_phase hub = HubRunning \<or> rh_phase hub = HubClosed)"

definition broadcasts :: "'p outbound_envelope list \<Rightarrow> 'p option list" where
  "broadcasts envs = map out_Payload (List.filter (\<lambda>env. out_Kind env = OutboundKindBroadcast) envs)"

definition bus_publish :: "race_id \<Rightarrow> 'p outbound_envelope \<Rightarrow> nat list \<Rightarrow> 'p hub_sys \<Rightarrow> 'p hub_sys" where
  "bus_publish i env hs s =
     s\<lparr>hs_published := (hs_published s)(i := hs_published s i @ broadcasts [env]),
       hs_hub := (\<lambda>h. if h \<in> set hs \<and> rh_race (hs_hub s h) = i \<and> subscribed (hs_hub s h)
          then (hs_hub s h)\<lparr>rh_in := rh_in (hs_hub s h) @ [env]\<rparr> else hs_hub s h)\<rparr>"

text \<open>What goes on by itself once connections are there; then the two calls from outside: a
  connection that arrives, and the disconnection of a hub's connections.\<close>

inductive fan_step :: "'p hub_sys \<Rightarrow> 'p hub_sys \<Rightarrow> bool" where
  publish: "fan_step s (bus_publish i env hs s)"
| receive: "h < hs_next_hub s \<Longrightarrow> rh_phase (hs_hub s h) = HubRunning \<Longrightarrow> rh_in (hs_hub s h) = env # envs \<Longrightarrow>
    fan_step s (hub_receive h env (upd_hub h (\<lambda>hub. hub\<lparr>rh_in := envs\<rparr>) s))"
| bus_ended: "h < hs_next_hub s \<Longrightarrow> rh_phase (hs_hub s h) = HubRunning \<Longrightarrow> rh_in (hs_hub s h) = [] \<Longrightarrow>
    fan_step s (upd_hub h (\<lambda>hub. hub\<lparr>rh_phase := HubClosed\<rparr>) s)"
| stopped: "h < hs_next_hub s \<Longrightarrow> rh_phase (hs_hub s h) = HubRunning \<Longrightarrow> rh_stop (hs_hub s h) \<Longrightarrow>
    fan_step s (upd_hub h (\<lambda>hub. hub\<lparr>rh_phase := HubClosed\<rparr>) s)"
| unsubscribe: "h < hs_next_hub s \<Longrightarrow> rh_phase (hs_hub s h) = HubClosed \<Longrightarrow>
    fan_step s (upd_hub h (\<lambda>hub. hub\<lparr>rh_phase := HubUnsubscribed\<rparr>) s)"
| onClose: "h < hs_next_hub s \<Longrightarrow> rh_phase (hs_hub s h) = HubUnsubscribed \<Longrightarrow>
    fan_step s (upd_hub h (\<lambda>hub. hub\<lparr>rh_phase := HubGone\<rparr>) (hub_onClose h s))"
| conn_register: "c < hs_next_conn s \<Longrightarrow> cn_phase (hs_conn s c) = ConnAttached \<Longrightarrow>
    fan_step s (serveConn_register c s)"
| conn_write: "cn_phase (hs_conn s c) = ConnServing \<Longrightarrow> cn_writer (hs_conn s c) \<noteq> WriterDone \<Longrightarrow>
    fan_step s (upd_conn c (writeMsg ok) s)"
| conn_closed: "cn_phase (hs_conn s c) = ConnServing \<Longrightarrow> cn_writer (hs_conn s c) = Writing \<Longrightarrow>
    rh_phase (hs_hub s (cn_hub (hs_conn s c))) \<noteq> HubRunning \<Longrightarrow> fan_step s (upd_conn c writer_sees_closed s)"
| conn_drained: "cn_phase (hs_conn s c) = ConnServing \<Longrightarrow> cn_writer (hs_conn s c) = WriterDraining \<Longrightarrow>
    cn_ch (hs_conn s c) = [] \<Longrightarrow> fan_step s (upd_conn c writer_returns s)"
| conn_ctx_done: "cn_phase (hs_conn s c) = ConnServing \<Longrightarrow> cn_writer (hs_conn s c) = Writing \<Longrightarrow>
    cn_cancelled (hs_conn s c) \<Longrightarrow> fan_step s (upd_conn c writer_returns s)"
| conn_read_ends: "cn_phase (hs_conn s c) = ConnServing \<Longrightarrow> cn_reading (hs_conn s c) \<Longrightarrow>
    fan_step s (upd_conn c reader_returns s)"
| conn_unregister: "cn_phase (hs_conn s c) = ConnServing \<Longrightarrow> \<not> cn_reading (hs_conn s c) \<Longrightarrow>
    cn_writer (hs_conn s c) = WriterDone \<Longrightarrow> fan_step s (serveConn_unregister c s)"
| conn_detach: "cn_phase (hs_conn s c) = ConnUnregistered \<Longrightarrow> fan_step s (serveConn_detach c s)"

inductive hub_step :: "'p hub_sys \<Rightarrow> 'p hub_sys \<Rightarrow> bool" where
  fan: "fan_step s s' \<Longrightarrow> hub_step s s'"
| disconnect: "hub_step s (disconnectAll h s)"
| conn_attach: "hub_step s (serveConn_attach sub i s)"

inductive reachable_hubs :: "'p hub_sys \<Rightarrow> bool" where
  start: "reachable_hubs NewRaceHubRegistry"
| step: "reachable_hubs s \<Longrightarrow> hub_step s s' \<Longrightarrow> reachable_hubs s'"

section \<open>The invariant\<close>

definition chan_ok :: "'p conn \<Rightarrow> bool" where
  "chan_ok x \<longleftrightarrow> subseq (cn_written x @ cn_ch x) (cn_offered x)
     \<and> length (cn_written x) + length (cn_ch x) + cn_dropped x = length (cn_offered x)
     \<and> length (cn_ch x) \<le> connBufferSize"

definition link_ok :: "'p race_hub \<Rightarrow> nat \<Rightarrow> 'p conn \<Rightarrow> bool" where
  "link_ok hub c x \<longleftrightarrow> rh_race hub = cn_race x \<and> sublist (cn_offered x) (rh_fanned hub)
     \<and> (c \<in> set (rh_conns hub) \<longrightarrow> suffix (cn_offered x) (rh_fanned hub))
     \<and> (cn_phase x = ConnAttached \<longrightarrow> cn_offered x = [] \<and> c \<notin> set (rh_conns hub))"

definition hub_ok :: "'p hub_sys \<Rightarrow> nat \<Rightarrow> bool" where
  "hub_ok s h \<longleftrightarrow> (let hub = hs_hub s h in
     (\<forall>c \<in> set (rh_conns hub). c < hs_next_conn s \<and> cn_hub (hs_conn s c) = h)
     \<and> subseq (rh_fanned hub @ broadcasts (rh_in hub)) (hs_published s (rh_race hub))
     \<and> rh_connCount hub = length (rh_conns hub) \<and> distinct (rh_conns hub))"

definition sys_ok :: "'p hub_sys \<Rightarrow> bool" where
  "sys_ok s \<longleftrightarrow>
     (\<forall>c < hs_next_conn s. cn_hub (hs_conn s c) < hs_next_hub s \<and> chan_ok (hs_conn s c)
        \<and> link_ok (hs_hub s (cn_hub (hs_conn s c))) c (hs_conn s c))
     \<and> (\<forall>h < hs_next_hub s. hub_ok s h)
     \<and> (\<forall>i h n. mget (hs_hubs s) i = Some (h, n) \<longrightarrow> h < hs_next_hub s \<and> rh_race (hs_hub s h) = i)"

lemma sys_ok_entry: "sys_ok s \<Longrightarrow> mget (hs_hubs s) i = Some (h, n) \<Longrightarrow> h < hs_next_hub s \<and> rh_race (hs_hub s h) = i"
  unfolding sys_ok_def by blast

lemma sys_ok_conn:
  assumes "sys_ok s" "\<And>x. x = hs_conn s c \<Longrightarrow> chan_ok x \<Longrightarrow> chan_ok (f x) \<and> cn_hub (f x) = cn_hub x \<and> cn_race (f x) = cn_race x
      \<and> cn_offered (f x) = cn_offered x \<and> (cn_phase (f x) = ConnAttached \<longrightarrow> cn_phase x = ConnAttached)"
  shows "sys_ok (upd_conn c f s)"
  using assms(1) assms(2) [OF refl] unfolding sys_ok_def hub_ok_def Let_def link_ok_def by simp

lemma sys_ok_hub:
  assumes "sys_ok s" "\<And>hub. hub = hs_hub s h \<Longrightarrow> rh_race (f hub) = rh_race hub \<and> rh_fanned (f hub) = rh_fanned hub
      \<and> set (rh_conns (f hub)) \<subseteq> set (rh_conns hub)
      \<and> subseq (broadcasts (rh_in (f hub))) (broadcasts (rh_in hub))
      \<and> (rh_connCount hub = length (rh_conns hub) \<and> distinct (rh_conns hub)
         \<longrightarrow> rh_connCount (f hub) = length (rh_conns (f hub)) \<and> distinct (rh_conns (f hub)))"
  shows "sys_ok (upd_hub h f s)"
proof -
  note f = assms(2) [OF refl]
  have "hub_ok (upd_hub h f s) k" if "hub_ok s k" for k
    using that f unfolding hub_ok_def Let_def
    by (auto intro: subseq_order.trans list_emb_append_mono)
  with assms(1) f show ?thesis unfolding sys_ok_def link_ok_def by auto
qed

lemma sys_ok_table:
  assumes "sys_ok s" "\<And>i h n. mget tbl i = Some (h, n) \<Longrightarrow> \<exists>n'. mget (hs_hubs s) i = Some (h, n')"
  shows "sys_ok (s\<lparr>hs_hubs := tbl\<rparr>)"
  using assms unfolding sys_ok_def hub_ok_def by (fastforce simp: Let_def)

lemma sys_ok_publish: "sys_ok s \<Longrightarrow> sys_ok (bus_publish i env hs s)"
proof -
  assume ok: "sys_ok s"
  let ?s = "bus_publish i env hs s"
  have same: "rh_race (hs_hub ?s h) = rh_race (hs_hub s h)" "rh_fanned (hs_hub ?s h) = rh_fanned (hs_hub s h)"
    "rh_conns (hs_hub ?s h) = rh_conns (hs_hub s h)" "rh_connCount (hs_hub ?s h) = rh_connCount (hs_hub s h)" for h
    by (simp_all add: bus_publish_def)
  have "subseq (rh_fanned (hs_hub ?s h) @ broadcasts (rh_in (hs_hub ?s h))) (hs_published ?s (rh_race (hs_hub ?s h)))"
    if "hub_ok s h" for h
  proof -
    have sub: "subseq (rh_fanned (hs_hub s h) @ broadcasts (rh_in (hs_hub s h))) (hs_published s (rh_race (hs_hub s h)))"
      using that by (simp add: hub_ok_def Let_def)
    from list_emb_append_mono [OF this subseq_order.order_refl [of "broadcasts [env]"]]
      subseq_rev_drop_many [OF sub, of "broadcasts [env]"]
    show ?thesis using sub by (auto simp: bus_publish_def broadcasts_def)
  qed
  with ok same show ?thesis
    unfolding sys_ok_def hub_ok_def link_ok_def Let_def by (simp add: bus_publish_def)
qed

lemma chan_ok_offer: "chan_ok x \<Longrightarrow> chan_ok (offer p x)"
  unfolding chan_ok_def offer_def chan_try_send_def
  using list_emb_append_mono [of "(=)" "cn_written x @ cn_ch x" "cn_offered x" "[p]" "[p]"]
  by (auto intro: subseq_rev_drop_many)

lemma sublist_snoc: "sublist xs ys \<Longrightarrow> sublist xs (ys @ [y])"
  unfolding sublist_def by (metis append.assoc)

lemma sys_ok_receive:
  assumes "sys_ok s" "rh_in (hs_hub s h) = env # envs" "h < hs_next_hub s"
  shows "sys_ok (hub_receive h env (upd_hub h (\<lambda>hub. hub\<lparr>rh_in := envs\<rparr>) s))"
proof (cases "out_Kind env")
  case OutboundKindBroadcast
  let ?p = "out_Payload env"
  let ?cs = "rh_conns (hs_hub s h)"
  let ?s = "s\<lparr>hs_hub := (hs_hub s)(h := (hs_hub s h)\<lparr>rh_in := envs, rh_fanned := rh_fanned (hs_hub s h) @ [?p]\<rparr>),
    hs_conn := fan_out ?p ?cs (hs_conn s)\<rparr>"
  have eq: "hub_receive h env (upd_hub h (\<lambda>hub. hub\<lparr>rh_in := envs\<rparr>) s) = ?s"
    using OutboundKindBroadcast by (simp add: hub_receive_def)
  have conns: "c \<in> set ?cs \<Longrightarrow> cn_hub (hs_conn s c) = h" for c
    using assms(1,3) unfolding sys_ok_def hub_ok_def by (auto simp: Let_def)
  have "cn_hub (hs_conn ?s c) < hs_next_hub ?s \<and> chan_ok (hs_conn ?s c)
      \<and> link_ok (hs_hub ?s (cn_hub (hs_conn ?s c))) c (hs_conn ?s c)" if "c < hs_next_conn ?s" for c
  proof -
    have ok: "cn_hub (hs_conn s c) < hs_next_hub s" "chan_ok (hs_conn s c)"
      "link_ok (hs_hub s (cn_hub (hs_conn s c))) c (hs_conn s c)"
      using assms(1) that unfolding sys_ok_def by auto
    show ?thesis
    proof (cases "c \<in> set ?cs")
      case True
      with ok conns [OF True] show ?thesis
        by (simp add: fan_out_def chan_ok_offer) (simp add: link_ok_def offer_def suffix_imp_sublist)
    next
      case False
      with ok show ?thesis
        by (auto simp: fan_out_def link_ok_def sublist_snoc)
    qed
  qed
  moreover have "hub_ok ?s k" if "k < hs_next_hub s" for k
    using assms(1,2) that unfolding sys_ok_def hub_ok_def Let_def
    by (auto simp: fan_out_def offer_def broadcasts_def OutboundKindBroadcast)
  ultimately show ?thesis using assms(1) unfolding eq sys_ok_def by auto
next
  case OutboundKindRoomClosed
  have "sys_ok (upd_hub h (\<lambda>hub. hub\<lparr>rh_in := envs, rh_phase := HubClosed\<rparr>) s)"
    by (rule sys_ok_hub [OF assms(1)]) (auto simp: assms(2) broadcasts_def)
  with OutboundKindRoomClosed show ?thesis by (simp add: hub_receive_def)
next
  case (OutboundKindOther k)
  have "sys_ok (upd_hub h (\<lambda>hub. hub\<lparr>rh_in := envs\<rparr>) s)"
    by (rule sys_ok_hub [OF assms(1)]) (auto simp: assms(2) broadcasts_def)
  with OutboundKindOther show ?thesis by (simp add: hub_receive_def)
qed

lemma sys_ok_detach: "sys_ok s \<Longrightarrow> sys_ok (detach i s)"
proof -
  assume ok: "sys_ok s"
  have "sys_ok (s\<lparr>hs_hubs := mdel i (hs_hubs s)\<rparr>)" by (rule sys_ok_table [OF ok]) (auto split: if_splits)
  from sys_ok_hub [OF this, where f = signalStop]
  have "sys_ok (upd_hub h signalStop (s\<lparr>hs_hubs := mdel i (hs_hubs s)\<rparr>))" for h
    by (simp add: signalStop_def)
  moreover have "sys_ok (s\<lparr>hs_hubs := mput i (h, n - 1) (hs_hubs s)\<rparr>)" if "mget (hs_hubs s) i = Some (h, n)" for h n
    by (rule sys_ok_table [OF ok]) (use that in \<open>auto split: if_splits\<close>)
  ultimately show ?thesis using ok by (auto simp: detach_def split: option.splits)
qed

lemma sys_ok_disconnect: "sys_ok s \<Longrightarrow> sys_ok (disconnectAll h s)"
  unfolding sys_ok_def hub_ok_def disconnectAll_def by (simp add: chan_ok_def link_ok_def Let_def)

lemma sys_ok_attach:
  assumes "sys_ok s"
  shows "sys_ok (serveConn_attach sub i s)"
proof (cases "mget (hs_hubs s) i")
  case None
  have "mget (hs_hubs s) j \<noteq> Some (hs_next_hub s, m)" for j m
    using sys_ok_entry [OF assms] by blast
  with None show ?thesis using assms unfolding serveConn_attach_def attach_def
    by (simp split: option.split add: Let_def)
      (auto simp: sys_ok_def hub_ok_def Let_def newRaceHub_def new_conn_def chan_ok_def link_ok_def broadcasts_def
        less_Suc_eq)
next
  case (Some v)
  obtain h n where v: "v = (h, n)" by (cases v)
  have h: "h < hs_next_hub s" "rh_race (hs_hub s h) = i" using sys_ok_entry [OF assms] Some v by auto
  have new: "c \<in> set (rh_conns (hs_hub s k)) \<Longrightarrow> k < hs_next_hub s \<Longrightarrow> c < hs_next_conn s" for c k
    using assms by (auto simp: sys_ok_def hub_ok_def Let_def)
  have "sys_ok (s\<lparr>hs_hubs := mput i (h, n + 1) (hs_hubs s)\<rparr>)"
    by (rule sys_ok_table [OF assms]) (use Some v in \<open>auto split: if_splits\<close>)
  with h new show ?thesis unfolding serveConn_attach_def attach_def Some v
    by (auto simp: sys_ok_def hub_ok_def Let_def new_conn_def chan_ok_def link_ok_def less_Suc_eq)
qed

lemma sys_ok_register:
  assumes "sys_ok s" "c < hs_next_conn s" "cn_phase (hs_conn s c) = ConnAttached"
  shows "sys_ok (serveConn_register c s)"
proof -
  let ?h = "cn_hub (hs_conn s c)"
  let ?s = "serveConn_register c s"
  have c: "?h < hs_next_hub s" "chan_ok (hs_conn s c)" "link_ok (hs_hub s ?h) c (hs_conn s c)" "hub_ok s ?h"
    using assms(1,2) by (auto simp: sys_ok_def)
  have conn: "hs_conn ?s = (hs_conn s)(c := (hs_conn s c)\<lparr>cn_phase := ConnServing\<rparr>)"
    by (simp add: serveConn_register_def registerConn_def)
  have hub: "rh_race (hs_hub ?s k) = rh_race (hs_hub s k)" "rh_fanned (hs_hub ?s k) = rh_fanned (hs_hub s k)"
    "rh_in (hs_hub ?s k) = rh_in (hs_hub s k)"
    "rh_conns (hs_hub ?s k) = (if k = ?h \<and> rh_phase (hs_hub s k) = HubRunning
       then List.insert c (rh_conns (hs_hub s k)) else rh_conns (hs_hub s k))"
    "rh_connCount (hs_hub ?s k) = (if k = ?h \<and> rh_phase (hs_hub s k) = HubRunning
       then length (List.insert c (rh_conns (hs_hub s k))) else rh_connCount (hs_hub s k))" for k
    by (auto simp: serveConn_register_def registerConn_def)
  have rest: "hs_next_conn ?s = hs_next_conn s" "hs_next_hub ?s = hs_next_hub s" "hs_hubs ?s = hs_hubs s"
    "hs_published ?s = hs_published s"
    by (simp_all add: serveConn_register_def registerConn_def)
  have "link_ok (hs_hub ?s (cn_hub (hs_conn ?s c'))) c' (hs_conn ?s c')"
    if "link_ok (hs_hub s (cn_hub (hs_conn s c'))) c' (hs_conn s c')" for c'
    using that assms(3) unfolding link_ok_def hub conn by auto
  moreover have "hub_ok ?s k" if "hub_ok s k" for k
    using that assms(2) unfolding hub_ok_def Let_def hub conn rest by auto
  moreover have "chan_ok (hs_conn ?s c') \<and> cn_hub (hs_conn ?s c') = cn_hub (hs_conn s c')"
    if "chan_ok (hs_conn s c')" for c'
    using that unfolding conn chan_ok_def by auto
  moreover have "cn_hub (hs_conn ?s c') = cn_hub (hs_conn s c')" for c' unfolding conn by simp
  ultimately show ?thesis using assms(1) unfolding sys_ok_def rest by (auto simp: hub(1))
qed

lemma sys_ok_fan: "fan_step s s' \<Longrightarrow> sys_ok s \<Longrightarrow> sys_ok s'"
proof (induction rule: fan_step.induct)
  case (onClose h s)
  have "sys_ok (hub_onClose h s)" unfolding hub_onClose_def
    by (rule sys_ok_table [OF onClose.prems]) (auto split: if_splits)
  from sys_ok_hub [OF this, where f = "\<lambda>hub. hub\<lparr>rh_phase := HubGone\<rparr>"] show ?case by simp
next
  case (conn_write s c ok)
  show ?case by (rule sys_ok_conn [OF conn_write.prems])
      (auto simp: writeMsg_def chan_ok_def split: list.splits
        intro: subseq_order.trans [OF list_emb_append_mono [OF subseq_order.order_refl list_emb_Cons]])
next
  case (conn_unregister s c)
  have "sys_ok (unregisterConn (cn_hub (hs_conn s c)) c s)"
    unfolding unregisterConn_def using conn_unregister.prems
    by (auto simp: distinct_removeAll intro!: sys_ok_hub [where f = "\<lambda>hub. hub\<lparr>rh_conns := _ hub, rh_connCount := _ hub\<rparr>"])
  from sys_ok_conn [OF this, where f = "\<lambda>x. x\<lparr>cn_phase := ConnUnregistered, cn_cancelled := True\<rparr>"]
  show ?case by (simp add: serveConn_unregister_def chan_ok_def)
next
  case (conn_detach s c)
  from sys_ok_conn [OF sys_ok_detach [OF conn_detach.prems], where f = "\<lambda>x. x\<lparr>cn_phase := ConnDetached\<rparr>"]
  show ?case by (simp add: serveConn_detach_def chan_ok_def)
qed (auto simp: sys_ok_publish sys_ok_receive sys_ok_register
    writer_sees_closed_def writer_returns_def reader_returns_def chan_ok_def
    intro!: sys_ok_hub [where f = "\<lambda>hub. hub\<lparr>rh_phase := _\<rparr>"] sys_ok_conn)

lemma sys_ok_step: "hub_step s s' \<Longrightarrow> sys_ok s \<Longrightarrow> sys_ok s'"
  by (induction rule: hub_step.induct) (auto simp: sys_ok_fan sys_ok_disconnect sys_ok_attach)

text \<open>\<^verbatim>\<open>Shutdown\<close> holds the mutex while it copies the hubs and then asks one after the other; with
  nothing in between it is \<open>Shutdown\<close>.\<close>

lemma Shutdown_steps: "hub_step\<^sup>*\<^sup>* s (Shutdown s)"
proof -
  have "hub_step\<^sup>*\<^sup>* s (fold (\<lambda>(_, (h, _)). disconnectAll h) tbl s)" for s :: "'a hub_sys" and tbl :: "(race_id \<times> nat \<times> int) list"
    by (induction tbl arbitrary: s) (auto intro: converse_rtranclp_into_rtranclp hub_step.disconnect)
  then show ?thesis unfolding Shutdown_def .
qed

lemma reachable_sys_ok: "reachable_hubs s \<Longrightarrow> sys_ok s"
proof (induction rule: reachable_hubs.induct)
  case start
  show ?case by (simp add: sys_ok_def NewRaceHubRegistry_def)
qed (rule sys_ok_step)

section \<open>Reference counts\<close>

text \<open>The contract of \<^verbatim>\<open>attach\<close> and \<^verbatim>\<open>detach\<close>: a counter per race.\<close>

datatype hub_call = Attach race_id | Detach race_id

fun count_call :: "hub_call \<Rightarrow> (race_id \<Rightarrow> nat) \<Rightarrow> race_id \<Rightarrow> nat" where
  "count_call (Attach i) f = f(i := f i + 1)"
| "count_call (Detach i) f = f(i := f i - 1)"

fun hub_call_do :: "hub_call \<Rightarrow> 'p hub_sys \<Rightarrow> 'p hub_sys" where
  "hub_call_do (Attach i) s = snd (attach None i s)"
| "hub_call_do (Detach i) s = detach i s"

definition ref_count :: "'p hub_sys \<Rightarrow> race_id \<Rightarrow> nat" where
  "ref_count s i = (case mget (hs_hubs s) i of None \<Rightarrow> 0 | Some (h, n) \<Rightarrow> nat n)"

text \<open>The hubs of a race that have been started and not told to stop, hence hold a subscription.\<close>

definition held :: "'p hub_sys \<Rightarrow> race_id \<Rightarrow> nat set" where
  "held s i = {h. h < hs_next_hub s \<and> rh_race (hs_hub s h) = i \<and> \<not> rh_stop (hs_hub s h)}"

definition refs_ok :: "'p hub_sys \<Rightarrow> bool" where
  "refs_ok s \<longleftrightarrow> (\<forall>i. case mget (hs_hubs s) i of
       None \<Rightarrow> held s i = {}
     | Some (h, n) \<Rightarrow> 1 \<le> n \<and> held s i = {h})"

lemma held_new: "held (s\<lparr>hs_hub := (hs_hub s)(hs_next_hub s := newRaceHub i), hs_next_hub := Suc (hs_next_hub s)\<rparr>) j = (if j = i then insert (hs_next_hub s) (held s j) else held s j)"
  by (auto simp: held_def newRaceHub_def less_Suc_eq)

lemma held_stop: "held (s\<lparr>hs_hubs := t, hs_hub := (hs_hub s)(h := signalStop (hs_hub s h))\<rparr>) j = held s j - {h}"
  by (auto simp: held_def signalStop_def)

lemma held_table [simp]: "held (s\<lparr>hs_hubs := t\<rparr>) j = held s j"
  by (simp add: held_def)

lemma refs_ok_entry: "refs_ok s \<Longrightarrow> mget (hs_hubs s) i = Some (h, n) \<Longrightarrow> 1 \<le> n \<and> held s i = {h}"
  unfolding refs_ok_def by (auto dest: spec [of _ i])

lemma refs_ok_none: "refs_ok s \<Longrightarrow> mget (hs_hubs s) i = None \<Longrightarrow> held s i = {}"
  unfolding refs_ok_def by (auto dest: spec [of _ i])

lemma refs_ok_attach:
  assumes "refs_ok s"
  shows "refs_ok (snd (attach None i s)) \<and> ref_count (snd (attach None i s)) = (ref_count s)(i := ref_count s i + 1)"
proof (cases "mget (hs_hubs s) i")
  case None
  with assms refs_ok_none [OF assms None] show ?thesis
    by (auto simp: attach_def Let_def refs_ok_def held_new refs_ok_none [OF assms] ref_count_def fun_eq_iff split: option.splits)
next
  case (Some v)
  obtain h n where v: "v = (h, n)" by (cases v)
  with assms Some refs_ok_entry [OF assms, of i h n] show ?thesis
    by (auto simp: refs_ok_none [OF assms] attach_def refs_ok_def ref_count_def fun_eq_iff nat_add_distrib split: option.splits)
qed

lemma held_disjoint: "h \<in> held s i \<Longrightarrow> j \<noteq> i \<Longrightarrow> held s j - {h} = held s j"
  by (auto simp: held_def)

lemma refs_ok_detach:
  assumes "refs_ok s"
  shows "refs_ok (detach i s) \<and> ref_count (detach i s) = (ref_count s)(i := ref_count s i - 1)"
proof (cases "mget (hs_hubs s) i")
  case None
  with assms show ?thesis by (auto simp: detach_def ref_count_def fun_eq_iff)
next
  case (Some v)
  obtain h n where v: "v = (h, n)" by (cases v)
  have e: "1 \<le> n" "held s i = {h}" using refs_ok_entry [OF assms] Some v by auto
  show ?thesis
  proof (cases "n - 1 \<le> 0")
    case True
    with assms Some v e held_disjoint [of h s i] show ?thesis
      by (auto simp: detach_def refs_ok_def held_stop refs_ok_none [OF assms] ref_count_def fun_eq_iff split: option.splits)
  next
    case False
    with assms Some v e show ?thesis
      by (auto simp: refs_ok_none [OF assms] detach_def refs_ok_def ref_count_def fun_eq_iff nat_diff_distrib split: option.splits)
  qed
qed

lemma refs_ok_calls:
  "refs_ok s \<Longrightarrow> refs_ok (fold hub_call_do calls s) \<and> ref_count (fold hub_call_do calls s) = fold count_call calls (ref_count s)"
proof (induction calls arbitrary: s)
  case (Cons c calls)
  have "refs_ok (hub_call_do c s) \<and> ref_count (hub_call_do c s) = count_call c (ref_count s)"
    using refs_ok_attach [OF Cons.prems] refs_ok_detach [OF Cons.prems] by (cases c) auto
  with Cons.IH [of "hub_call_do c s"] show ?case by simp
qed simp

section \<open>A hub that ends by itself\<close>

text \<open>The deferred \<^verbatim>\<open>onClose\<close> deletes the race's entry whichever hub it names. Here the last
  connection of hub 0 leaves, a new one starts hub 1, hub 0's \<open>onClose\<close> forgets hub 1, a third
  connection starts hub 2 - and when the second connection leaves, hub 2 is stopped under the third,
  while hub 1 keeps its subscription with nobody left to release it.\<close>

lemma successor_hub_forgotten:
  fixes s :: "nat hub_sys"
  assumes "s = detach ''r1'' (serveConn_attach None ''r1'' (hub_onClose 0 (serveConn_attach None ''r1''
      (detach ''r1'' (serveConn_attach None ''r1'' NewRaceHubRegistry)))))"
  shows "cn_hub (hs_conn s 2) = 2 \<and> rh_stop (hs_hub s 2) \<and> cn_hub (hs_conn s 1) = 1 \<and> \<not> rh_stop (hs_hub s 1)
    \<and> hs_hubs s = []"
  unfolding assms
  by (simp add: serveConn_attach_def attach_def detach_def hub_onClose_def NewRaceHubRegistry_def newRaceHub_def
      new_conn_def signalStop_def Let_def)

section \<open>Properties\<close>

text \<open>C31: In every interleaving of the hubs, the connections, the bus and the registry, a connection
  gets broadcasts of its own race only, in the order they were published and none twice. What is
  written or waiting is a subsequence of what its hub fanned out while the connection was
  registered; the missing ones are counted, each being dropped at a full buffer of eight or lost
  with a failed write, and a registered connection has been offered everything since it registered,
  room_closed included in that order.\<close>

theorem fan_out_in_order:
  assumes "reachable_hubs s" "c < hs_next_conn s" "x = hs_conn s c" "hub = hs_hub s (cn_hub x)"
  shows "subseq (cn_written x @ cn_ch x) (cn_offered x)
    \<and> length (cn_written x) + length (cn_ch x) + cn_dropped x = length (cn_offered x)
    \<and> length (cn_ch x) \<le> 8
    \<and> sublist (cn_offered x) (rh_fanned hub) \<and> (c \<in> set (rh_conns hub) \<longrightarrow> suffix (cn_offered x) (rh_fanned hub))
    \<and> subseq (rh_fanned hub @ broadcasts (rh_in hub)) (hs_published s (cn_race x))
    \<and> hub_Count hub = card (set (rh_conns hub))"
proof -
  have ok: "sys_ok s" using reachable_sys_ok [OF assms(1)] .
  then have "chan_ok x" "link_ok hub c x" "hub_ok s (cn_hub x)" "rh_race hub = cn_race x"
    using assms(2) unfolding sys_ok_def link_ok_def assms(3,4) by auto
  then show ?thesis
    unfolding chan_ok_def link_ok_def hub_ok_def hub_Count_def connBufferSize_def Let_def assms(4)
    by (auto simp: distinct_card)
qed

definition demo_env :: "nat outbound_envelope" where
  "demo_env = PublishOut_envelope ''r1'' 7"

lemma demo_reachable:
  "reachable_hubs (hub_receive 0 demo_env (upd_hub 0 (\<lambda>hub. hub\<lparr>rh_in := []\<rparr>)
     (bus_publish ''r1'' demo_env [0] (serveConn_register 0 (serveConn_attach None ''r1'' NewRaceHubRegistry)))))"
proof -
  let ?s1 = "serveConn_attach None ''r1'' NewRaceHubRegistry :: nat hub_sys"
  let ?s2 = "serveConn_register 0 ?s1"
  let ?s3 = "bus_publish ''r1'' demo_env [0] ?s2"
  note simps = serveConn_attach_def attach_def NewRaceHubRegistry_def newRaceHub_def new_conn_def Let_def
    serveConn_register_def registerConn_def bus_publish_def subscribed_def
  have "reachable_hubs ?s1" by (rule reachable_hubs.step [OF reachable_hubs.start hub_step.conn_attach])
  then have "reachable_hubs ?s2" by (rule reachable_hubs.step) (rule hub_step.fan, rule fan_step.conn_register; simp add: simps)
  then have "reachable_hubs ?s3" by (rule reachable_hubs.step) (rule hub_step.fan, rule fan_step.publish)
  then show ?thesis by (rule reachable_hubs.step) (rule hub_step.fan, rule fan_step.receive; simp add: simps)
qed

theorem fan_out_in_order_witness:
  "let s = hub_receive 0 demo_env (upd_hub 0 (\<lambda>hub. hub\<lparr>rh_in := []\<rparr>)
     (bus_publish ''r1'' demo_env [0] (serveConn_register 0 (serveConn_attach None ''r1'' NewRaceHubRegistry))))
   in cn_ch (hs_conn s 0) = [Some 7] \<and> subseq (cn_ch (hs_conn s 0)) (cn_offered (hs_conn s 0))"
proof -
  let ?s = "hub_receive 0 demo_env (upd_hub 0 (\<lambda>hub. hub\<lparr>rh_in := []\<rparr>)
     (bus_publish ''r1'' demo_env [0] (serveConn_register 0 (serveConn_attach None ''r1'' NewRaceHubRegistry))))"
  note simps = serveConn_attach_def attach_def NewRaceHubRegistry_def newRaceHub_def new_conn_def Let_def
    serveConn_register_def registerConn_def bus_publish_def subscribed_def hub_receive_def demo_env_def
    PublishOut_envelope_def fan_out_def offer_def chan_try_send_def connBufferSize_def
  have "cn_ch (hs_conn ?s 0) = [Some 7]" "cn_written (hs_conn ?s 0) = []" "0 < hs_next_conn ?s" by (simp_all add: simps)
  with fan_out_in_order [OF demo_reachable this(3) refl refl] show ?thesis by (simp add: Let_def)
qed


end
