(* ===== verification/Leaderboard_Properties.thy ===== *)
theory Leaderboard_Properties
  imports Leaderboard
begin

text \<open>
  The leaderboard against its two references: the totals that \<^verbatim>\<open>FinishRace\<close> maintains row by
  row are the aggregates over all the results it has stored, and the pages of the ranking are the
  ranking cut into fives.
\<close>

section \<open>Totals and results\<close>

text \<open>A history of attempts to end races, each at its instant; the log holds the results of those that
  succeeded.\<close>

fun finish_all :: "(time \<times> bool \<times> race_id \<times> int \<times> participant_result list) list \<Rightarrow> db \<Rightarrow>
    db \<times> (time \<times> int \<times> participant_result) list" where
  "finish_all [] s = (s, [])"
| "finish_all ((now, ctx, i, n, results) # cs) s =
     (let (e, s1) = pg_FinishRace ctx i n results (s\<lparr>db_now := now\<rparr>);
          (s2, hist) = finish_all cs s1
      in (s2, (if e = None then map (\<lambda>res. (now, n, res)) results else []) @ hist))"

text \<open>The reference: what the row of a user should say, computed from all of the user's results.\<close>

definition best_of :: "int list \<Rightarrow> int option" where
  "best_of ts = (if ts = [] then None else Some (Min (set ts)))"

definition aggregate :: "(time \<times> int \<times> participant_result) list \<Rightarrow> leaderboard_row option" where
  "aggregate hist = (if hist = [] then None else
     Some \<lparr>l_best_2000m_ms = best_of (List.map_filter (\<lambda>(_, _, res). pr_FinishTimeMs res) hist),
           l_total_races = int (length hist),
           l_total_distance_m = sum_list (map (\<lambda>(_, n, _). of_int n) hist),
           l_total_wins = int (length (List.filter (\<lambda>(_, _, res). pr_FinishRank res = Some 1) hist)),
           l_total_pace_watt_sum = sum_list (map (\<lambda>(_, _, res). pr_AvgPaceWatt res) hist),
           l_updated_at = fst (last hist)\<rparr>)"

definition results_of :: "user_id \<Rightarrow> (time \<times> int \<times> participant_result) list \<Rightarrow> (time \<times> int \<times> participant_result) list" where
  "results_of u = List.filter (\<lambda>(_, _, res). pr_UserID res = u)"

lemma best_of_snoc: "best_of (ts @ [t]) = best_time (best_of ts) (Some t)"
  by (cases "ts = []") (auto simp: best_of_def best_time_def Min_insert min_def
      simp del: Min_ge_iff Min_gr_iff Min_le_iff Min_less_iff)

lemma map_filter_snoc: "List.map_filter f (xs @ [x]) = List.map_filter f xs @ (case f x of None \<Rightarrow> [] | Some y \<Rightarrow> [y])"
  by (simp add: List.map_filter_def split: option.split)

lemma best_time_None: "best_time b None = b"
  by (simp add: best_time_def)

lemma aggregate_snoc: "aggregate (hist @ [(now, n, res)]) = Some (leaderboard_entry now n res (aggregate hist))"
  by (cases "pr_FinishTimeMs res"; cases "hist = []")
    (simp_all add: aggregate_def leaderboard_entry_def won_def best_of_snoc best_time_None map_filter_snoc,
     simp_all add: best_of_def List.map_filter_def)

lemma fold_results_leaderboard:
  "mget (leaderboard_alltime (fold (apply_result now i n) results t)) u
     = aggregate (results_of u (hist @ map (\<lambda>res. (now, n, res)) results))"
  if "mget (leaderboard_alltime t) u = aggregate (results_of u hist)"
  using that
proof (induction results arbitrary: t hist)
  case (Cons res results)
  have "mget (leaderboard_alltime (apply_result now i n res t)) u = aggregate (results_of u (hist @ [(now, n, res)]))"
    using Cons.prems
    by (cases "u = pr_UserID res") (auto simp: apply_result_leaderboard results_of_def aggregate_snoc)
  from Cons.IH [OF this] show ?case by simp
qed simp

lemma finish_all_leaderboard:
  assumes "mget (leaderboard_alltime (tables s)) u = aggregate (results_of u old)" "finish_all cs s = (s', hist)"
  shows "mget (leaderboard_alltime (tables s')) u = aggregate (results_of u (old @ hist))"
  using assms
proof (induction cs s arbitrary: old s' hist rule: finish_all.induct)
  case (2 now ctx i n results cs s)
  obtain e s1 where 1: "pg_FinishRace ctx i n results (s\<lparr>db_now := now\<rparr>) = (e, s1)" by fastforce
  obtain hist1 where 2: "finish_all cs s1 = (s', hist1)" "hist = (if e = None then map (\<lambda>res. (now, n, res)) results else []) @ hist1"
    using "2.prems" 1 by (auto split: prod.splits)
  have "mget (leaderboard_alltime (tables s1)) u
      = aggregate (results_of u (old @ (if e = None then map (\<lambda>res. (now, n, res)) results else [])))"
  proof (cases e)
    case None
    from FinishRace_tables [OF 1 [unfolded None]] None
    show ?thesis using "2.prems"(1) by (simp add: fold_results_leaderboard)
  next
    case (Some x)
    with FinishRace_error [OF 1 [unfolded Some]] "2.prems"(1) show ?thesis by simp
  qed
  from "2.IH" [OF 1 [symmetric] refl this 2(1)] 2(2) show ?case by simp
qed simp

section \<open>Pages\<close>

lemma enumerate_map_ranks:
  "map er_Rank (map (\<lambda>(i, e). \<lparr>er_Rank = f i, er_UserID = g e, er_DisplayName = d e, er_Races = r e,
      er_Wins = w e, er_AvgWPM = a e\<rparr>) (enumerate k es)) = map f [k..<k + length es]"
  "map er_UserID (map (\<lambda>(i, e). \<lparr>er_Rank = f i, er_UserID = g e, er_DisplayName = d e, er_Races = r e,
      er_Wins = w e, er_AvgWPM = a e\<rparr>) (enumerate k es)) = map g es"
  "map er_Wins (map (\<lambda>(i, e). \<lparr>er_Rank = f i, er_UserID = g e, er_DisplayName = d e, er_Races = r e,
      er_Wins = w e, er_AvgWPM = a e\<rparr>) (enumerate k es)) = map w es"
  "map er_AvgWPM (map (\<lambda>(i, e). \<lparr>er_Rank = f i, er_UserID = g e, er_DisplayName = d e, er_Races = r e,
      er_Wins = w e, er_AvgWPM = a e\<rparr>) (enumerate k es)) = map a es"
  by (induction es arbitrary: k) (simp_all del: upt_Suc add: upt_conv_Cons)

lemma scan_rows_fields:
  "scan_rows rs = Some es \<Longrightarrow> map le_UserID es = map t_id rs \<and> map le_Wins es = map t_wins rs
     \<and> map (Some \<circ> le_AvgWPM) es = map t_avg_wpm rs"
  by (induction rs arbitrary: es) (auto split: option.splits)

lemma page_covers:
  assumes "x \<in> set xs" "0 < k"
  obtains p where "1 \<le> p" "p \<le> max 1 ((int (length xs) + k - 1) div k)"
    "x \<in> set (take (nat k) (drop (nat ((p - 1) * k)) xs))"
proof -
  obtain j where j: "j < length xs" "xs ! j = x" using assms(1) by (auto simp: in_set_conv_nth)
  let ?q = "int j div k"
  have q: "0 \<le> ?q" "?q * k \<le> int j" "int j < ?q * k + k"
    using assms(2) by (simp_all add: pos_imp_zdiv_nonneg_iff minus_mod_eq_div_mult [symmetric])
  have "?q + 1 \<le> (int (length xs) + k - 1) div k"
    using j(1) assms(2) zdiv_mono1 [of "int j + k" "int (length xs) + k - 1" k] by simp
  moreover have "x \<in> set (take (nat k) (drop (nat (?q * k)) xs))"
  proof -
    have "j - nat (?q * k) < nat k" "nat (?q * k) + (j - nat (?q * k)) = j" using q by linarith+
    moreover have "j - nat (?q * k) < length xs - nat (?q * k)" using calculation(2) j(1) by linarith
    ultimately show ?thesis using j by (auto simp: in_set_conv_nth intro!: exI [of _ "j - nat (?q * k)"])
  qed
  ultimately show ?thesis using q(1) that [of "?q + 1"] by simp
qed

text \<open>Every counted row is ranked, once, when the tables are sound.\<close>

lemma ranking_complete:
  assumes "tables_ok t" "\<And>xs. mset (scan xs) = mset xs" "R = ranking scan win now t"
  shows "int (length R) = top_count win now t \<and> distinct (map t_id R)
    \<and> sorted_wrt (\<lambda>x y. top_order x \<le> top_order y) R"
proof -
  let ?Q = "case win of WindowAllTime \<Rightarrow> topAllTimeQuery t | WindowWeekly \<Rightarrow> topWeeklyQuery now t"
  have R: "mset R = mset ?Q" using assms(2) [of ?Q] by (simp add: assms(3) ranking_def)
  have dom: "fst ` set (leaderboard_alltime t) \<subseteq> dom (mget (users t))"
    "fst ` set (race_participants t) \<subseteq> dom (mget (races t)) \<times> dom (mget (users t))"
    using assms(1) unfolding tables_ok_def by (simp_all add: dom_map_of_conv_image_fst)
  have keys: "u \<in> fst ` set (leaderboard_alltime t) \<Longrightarrow> mget (users t) u \<noteq> None"
    "u \<in> snd ` fst ` set (race_participants t) \<Longrightarrow> mget (users t) u \<noteq> None" for u
    using dom by (blast, force)
  have "int (length ?Q) = top_count win now t \<and> distinct (map t_id ?Q)"
  proof (cases win)
    case WindowAllTime
    have f: "List.filter (\<lambda>(u, l). 0 < l_total_races l \<and> mget (users t) u \<noteq> None) (leaderboard_alltime t)
        = List.filter (\<lambda>(u, l). 0 < l_total_races l) (leaderboard_alltime t)"
      by (rule filter_cong) (use keys(1) in \<open>force+\<close>)
    have "map t_id (topAllTimeQuery t) = map fst (List.filter (\<lambda>(u, l). 0 < l_total_races l) (leaderboard_alltime t))"
      unfolding topAllTimeQuery_def f by (induction "leaderboard_alltime t") auto
    moreover have "distinct (map fst (List.filter P (leaderboard_alltime t)))" for P
      using assms(1) by (simp add: tables_ok_def distinct_map_filter)
    moreover have "length (topAllTimeQuery t) = length (List.filter (\<lambda>(u, l). 0 < l_total_races l) (leaderboard_alltime t))"
      unfolding topAllTimeQuery_def f by simp
    ultimately show ?thesis using WindowAllTime by (simp add: top_count_def countAllTimeQuery_def)
  next
    case WindowWeekly
    let ?U = "remdups (map (snd \<circ> fst) (weekly_rows now t))"
    have users: "set ?U \<subseteq> snd ` fst ` set (race_participants t)" by (force simp: weekly_rows_def)
    have f: "List.filter (\<lambda>u. mget (users t) u \<noteq> None) ?U = ?U"
      unfolding filter_id_conv using keys(2) users by blast
    have "map t_id (topWeeklyQuery now t) = ?U"
      unfolding topWeeklyQuery_def Let_def f by (simp add: o_def)
    then show ?thesis using WindowWeekly
      by (metis countWeeklyQuery_def distinct_remdups length_map top_count_def window.simps(4))
  qed
  moreover have "length R = length ?Q" using R by (rule mset_eq_length)
  moreover have "distinct (map t_id R) = distinct (map t_id ?Q)"
    using mset_map [of t_id R] mset_map [of t_id ?Q] R mset_eq_imp_distinct_iff by metis
  moreover have "sorted (map top_order R)" by (simp add: assms(3) ranking_def)
  ultimately show ?thesis by (simp add: sorted_map)
qed

lemma pg_read_result:
  assumes "pg ctx (\<lambda>s. (f s, tables s)) s = (Inr x, s')"
  shows "f (s\<lparr>stmt_no := Suc (stmt_no s)\<rparr>) = Inr x \<and> tables s' = tables s \<and> db_now s' = db_now s"
  using assms by (auto elim!: pg_Inr)

lemma GetTop_result:
  assumes "GetTop scan ctx wp page s = (Inr (Inr resp), s')" "parse_window wp = Some win" "1 \<le> page"
    and "R = ranking scan win (db_now s) (tables s)" "offset = int64 ((page - 1) * 5)"
  obtains entries where "scan_rows (take 5 (drop (nat offset) R)) = Some entries" "0 \<le> offset"
    "tr_Page resp = page" "tr_TotalPages resp = max 1 (go_quot (int64 (4 + top_count win (db_now s) (tables s))) 5)"
    "map er_Rank (tr_Entries resp) = map (\<lambda>i. int64 (offset + int i + 1)) [0..<length entries]"
    "map er_UserID (tr_Entries resp) = map le_UserID entries"
    "map er_Wins (tr_Entries resp) = map le_Wins entries"
    "map er_AvgWPM (tr_Entries resp) = map le_AvgWPM entries"
proof -
  obtain entries cnt where g: "pg_GetTop scan ctx win 5 offset s = (Inr (entries, cnt), s')"
    and resp: "resp = \<lparr>tr_Window = wp, tr_Page = page,
                  tr_TotalPages = max 1 (go_quot (int64 (4 + cnt)) 5),
                  tr_Entries = map (\<lambda>(i, e). \<lparr>er_Rank = int64 (offset + int i + 1), er_UserID = le_UserID e,
                    er_DisplayName = le_DisplayName e, er_Races = le_Races e, er_Wins = le_Wins e,
                    er_AvgWPM = le_AvgWPM e\<rparr>) (enumerate 0 entries)\<rparr>"
    using assms(1,2,3,5) by (auto simp: GetTop_def Let_def pageSize_def add_diff_eq split: prod.splits sum.splits)
  from g obtain s1 rows where 1: "pg ctx (\<lambda>s. (Inr (top_count win (db_now s) (tables s)), tables s)) s = (Inr cnt, s1)"
    and 2: "pg ctx (\<lambda>s. (limit_offset 5 offset (ranking scan win (db_now s) (tables s)), tables s)) s1 = (Inr rows, s')"
    and 3: "scan_rows rows = Some entries"
    by (auto simp: pg_GetTop_def split: prod.splits sum.splits option.splits)
  have "cnt = top_count win (db_now s) (tables s)" "rows = take 5 (drop (nat offset) R)" "0 \<le> offset"
    using pg_read_result [OF 1] pg_read_result [OF 2] assms(4) by (auto simp: limit_offset_def split: if_splits)
  with 3 resp enumerate_map_ranks [of "\<lambda>i. int64 (offset + int i + 1)" le_UserID le_DisplayName le_Races le_Wins le_AvgWPM 0 entries]
  show ?thesis by (intro that [of entries]) simp_all
qed

section \<open>Where the code goes wrong\<close>

text \<open>A user who enrolled in a race but never opened a connection has no pace; when this is their only
  race of the week, their average is NULL and the page that should show them fails.\<close>

definition silent_week :: db_tables where
  "silent_week = demo_tables\<lparr>races := [(''r1'', (snd (hd (races demo_tables)))\<lparr>r_status := ''finished'', r_ended_at := Some 2\<rparr>)]\<rparr>"

lemma weekly_null_average:
  "fst (Top id (Some ''b'') False ''weekly'' ''1'' (demo_db\<lparr>tables := silent_week\<rparr>)) = WriteError 500 ''internal_error''"
proof -
  have "topWeeklyQuery 5 silent_week = [\<lparr>t_id = ''a'', t_display_name = ''Ann'', t_races = 1, t_wins = 0, t_avg_wpm = None\<rparr>]"
    by (simp add: topWeeklyQuery_def weekly_rows_def silent_week_def demo_tables_def seven_days_def sql_avg_def
        map_filter_simps Let_def)
  moreover have "go_Atoi ''1'' = 1" by (simp add: go_Atoi_def digit_def Let_def)
  ultimately show ?thesis
    by (simp add: Top_def GetTop_def parse_window_def pg_GetTop_def pg_def Let_def ranking_def limit_offset_def
        int64_id pageSize_def demo_db_def)
qed

text \<open>The offset of a page is computed in 64 bits: page 3689348814741910325 starts at entry 4.\<close>

lemma page_offset_wraps: "int64 ((3689348814741910325 - 1) * pageSize) = 4"
  by (simp add: int64_def pageSize_def)

section \<open>Properties\<close>

text \<open>C13: The leaderboard kept up to date by every race that ends equals its definition: after any
  history of attempts to end races, on any tables, with any failures, a user's row is the aggregate
  over exactly the results that were stored - how many, how many wins, the sums of distance and
  pace, the least finishing time - and a user without results has no row.\<close>

theorem leaderboard_is_aggregate:
  assumes "leaderboard_alltime (tables s) = []" "finish_all cs s = (s', hist)"
  shows "mget (leaderboard_alltime (tables s')) u = aggregate (results_of u hist)"
  using finish_all_leaderboard [of s u "[]" cs s' hist] assms by (simp add: aggregate_def results_of_def)

theorem leaderboard_is_aggregate_witness:
  "let (s', hist) = finish_all [(5, False, ''r1'', 2, [demo_result]), (6, True, ''r1'', 2, [demo_result])] demo_db
   in mget (leaderboard_alltime (tables s')) ''a'' = aggregate (results_of ''a'' hist)
      \<and> map_option l_total_wins (mget (leaderboard_alltime (tables s')) ''a'') = Some 1"
proof -
  let ?cs = "[(5, False, ''r1'', 2, [demo_result]), (6, True, ''r1'', 2, [demo_result])]"
  have db: "demo_db\<lparr>db_now := 5\<rparr> = demo_db" by (simp add: demo_db_def)
  have 1: "fst (pg_FinishRace False ''r1'' 2 [demo_result] demo_db) = None"
    by (simp add: pg_FinishRace_def transaction_def pg_def pg_noop_def update_finished_def update_result_def
        upsert_leaderboard_def demo_tables_def demo_result_def Let_def)
  have 2: "fst (pg_FinishRace True ''r1'' 2 [demo_result] s) \<noteq> None" for s
    by (simp add: pg_FinishRace_def transaction_def pg_def Let_def)
  have log: "snd (finish_all ?cs demo_db) = [(5, 2, demo_result)]"
    using 1 2 by (simp add: db case_prod_beta Let_def)
  have agg: "map_option l_total_wins (aggregate (results_of ''a'' [(5, 2, demo_result)])) = Some 1"
    by (simp add: aggregate_def results_of_def demo_result_def)
  have "leaderboard_alltime (tables demo_db) = []" by (simp add: demo_tables_def)
  from leaderboard_is_aggregate [OF this prod.collapse [symmetric], of ?cs "''a''"] log agg
  show ?thesis by (simp only: case_prod_beta Let_def)
qed



end
