(* ===== verification/Auth_Properties.thy ===== *)
theory Auth_Properties
  imports Auth_Service
begin

text \<open>
  What accounts promise. The service relies on the store of accounts through the locale
  \<open>account_store\<close> and on \<^verbatim>\<open>bcrypt\<close> through its extension \<open>account_service\<close>; the
  interpretation on the Postgres methods discharges the laws of the store, and the properties are
  the locale's lemmas over them.
\<close>

section \<open>The store of accounts\<close>

text \<open>Further registrations, each with its context and its data.\<close>

fun registrations :: "'w auth_service \<Rightarrow> (bool \<times> string \<times> string \<times> string) list \<Rightarrow> 'w \<Rightarrow> 'w" where
  "registrations svc [] w = w"
| "registrations svc ((c, e, p, n) # rs) w = registrations svc rs (snd (Register svc c e p n w))"

locale account_store =
  fixes repo :: "'w auth_repo" and accounts :: "'w \<Rightarrow> string \<Rightarrow> user option" and sound :: "'w \<Rightarrow> bool"
  assumes create_law: "sound w \<Longrightarrow> repo_CreateUser repo c e n h w = (x, w') \<Longrightarrow> sound w'
      \<and> (case x of
           Inl _ \<Rightarrow> accounts w' = accounts w
         | Inr u \<Rightarrow> accounts w e = None \<and> user_Email u = e \<and> user_DisplayName u = n
             \<and> accounts w' = (accounts w)(e \<mapsto> u\<lparr>user_PasswordHash := h\<rparr>)
             \<and> (\<forall>e' u'. accounts w e' = Some u' \<longrightarrow> user_ID u' \<noteq> user_ID u))"
    and get_law: "repo_GetUserByEmail repo c e w = (y, w') \<Longrightarrow> accounts w' = accounts w \<and> (sound w \<longrightarrow> sound w')
      \<and> (\<forall>u. y = Inr u \<longrightarrow> accounts w e = Some u) \<and> (y = Inl ErrUserNotFound \<longrightarrow> accounts w e = None)
      \<and> y \<noteq> Inl ErrInvalidCredentials"

locale account_service = account_store repo accounts sound
  for repo :: "'w auth_repo" and accounts sound +
  fixes svc :: "'w auth_service"
  assumes uses_repo: "auth_repo svc = repo"
    and hash_frame: "GenerateFromPassword svc p w = (z, w') \<Longrightarrow> accounts w' = accounts w \<and> (sound w \<longrightarrow> sound w')"
    and hash_law: "GenerateFromPassword svc p w = (Inr h, w') \<Longrightarrow> CompareHashAndPassword svc h p = None"
begin

lemma register_effect:
  assumes "sound w" "Register svc c email password name w = (x, w')"
  shows "sound w' \<and> (case x of
      Inr (Inr u) \<Rightarrow> (\<exists>h. accounts w (go_ToLower email) = None \<and> user_Email u = go_ToLower email
        \<and> CompareHashAndPassword svc h password = None \<and> 8 \<le> length password
        \<and> accounts w' = (accounts w)(go_ToLower email \<mapsto> u\<lparr>user_PasswordHash := h\<rparr>)
        \<and> (\<forall>e' u'. accounts w e' = Some u' \<longrightarrow> user_ID u' \<noteq> user_ID u))
    | _ \<Rightarrow> accounts w' = accounts w)"
proof (cases "validateRegister (ParseAddress svc) email password name = []")
  case False
  with assms show ?thesis by (auto simp: Register_def Let_def)
next
  case True
  then have len: "8 \<le> length password" by (auto simp: validateRegister_def split: if_splits)
  obtain z w1 where z: "GenerateFromPassword svc password w = (z, w1)" by fastforce
  note frame = hash_frame [OF z]
  show ?thesis
  proof (cases z)
    case (Inl e)
    with True z frame assms show ?thesis by (auto simp: Register_def Let_def)
  next
    case (Inr h)
    obtain y w2 where y: "repo_CreateUser repo c (go_ToLower email) name h w1 = (y, w2)" by fastforce
    from True z Inr y assms(2) have xw: "x = Inr y" "w' = w2"
      by (auto simp: Register_def Let_def uses_repo split: sum.splits)
    show ?thesis
      using create_law [OF _ y] frame assms(1) hash_law [OF z [unfolded Inr]] len
      by (auto simp: xw split: sum.splits)
  qed
qed

lemma login_effect:
  assumes "Login svc c email password w = (x, w')"
  shows "accounts w' = accounts w \<and> (sound w \<longrightarrow> sound w') \<and>
    (case x of
       Inr (tok, t) \<Rightarrow> (\<exists>u. accounts w (go_ToLower email) = Some u
          \<and> CompareHashAndPassword svc (user_PasswordHash u) password = None
          \<and> auth_sign svc \<lparr>lc_sub = user_ID u, lc_email = user_Email u, lc_exp = t div second\<rparr> = Inr tok
          \<and> t = auth_now svc w' + 24 * 3600 * second)
     | Inl e \<Rightarrow> e = ErrInvalidCredentials \<longrightarrow> email = '''' \<or> password = '''' \<or> accounts w (go_ToLower email) = None
          \<or> (\<exists>u. accounts w (go_ToLower email) = Some u \<and> CompareHashAndPassword svc (user_PasswordHash u) password \<noteq> None))"
proof (cases "email = '''' \<or> password = ''''")
  case True
  with assms show ?thesis by (auto simp: Login_def)
next
  case False
  obtain y w1 where y: "repo_GetUserByEmail repo c (go_ToLower email) w = (y, w1)" by fastforce
  note law = get_law [OF y]
  show ?thesis
  proof (cases y)
    case (Inl e)
    with False y law assms show ?thesis
      by (cases e) (auto simp: Login_def uses_repo)
  next
    case (Inr u)
    with False y law assms show ?thesis
      by (auto simp: Login_def uses_repo Let_def split: if_splits sum.splits)
  qed
qed

lemma registrations_keep:
  "sound w \<Longrightarrow> accounts w e = Some u \<Longrightarrow> sound (registrations svc rs w) \<and> accounts (registrations svc rs w) e = Some u"
proof (induction rs arbitrary: w)
  case (Cons r rs)
  obtain c e' p n where r: "r = (c, e', p, n)" by (cases r)
  obtain x w1 where 1: "Register svc c e' p n w = (x, w1)" by fastforce
  from register_effect [OF Cons.prems(1) 1] Cons.prems(2)
  have "sound w1" "accounts w1 e = Some u" by (auto split: sum.splits if_splits)
  with Cons.IH 1 r show ?case by simp
qed simp

end

section \<open>The Postgres store\<close>

definition users_ok :: "db_tables \<Rightarrow> bool" where
  "users_ok t \<longleftrightarrow> distinct (mkeys (users t)) \<and> distinct (map (u_email \<circ> snd) (users t))"

definition pg_accounts :: "db \<Rightarrow> string \<Rightarrow> user option" where
  "pg_accounts s e = map_option user_of_row (row_by_email e (tables s))"

lemma row_by_email_Some: "row_by_email e t = Some (i, row) \<Longrightarrow> (i, row) \<in> set (users t) \<and> u_email row = e"
  by (fastforce simp: row_by_email_def find_Some_iff dest: nth_mem)

lemma row_by_email_None: "row_by_email e t = None \<longleftrightarrow> e \<notin> (u_email \<circ> snd) ` set (users t)"
  by (force simp: row_by_email_def find_None_iff)

lemma mput_fresh: "mget m k = None \<Longrightarrow> mput k v m = m @ [(k, v)]"
  by (induction m) (auto split: if_splits)

lemma find_snoc: "List.find P (xs @ [x]) = (case List.find P xs of None \<Rightarrow> if P x then Some x else None | Some y \<Rightarrow> Some y)"
  by (induction xs) auto

interpretation pg_acc: account_store "pg_auth_repo newid" pg_accounts "\<lambda>s. users_ok (tables s)" for newid
proof
  fix w c e n h x w'
  assume ok: "users_ok (tables w)" and "repo_CreateUser (pg_auth_repo newid) c e n h w = (x, w')"
  then have cr: "pg_CreateUser newid c e n h w = (x, w')" by (simp add: pg_auth_repo_def)
  obtain y w1 where y: "pg c (insert_user newid e n h) w = (y, w1)" by fastforce
  show "users_ok (tables w') \<and> (case x of
           Inl _ \<Rightarrow> pg_accounts w' = pg_accounts w
         | Inr u \<Rightarrow> pg_accounts w e = None \<and> user_Email u = e \<and> user_DisplayName u = n
             \<and> pg_accounts w' = (pg_accounts w)(e \<mapsto> u\<lparr>user_PasswordHash := h\<rparr>)
             \<and> (\<forall>e' u'. pg_accounts w e' = Some u' \<longrightarrow> user_ID u' \<noteq> user_ID u))"
  proof (cases y)
    case (Inl e)
    with pg_Inl [OF y [unfolded Inl]] cr y ok show ?thesis
      by (cases e) (auto simp: pg_CreateUser_def pg_accounts_def fun_eq_iff)
  next
    case (Inr u)
    from y Inr have ins: "insert_user newid e n h (w\<lparr>stmt_no := Suc (stmt_no w)\<rparr>) = (Inr u, tables w1)"
      by (auto elim!: pg_Inr)
    let ?i = "newid (w\<lparr>stmt_no := Suc (stmt_no w)\<rparr>)"
    let ?row = "\<lparr>u_email = e, u_display_name = n, u_password_hash = h, u_created_at = db_now w\<rparr>"
    from ins have new: "row_by_email e (tables w) = None" "mget (users (tables w)) ?i = None"
      and u: "u = \<lparr>user_ID = ?i, user_Email = e, user_DisplayName = n, user_PasswordHash = '''', user_CreatedAt = db_now w\<rparr>"
      and "tables w1 = (tables w)\<lparr>users := mput ?i ?row (users (tables w))\<rparr>"
      by (cases "row_by_email e (tables w)"; auto simp: insert_user_def Let_def split: if_splits)+
    then have t: "users (tables w1) = users (tables w) @ [(?i, ?row)]" by (simp add: mput_fresh)
    have "users_ok (tables w1)"
      using ok new unfolding users_ok_def t row_by_email_None by (auto simp: map_of_eq_None_iff)
    moreover have "pg_accounts w1 = (pg_accounts w)(e \<mapsto> u\<lparr>user_PasswordHash := h\<rparr>)"
      using new(1) by (auto simp: fun_eq_iff pg_accounts_def row_by_email_def t find_snoc u user_of_row_def split: option.split)
    moreover have "user_ID u' \<noteq> ?i" if "pg_accounts w e' = Some u'" for e' u'
      using that new(2) by (auto simp: pg_accounts_def user_of_row_def map_of_eq_None_iff image_iff dest!: row_by_email_Some)
    ultimately show ?thesis using cr y Inr new(1) by (auto simp: pg_CreateUser_def u pg_accounts_def)
  qed
next
  fix c e w y w'
  assume "repo_GetUserByEmail (pg_auth_repo newid) c e w = (y, w')"
  then have g: "pg_GetUserByEmail c e w = (y, w')" by (simp add: pg_auth_repo_def)
  have t: "tables w' = tables w"
    using g pg_read [of c "\<lambda>s. case row_by_email e (tables s) of None \<Rightarrow> Inl ErrNoRows | Some r \<Rightarrow> Inr (user_of_row r)" w]
    by (auto simp: pg_GetUserByEmail_def split: prod.splits sum.splits pg_error.splits)
  have "(\<forall>u. y = Inr u \<longrightarrow> pg_accounts w e = Some u) \<and> (y = Inl ErrUserNotFound \<longrightarrow> pg_accounts w e = None)
      \<and> y \<noteq> Inl ErrInvalidCredentials"
    using g by (auto simp: pg_GetUserByEmail_def pg_def pg_accounts_def Let_def split: option.splits sum.splits if_splits prod.splits)
  with t show "pg_accounts w' = pg_accounts w \<and> (users_ok (tables w) \<longrightarrow> users_ok (tables w'))
      \<and> (\<forall>u. y = Inr u \<longrightarrow> pg_accounts w e = Some u) \<and> (y = Inl ErrUserNotFound \<longrightarrow> pg_accounts w e = None)
      \<and> y \<noteq> Inl ErrInvalidCredentials"
    by (auto simp: pg_accounts_def fun_eq_iff)
qed

text \<open>A password digest of the shape \<^verbatim>\<open>bcrypt\<close> documents: the hash carries its salt, and the
  comparison computes the digest \<open>f\<close> again with it; passwords beyond 72 bytes are refused. It
  discharges the laws of \<open>account_service\<close> whatever \<open>f\<close> is.\<close>

definition salted_hash :: "(db \<Rightarrow> string) \<Rightarrow> (string \<Rightarrow> string \<Rightarrow> string) \<Rightarrow> string \<Rightarrow> db \<Rightarrow> (go_error + string) \<times> db" where
  "salted_hash salt f p s =
     (let k = List.filter (\<lambda>c. c \<noteq> CHR ''$'') (salt s) in
      if 72 < length p then (Inl (ErrOther ''bcrypt: password length exceeds 72 bytes''), s)
      else (Inr (k @ CHR ''$'' # f k p), s\<lparr>rand_pos := Suc (rand_pos s)\<rparr>))"

definition salted_compare :: "(string \<Rightarrow> string \<Rightarrow> string) \<Rightarrow> string \<Rightarrow> string \<Rightarrow> go_error option" where
  "salted_compare f h p =
     (let k = takeWhile (\<lambda>c. c \<noteq> CHR ''$'') h in
      if h = k @ CHR ''$'' # f k p then None else Some (ErrOther ''bcrypt: mismatch''))"

definition pg_auth :: "(db \<Rightarrow> user_id) \<Rightarrow> (string \<Rightarrow> bool) \<Rightarrow> (db \<Rightarrow> string) \<Rightarrow> (string \<Rightarrow> string \<Rightarrow> string) \<Rightarrow>
    (login_claims \<Rightarrow> go_error + string) \<Rightarrow> db auth_service" where
  "pg_auth newid valid salt f sign = \<lparr>auth_repo = pg_auth_repo newid, ParseAddress = valid,
     GenerateFromPassword = salted_hash salt f, CompareHashAndPassword = salted_compare f, auth_sign = sign,
     auth_now = db_now\<rparr>"

lemma salted_hash_law:
  "salted_hash salt f p s = (z, s') \<Longrightarrow> tables s' = tables s \<and> (\<forall>h. z = Inr h \<longrightarrow> salted_compare f h p = None)"
  by (auto simp: salted_hash_def salted_compare_def Let_def takeWhile_at_space split: if_splits)

text \<open>The laws of the password library, for any service over the Postgres store.\<close>

lemma pg_account_service:
  assumes "auth_repo svc = pg_auth_repo newid"
    and "\<And>p w z w'. GenerateFromPassword svc p w = (z, w') \<Longrightarrow>
      tables w' = tables w \<and> (\<forall>h. z = Inr h \<longrightarrow> CompareHashAndPassword svc h p = None)"
  shows "account_service (pg_auth_repo newid) pg_accounts (\<lambda>s. users_ok (tables s)) svc"
proof (intro account_service.intro pg_acc.account_store_axioms account_service_axioms.intro)
  fix p w z w'
  assume g: "GenerateFromPassword svc p w = (z, w')"
  show "pg_accounts w' = pg_accounts w \<and> (users_ok (tables w) \<longrightarrow> users_ok (tables w'))"
    using assms(2) [OF g] by (simp add: pg_accounts_def fun_eq_iff)
next
  fix p w h w'
  assume g: "GenerateFromPassword svc p w = (Inr h, w')"
  show "CompareHashAndPassword svc h p = None" using assms(2) [OF g] by simp
qed (rule assms(1))

interpretation pg_svc: account_service "pg_auth_repo newid" pg_accounts "\<lambda>s. users_ok (tables s)"
  "pg_auth newid valid salt f sign" for newid valid salt f sign
  by (rule pg_account_service) (simp_all add: pg_auth_def salted_hash_law)

section \<open>The middleware\<close>

lemma Auth_user_live:
  "Auth_user parse now (''Bearer '' @ tok) =
     (if tok = '''' then None
      else case live_claims parse now tok of None \<Rightarrow> None
        | Some m \<Rightarrow> if mc_sub m = Some '''' then None else mc_sub m)"
  by (auto simp: Auth_user_def go_HasPrefix_def go_TrimPrefix_def live_claims_def Let_def
      split: sum.split option.split)

section \<open>Properties\<close>

text \<open>C17: Whoever registers can log in. After a successful registration - and any number of further
  registrations, with whatever outcome - the same password with any spelling of the e-mail address
  up to case is never refused as a wrong credential; if the log-in gets an answer at all, the token
  is accepted by the bearer check for the next 24 hours, as exactly the account that was created.
  (Assumed: a hash compares equal to its password, and the token library reads back what it signs.)\<close>

theorem registered_user_logs_in:
  assumes "auth_repo svc = pg_auth_repo newid"
    and "\<And>p w z w'. GenerateFromPassword svc p w = (z, w') \<Longrightarrow>
      tables w' = tables w \<and> (\<forall>h. z = Inr h \<longrightarrow> CompareHashAndPassword svc h p = None)"
    and "\<And>cl tok. auth_sign svc cl = Inr tok \<Longrightarrow> tok \<noteq> '''' \<and> reads_back parse tok
      \<lparr>mc_sub = Some (lc_sub cl), mc_user_id = None, mc_race_id = None, mc_exp = Some (lc_exp cl)\<rparr>"
    and "users_ok (tables s)" "Register svc c email password name s = (Inr (Inr u), s1)" "user_ID u \<noteq> ''''"
    and "Login svc c2 email2 password (registrations svc rs s1) = (x, s3)"
    and "go_ToLower email2 = go_ToLower email" "email2 \<noteq> ''''"
  shows "case x of Inl e \<Rightarrow> e \<noteq> ErrInvalidCredentials
    | Inr (tok, t) \<Rightarrow> t = auth_now svc s3 + 24 * 3600 * second
        \<and> (\<forall>now \<le> t - second. Auth_user parse now (''Bearer '' @ tok) = Some (user_ID u))"
proof -
  note svc = pg_account_service [OF assms(1,2)]
  note reg = account_service.register_effect [OF svc assms(4,5)]
  then obtain h where h: "CompareHashAndPassword svc h password = None" "8 \<le> length password"
    "pg_accounts s1 (go_ToLower email) = Some (u\<lparr>user_PasswordHash := h\<rparr>)" "users_ok (tables s1)"
    by auto
  have kept: "pg_accounts (registrations svc rs s1) (go_ToLower email2) = Some (u\<lparr>user_PasswordHash := h\<rparr>)"
    unfolding assms(8) using account_service.registrations_keep [OF svc h(4,3)] by simp
  note log = account_service.login_effect [OF svc assms(7)]
  show ?thesis
  proof (cases x)
    case (Inl e)
    with log kept h(1,2) assms(9) show ?thesis by auto
  next
    case (Inr r)
    obtain tok t where r: "r = (tok, t)" by (cases r)
    with log Inr kept have sig: "auth_sign svc \<lparr>lc_sub = user_ID u, lc_email = user_Email u, lc_exp = t div second\<rparr> = Inr tok"
      and t: "t = auth_now svc s3 + 24 * 3600 * second" by auto
    have "Auth_user parse now (''Bearer '' @ tok) = Some (user_ID u)" if "now \<le> t - second" for now
    proof -
      have "now < t div second * second"
        using that div_mult_mod_eq [of t second] pos_mod_bound [of second t] by linarith
      moreover have "reads_back parse tok
          \<lparr>mc_sub = Some (user_ID u), mc_user_id = None, mc_race_id = None, mc_exp = Some (t div second)\<rparr>" "tok \<noteq> []"
        using assms(3) [OF sig] by simp_all
      ultimately show ?thesis unfolding Auth_user_live using assms(6) reads_back_live by fastforce
    qed
    with Inr r t show ?thesis by simp
  qed
qed

text \<open>A token library for the witness: the text of a token is its subject and its last second.\<close>

definition demo_login_sign :: "login_claims \<Rightarrow> go_error + string" where
  "demo_login_sign cl = (if lc_exp cl = 86400 then Inr (CHR ''L'' # lc_sub cl) else Inl (ErrOther ''sign''))"

definition demo_login_parse :: jwt_parser where
  "demo_login_parse now tok = (if tok \<noteq> [] \<and> now < 86400 * second
     then Inr (True, \<lparr>mc_sub = Some (tl tok), mc_user_id = None, mc_race_id = None, mc_exp = Some 86400\<rparr>)
     else Inl (ErrOther ''token''))"

definition demo_auth :: "db auth_service" where
  "demo_auth = pg_auth (\<lambda>_. ''c'') (\<lambda>_. True) (\<lambda>_. ''salt'') (\<lambda>k p. k @ p) demo_login_sign"

lemma demo_lower: "go_ToLower ''C@X'' = ''c@x''" "go_ToLower ''c@x'' = ''c@x''"
  by code_simp+

lemma demo_user: "Register demo_auth False ''C@X'' ''password'' ''Cid'' (demo_db\<lparr>db_now := 0\<rparr>)
  = (Inr (Inr \<lparr>user_ID = ''c'', user_Email = ''c@x'', user_DisplayName = ''Cid'', user_PasswordHash = '''', user_CreatedAt = 0\<rparr>),
     (demo_db\<lparr>db_now := 0\<rparr>)\<lparr>rand_pos := 1, stmt_no := 1, tables := demo_tables\<lparr>users := users demo_tables @
        [(''c'', \<lparr>u_email = ''c@x'', u_display_name = ''Cid'', u_password_hash = ''salt$saltpassword'', u_created_at = 0\<rparr>)]\<rparr>\<rparr>)"
proof -
  let ?s = "demo_db\<lparr>db_now := 0\<rparr>"
  have v: "validateRegister (\<lambda>_. True) ''C@X'' ''password'' ''Cid'' = []"
    by (simp add: validateRegister_def go_TrimSpace_def go_is_space_def Let_def)
  have h: "salted_hash (\<lambda>_. ''salt'') (\<lambda>k p. k @ p) ''password'' ?s = (Inr ''salt$saltpassword'', ?s\<lparr>rand_pos := 1\<rparr>)"
    by (simp add: salted_hash_def demo_db_def Let_def)
  have n: "row_by_email ''c@x'' demo_tables = None" "mget (users demo_tables) ''c'' = None"
    by (simp_all add: row_by_email_def demo_tables_def)
  then have t: "insert_user (\<lambda>_. ''c'') ''c@x'' ''Cid'' k (?s\<lparr>rand_pos := Suc 0, stmt_no := Suc 0\<rparr>)
      = (Inr \<lparr>user_ID = ''c'', user_Email = ''c@x'', user_DisplayName = ''Cid'', user_PasswordHash = '''', user_CreatedAt = 0\<rparr>,
         demo_tables\<lparr>users := users demo_tables @
           [(''c'', \<lparr>u_email = ''c@x'', u_display_name = ''Cid'', u_password_hash = k, u_created_at = 0\<rparr>)]\<rparr>)" for k
    by (simp add: insert_user_def mput_fresh Let_def)
  show ?thesis
    by (simp add: Register_def demo_auth_def pg_auth_def v h demo_lower pg_auth_repo_def pg_CreateUser_def pg_def t Let_def)
qed

lemma demo_login:
  "fst (Login demo_auth False ''c@x'' ''password'' (snd (Register demo_auth False ''C@X'' ''password'' ''Cid'' (demo_db\<lparr>db_now := 0\<rparr>))))
     = Inr (''Lc'', 86400 * second)"
proof -
  obtain s1 where s1: "snd (Register demo_auth False ''C@X'' ''password'' ''Cid'' (demo_db\<lparr>db_now := 0\<rparr>)) = s1"
    and u: "s1 = (demo_db\<lparr>db_now := 0\<rparr>)\<lparr>rand_pos := 1, stmt_no := 1, tables := demo_tables\<lparr>users := users demo_tables @
        [(''c'', \<lparr>u_email = ''c@x'', u_display_name = ''Cid'', u_password_hash = ''salt$saltpassword'', u_created_at = 0\<rparr>)]\<rparr>\<rparr>"
    using demo_user by simp
  have r: "row_by_email ''c@x'' (tables s1)
      = Some (''c'', \<lparr>u_email = ''c@x'', u_display_name = ''Cid'', u_password_hash = ''salt$saltpassword'', u_created_at = 0\<rparr>)"
    by (simp add: u row_by_email_def demo_tables_def)
  show ?thesis unfolding s1
    by (simp add: Login_def demo_auth_def pg_auth_def pg_auth_repo_def pg_GetUserByEmail_def pg_def demo_lower r
        user_of_row_def salted_compare_def demo_login_sign_def Let_def) (simp add: u)
qed

theorem registered_user_logs_in_witness:
  "\<exists>u s1. Register demo_auth False ''C@X'' ''password'' ''Cid'' (demo_db\<lparr>db_now := 0\<rparr>) = (Inr (Inr u), s1)
     \<and> fst (Login demo_auth False ''c@x'' ''password'' s1) = Inr (''Lc'', 86400 * second)
     \<and> Auth_user demo_login_parse 0 (''Bearer '' @ ''Lc'') = Some (user_ID u)"
proof -
  let ?s = "demo_db\<lparr>db_now := 0\<rparr>"
  obtain u s1 where u: "Register demo_auth False ''C@X'' ''password'' ''Cid'' ?s = (Inr (Inr u), s1)" "user_ID u = ''c''"
    using demo_user by simp
  have login: "fst (Login demo_auth False ''c@x'' ''password'' s1) = Inr (''Lc'', 86400 * second)"
    using demo_login u(1) by simp
  then obtain s3 where l: "Login demo_auth False ''c@x'' ''password'' (registrations demo_auth [] s1) = (Inr (''Lc'', 86400 * second), s3)"
    by (metis prod.collapse registrations.simps(1))
  have ok: "users_ok (tables ?s)" by (simp add: users_ok_def demo_tables_def)
  have "case Inr (''Lc'', 86400 * second) of Inl e \<Rightarrow> e \<noteq> ErrInvalidCredentials
    | Inr (tok, t) \<Rightarrow> t = auth_now demo_auth s3 + 24 * 3600 * second
        \<and> (\<forall>now \<le> t - second. Auth_user demo_login_parse now (''Bearer '' @ tok) = Some (user_ID u))"
  proof (rule registered_user_logs_in [OF _ _ _ ok u(1) _ l])
    show "auth_repo demo_auth = pg_auth_repo (\<lambda>_. ''c'')" by (simp add: demo_auth_def pg_auth_def)
  next
    fix p w z w'
    assume "GenerateFromPassword demo_auth p w = (z, w')"
    then show "tables w' = tables w \<and> (\<forall>h. z = Inr h \<longrightarrow> CompareHashAndPassword demo_auth h p = None)"
      using salted_hash_law by (simp add: demo_auth_def pg_auth_def)
  next
    fix cl tok
    assume "auth_sign demo_auth cl = Inr tok"
    then show "tok \<noteq> '''' \<and> reads_back demo_login_parse tok
        \<lparr>mc_sub = Some (lc_sub cl), mc_user_id = None, mc_race_id = None, mc_exp = Some (lc_exp cl)\<rparr>"
      by (auto simp: demo_auth_def pg_auth_def demo_login_sign_def demo_login_parse_def reads_back_def split: if_splits)
  qed (simp_all add: demo_lower u(2))
  then have "Auth_user demo_login_parse 0 (''Bearer '' @ ''Lc'') = Some (user_ID u)" unfolding sum.case prod.case by simp
  with u(1) login show ?thesis by blast
qed

end
