(* ===== verification/Sessions.thy ===== *)
theory Sessions
  imports Gateway Auth_Properties
begin

text \<open>
  The two kinds of token of the program meet here: the bearer token of a log-in
  (\<^verbatim>\<open>internal/auth\<close>, checked by \<^verbatim>\<open>internal/middleware/auth.go\<close>) and the
  session token of a join (\<^verbatim>\<open>internal/race\<close>, checked by the gateway). Both are signed with
  the same secret, so only their claims tell them apart.
\<close>

lemma verifySessionToken_live:
  "verifySessionToken parse now tok = Inr (u, i) \<longleftrightarrow>
     (\<exists>m. live_claims parse now tok = Some m \<and> mc_user_id m = Some u \<and> mc_race_id m = Some i \<and> u \<noteq> '''' \<and> i \<noteq> '''')"
  by (auto simp: verifySessionToken_def live_claims_def split: sum.splits option.splits if_splits)

section \<open>Properties\<close>

text \<open>C18: Neither kind of token passes for the other, although both are signed with one secret: a
  log-in token never opens a WebSocket, at any time, for any race and whatever Redis holds, and a
  session token never authenticates a REST request. (Assumed of the token library: reading a token
  it has signed gives the claims that were signed.)\<close>

theorem tokens_do_not_mix:
  assumes "\<And>cl tok. auth_sign asvc cl = Inr tok \<Longrightarrow> reads_back parse tok
      \<lparr>mc_sub = Some (lc_sub cl), mc_user_id = None, mc_race_id = None, mc_exp = Some (lc_exp cl)\<rparr>"
    and "\<And>c tok. svc_sign rsvc c = Inr tok \<Longrightarrow> reads_back parse tok
      \<lparr>mc_sub = None, mc_user_id = Some (cl_user_id c), mc_race_id = Some (cl_race_id c), mc_exp = Some (cl_exp c)\<rparr>"
    and "Login asvc c email password w = (Inr (bearer, t), w')"
    and "signSessionToken rsvc i u v = (Inr session, v')"
  shows "ws_admit l parse now ctx j bearer r = (Rejected 401 ''unauthorized'', r)
    \<and> Auth parse now (''Bearer '' @ session) handler x = (WriteError 401 ''unauthorized'', x)"
proof
  obtain cl where b: "auth_sign asvc cl = Inr bearer"
    using assms(3) by (auto simp: Login_def Let_def split: if_splits prod.splits sum.splits go_error.splits)
  have "verifySessionToken parse now bearer \<noteq> Inr (u', i')" for u' i'
    by (auto simp: verifySessionToken_live dest: reads_back_claims [OF assms(1) [OF b]])
  then obtain e where "verifySessionToken parse now bearer = Inl e"
    by (metis old.prod.exhaust sum.exhaust)
  then show "ws_admit l parse now ctx j bearer r = (Rejected 401 ''unauthorized'', r)" by (simp add: ws_admit_def)
  obtain sc where s: "svc_sign rsvc sc = Inr session"
    using assms(4) by (auto simp: signSessionToken_def split: sum.splits)
  have "Auth_user parse now (''Bearer '' @ session) = None"
    unfolding Auth_user_live by (auto split: option.split dest: reads_back_claims [OF assms(2) [OF s]])
  then show "Auth parse now (''Bearer '' @ session) handler x = (WriteError 401 ''unauthorized'', x)"
    unfolding Auth_def by simp
qed

text \<open>One library for both kinds: a first letter says which.\<close>

definition demo_both :: jwt_parser where
  "demo_both now tok = (case tok of [] \<Rightarrow> Inl (ErrOther ''token'')
     | k # rest \<Rightarrow> if k = CHR ''L'' then demo_login_parse now tok else demo_parse now rest)"

definition demo_session :: "db race_service" where
  "demo_session = demo_signer\<lparr>svc_sign := (\<lambda>c. case demo_sign c of Inl e \<Rightarrow> Inl e | Inr s \<Rightarrow> Inr (CHR ''S'' # s))\<rparr>"

theorem tokens_do_not_mix_witness:
  "\<exists>bearer session. fst (Login demo_auth False ''c@x'' ''password''
       (snd (Register demo_auth False ''C@X'' ''password'' ''Cid'' (demo_db\<lparr>db_now := 0\<rparr>)))) = Inr (bearer, 86400 * second)
     \<and> fst (signSessionToken demo_session ''r1'' ''a'' demo_db) = Inr session
     \<and> fst (ws_admit demo_locator demo_both 0 False ''r1'' bearer empty_redis) = Rejected 401 ''unauthorized''
     \<and> Auth_user demo_both 0 (''Bearer '' @ session) = None"
proof -
  let ?s1 = "snd (Register demo_auth False ''C@X'' ''password'' ''Cid'' (demo_db\<lparr>db_now := 0\<rparr>))"
  obtain s3 where login: "Login demo_auth False ''c@x'' ''password'' ?s1 = (Inr (''Lc'', 86400 * second), s3)"
    by (metis demo_login prod.collapse)
  have sess: "signSessionToken demo_session ''r1'' ''a'' demo_db = (Inr ''Sa r1'', demo_db)"
    by (simp add: signSessionToken_def demo_session_def demo_signer_def demo_sign_def)
  have a: "reads_back demo_both tok
      \<lparr>mc_sub = Some (lc_sub cl), mc_user_id = None, mc_race_id = None, mc_exp = Some (lc_exp cl)\<rparr>"
    if "auth_sign demo_auth cl = Inr tok" for cl tok
    using that by (auto simp: demo_auth_def pg_auth_def demo_login_sign_def demo_login_parse_def demo_both_def reads_back_def
        split: if_splits)
  have b: "reads_back demo_both tok
      \<lparr>mc_sub = None, mc_user_id = Some (cl_user_id c), mc_race_id = Some (cl_race_id c), mc_exp = Some (cl_exp c)\<rparr>"
    if "svc_sign demo_session c = Inr tok" for c tok
    using that by (auto simp: demo_session_def demo_signer_def demo_sign_def demo_parse_def demo_both_def reads_back_def
        takeWhile_at_space dropWhile_at_space split: if_splits sum.splits)
  have "ws_admit demo_locator demo_both 0 False ''r1'' ''Lc'' empty_redis = (Rejected 401 ''unauthorized'', empty_redis)
    \<and> Auth demo_both 0 (''Bearer '' @ ''Sa r1'') (\<lambda>_ x. (WriteJSON 200 (), x)) () = (WriteError 401 ''unauthorized'', ())"
    by (rule tokens_do_not_mix [OF _ _ login sess]; (erule a | erule b))
  then have "Auth_user demo_both 0 (''Bearer '' @ ''Sa r1'') = None"
    unfolding Auth_def by (cases "Auth_user demo_both 0 (''Bearer '' @ ''Sa r1'')") simp_all
  with login sess \<open>ws_admit _ _ _ _ _ _ _ = _ \<and> _\<close> show ?thesis by (metis fst_conv)
qed

end
