(* ===== verification/Consumer.thy ===== *)
theory Consumer
  imports Event_Log
begin

text \<open>
  The consumer of the event log (\<^verbatim>\<open>internal/consumer\<close>) and the bulk insert behind it
  (\<^verbatim>\<open>internal/postgres/workout_sample_repository.go\<close>). What the loops call is the record
  \<open>consumer_deps\<close>; one iteration of a loop is one function of the state, a run is a number of
  iterations. Metrics, spans and logging are left out.
\<close>

section \<open>The bulk insert\<close>

definition sample_row_of :: "workout_sample \<Rightarrow> sample_row" where
  "sample_row_of s = \<lparr>s_race_id = ws_RaceID s, s_user_id = ws_UserID s, s_ts = ws_Ts s,
     s_distance_m = ws_DistanceM s, s_pace_watt = ws_PaceWatt s\<rparr>"

text \<open>\<^verbatim>\<open>COPY\<close> is one statement: all rows or none.\<close>

definition copy_samples :: "workout_sample list \<Rightarrow> db \<Rightarrow> (pg_error + unit) \<times> db_tables" where
  "copy_samples samples s =
     (let t = tables s in
      if list_all (\<lambda>x. mget (races t) (ws_RaceID x) \<noteq> None \<and> mget (users t) (ws_UserID x) \<noteq> None) samples
      then (Inr (), t\<lparr>workout_samples := workout_samples t @ map sample_row_of samples\<rparr>)
      else (Inl ForeignKeyViolation, t))"

definition pg_InsertBatch :: "bool \<Rightarrow> workout_sample list \<Rightarrow> db \<Rightarrow> go_error option \<times> db" where
  "pg_InsertBatch ctx samples s =
     (case pg ctx (copy_samples samples) s of
        (Inl ForeignKeyViolation, s1) \<Rightarrow> (Some ErrPermanentWrite, s1)
      | (Inl _, s1) \<Rightarrow> (Some (wrapped ''insert workout sample batch''), s1)
      | (Inr _, s1) \<Rightarrow> (None, s1))"

section \<open>What the loops call\<close>

datatype fetch_outcome = Fetched kafka_message | FetchTimeout | FetchFailed

text \<open>The Boolean first argument of a call is the state of the context it is passed. \<open>CtxErr\<close> reads
  the loop's own context.\<close>

record 'w consumer_deps =
  InsertBatch :: "bool \<Rightarrow> workout_sample list \<Rightarrow> 'w \<Rightarrow> go_error option \<times> 'w"
  Reconcile :: "bool \<Rightarrow> race_id \<Rightarrow> race_result_json list \<Rightarrow> 'w \<Rightarrow> go_error option \<times> 'w"
  PublishRaw :: "bool \<Rightarrow> string \<Rightarrow> string \<Rightarrow> frame \<Rightarrow> 'w \<Rightarrow> go_error option \<times> 'w"
  CommitMessages :: "bool \<Rightarrow> kafka_message list \<Rightarrow> 'w \<Rightarrow> go_error option \<times> 'w"
  FetchMessage :: "'w \<Rightarrow> fetch_outcome \<times> 'w"
  CtxErr :: "'w \<Rightarrow> bool \<times> 'w"
  consumer_Now :: "'w \<Rightarrow> time \<times> 'w"
  ParseTime :: "string \<Rightarrow> time option"

definition workoutSampleDLQTopic :: string where
  "workoutSampleDLQTopic = TopicWorkoutSample @ ''.dlq''"

definition raceFinishedDLQTopic :: string where
  "raceFinishedDLQTopic = TopicRaceFinished @ ''.dlq''"

definition flushBatchSize :: nat where
  "flushBatchSize = 200"

definition flushInterval :: duration where
  "flushInterval = 3 * second"

definition deadLetter :: "'w consumer_deps \<Rightarrow> bool \<Rightarrow> string \<Rightarrow> kafka_message \<Rightarrow> 'w \<Rightarrow> 'w" where
  "deadLetter cd ctx topic msg w = snd (PublishRaw cd ctx topic (km_Key msg) (km_Value msg) w)"

section \<open>Batches\<close>

record sample_batch =
  samples :: "workout_sample list"
  messages :: "kafka_message list"
  openedAt :: time

definition empty_batch :: sample_batch where
  "empty_batch = \<lparr>samples = [], messages = [], openedAt = zero_time\<rparr>"

definition batch_add :: "workout_sample \<Rightarrow> kafka_message \<Rightarrow> time \<Rightarrow> sample_batch \<Rightarrow> sample_batch" where
  "batch_add s msg now b = b\<lparr>samples := samples b @ [s], messages := messages b @ [msg],
     openedAt := (if samples b = [] then now else openedAt b)\<rparr>"

definition shouldFlush :: "time \<Rightarrow> sample_batch \<Rightarrow> bool" where
  "shouldFlush now b = (if samples b = [] then False
     else flushBatchSize \<le> length (samples b) \<or> flushInterval \<le> now - openedAt b)"

definition batch_reset :: "sample_batch \<Rightarrow> sample_batch" where
  "batch_reset b = b\<lparr>samples := [], messages := []\<rparr>"

section \<open>The loop over \<^verbatim>\<open>workout.sample\<close>\<close>

definition flushWorkoutSampleBatch :: "'w consumer_deps \<Rightarrow> bool \<Rightarrow> sample_batch \<times> 'w \<Rightarrow> sample_batch \<times> 'w" where
  "flushWorkoutSampleBatch cd ctx = (\<lambda>(b, w).
     if samples b = [] then (b, w)
     else
       (case InsertBatch cd ctx (samples b) w of
          (None, w1) \<Rightarrow> (batch_reset b, snd (CommitMessages cd ctx (messages b) w1))
        | (Some ErrPermanentWrite, w1) \<Rightarrow>
            let w2 = fold (deadLetter cd ctx workoutSampleDLQTopic) (messages b) w1
            in (batch_reset b, snd (CommitMessages cd ctx (messages b) w2))
        | (Some _, w1) \<Rightarrow> (b, w1)))"

datatype loop_end = Continue | Return

text \<open>The end of an iteration: the test for a flush.\<close>

definition workout_flush_check :: "'w consumer_deps \<Rightarrow> sample_batch \<times> 'w \<Rightarrow> loop_end \<times> sample_batch \<times> 'w" where
  "workout_flush_check cd = (\<lambda>(b, w).
     let (now, w1) = consumer_Now cd w in
     if shouldFlush now b
     then (let (done, w2) = CtxErr cd w1 in (Continue, flushWorkoutSampleBatch cd done (b, w2)))
     else (Continue, b, w1))"

definition workout_iteration :: "'w consumer_deps \<Rightarrow> sample_batch \<times> 'w \<Rightarrow> loop_end \<times> sample_batch \<times> 'w" where
  "workout_iteration cd = (\<lambda>(b, w).
     let (done, w1) = CtxErr cd w in
     if done then (Return, flushWorkoutSampleBatch cd False (b, w1))
     else
       (case FetchMessage cd w1 of
          (Fetched msg, w2) \<Rightarrow>
            (case decodeWorkoutSample (ParseTime cd) (km_Value msg) of
               Inl _ \<Rightarrow>
                 let (done, w3) = CtxErr cd w2;
                     w4 = deadLetter cd done workoutSampleDLQTopic msg w3;
                     (done, w5) = CtxErr cd w4
                 in (Continue, b, snd (CommitMessages cd done [msg] w5))
             | Inr s \<Rightarrow>
                 let (now, w3) = consumer_Now cd w2
                 in workout_flush_check cd (batch_add s msg now b, w3))
        | (FetchTimeout, w2) \<Rightarrow> workout_flush_check cd (b, w2)
        | (FetchFailed, w2) \<Rightarrow>
            let (done, w3) = CtxErr cd w2 in
            if done then (Return, flushWorkoutSampleBatch cd False (b, w3)) else (Continue, b, w3)))"

fun runWorkoutSampleLoop :: "nat \<Rightarrow> 'w consumer_deps \<Rightarrow> sample_batch \<times> 'w \<Rightarrow> loop_end \<times> sample_batch \<times> 'w" where
  "runWorkoutSampleLoop 0 cd s = (Continue, s)"
| "runWorkoutSampleLoop (Suc n) cd s =
     (case workout_iteration cd s of
        (Return, s1) \<Rightarrow> (Return, s1)
      | (Continue, s1) \<Rightarrow> runWorkoutSampleLoop n cd s1)"

section \<open>The loop over \<^verbatim>\<open>race.finished\<close>\<close>

text \<open>The context inside is a fresh one of the message's trace, never cancelled.\<close>

definition processRaceFinishedMessage :: "'w consumer_deps \<Rightarrow> kafka_message \<Rightarrow> 'w \<Rightarrow> 'w" where
  "processRaceFinishedMessage cd msg w =
     (case decodeRaceFinished (km_Value msg) of
        Inl _ \<Rightarrow> snd (CommitMessages cd False [msg] (deadLetter cd False raceFinishedDLQTopic msg w))
      | Inr (i, results) \<Rightarrow>
          (case Reconcile cd False i results w of
             (None, w1) \<Rightarrow> snd (CommitMessages cd False [msg] w1)
           | (Some ErrPermanentWrite, w1) \<Rightarrow>
               snd (CommitMessages cd False [msg] (deadLetter cd False raceFinishedDLQTopic msg w1))
           | (Some _, w1) \<Rightarrow> w1))"

definition finished_iteration :: "'w consumer_deps \<Rightarrow> 'w \<Rightarrow> loop_end \<times> 'w" where
  "finished_iteration cd w =
     (case FetchMessage cd w of
        (Fetched msg, w1) \<Rightarrow> (Continue, processRaceFinishedMessage cd msg w1)
      | (_, w1) \<Rightarrow> let (done, w2) = CtxErr cd w1 in (if done then Return else Continue, w2))"

fun runRaceFinishedLoop :: "nat \<Rightarrow> 'w consumer_deps \<Rightarrow> 'w \<Rightarrow> loop_end \<times> 'w" where
  "runRaceFinishedLoop 0 cd w = (Continue, w)"
| "runRaceFinishedLoop (Suc n) cd w =
     (case finished_iteration cd w of
        (Return, w1) \<Rightarrow> (Return, w1)
      | (Continue, w1) \<Rightarrow> runRaceFinishedLoop n cd w1)"

end
