(* ===== verification/Consumer_Properties.thy ===== *)
theory Consumer_Properties
  imports Consumer Race_Store_Properties
begin

text \<open>
  What the consumer's loops promise. The loop over \<^verbatim>\<open>workout.sample\<close> relies on a table, a
  dead-letter topic and a position in the log; the locale \<open>sample_sink\<close> states what, and the
  loop's invariant is proved there once. The interpretation is the Postgres repository together
  with one partition of a broker whose answers, clock and shutdown follow a schedule.
\<close>

section \<open>The contract of a sink\<close>

lemma fold_max_le: "\<forall>x \<in> set xs. x \<le> n \<Longrightarrow> m \<le> n \<Longrightarrow> fold max xs m \<le> (n :: nat)"
  by (induction xs arbitrary: m) auto

lemma fold_max_ge: "m \<le> fold max xs (m :: nat)"
  by (induction xs arbitrary: m) (auto intro: order_trans [OF max.cobounded2])

locale sample_sink =
  fixes cd :: "'w consumer_deps"
    and stored :: "'w \<Rightarrow> workout_sample set"
    and lettered :: "'w \<Rightarrow> (string \<times> frame) set"
    and topic_log :: "'w \<Rightarrow> kafka_message list"
    and pos :: "'w \<Rightarrow> nat"
    and mark :: "'w \<Rightarrow> nat"
  assumes insert_stores: "InsertBatch cd c ss w = (None, w') \<Longrightarrow> set ss \<subseteq> stored w'"
    and insert_keeps: "InsertBatch cd c ss w = (e, w') \<Longrightarrow> stored w \<subseteq> stored w' \<and> lettered w' = lettered w \<and>
      topic_log w' = topic_log w \<and> pos w' = pos w \<and> mark w' = mark w"
    and publish_letters: "PublishRaw cd c topic key val w = (e, w') \<Longrightarrow> stored w \<subseteq> stored w' \<and>
      insert (key, val) (lettered w) \<subseteq> lettered w' \<and> topic_log w' = topic_log w \<and> pos w' = pos w \<and> mark w' = mark w"
    and commit_marks: "CommitMessages cd c ms w = (e, w') \<Longrightarrow> stored w \<subseteq> stored w' \<and> lettered w \<subseteq> lettered w' \<and>
      topic_log w' = topic_log w \<and> pos w' = pos w \<and> mark w' \<le> fold max (map (Suc \<circ> km_Offset) ms) (mark w)"
    and fetch_next: "FetchMessage cd w = (Fetched m, w') \<Longrightarrow> pos w < length (topic_log w) \<and> m = topic_log w ! pos w \<and>
      km_Offset m = pos w \<and> pos w' = Suc (pos w) \<and> stored w' = stored w \<and> lettered w' = lettered w \<and>
      topic_log w' = topic_log w \<and> mark w' = mark w"
    and fetch_none: "FetchMessage cd w = (out, w') \<Longrightarrow> \<forall>m. out \<noteq> Fetched m \<Longrightarrow> pos w' = pos w \<and> stored w' = stored w \<and>
      lettered w' = lettered w \<and> topic_log w' = topic_log w \<and> mark w' = mark w"
    and ctx_quiet: "CtxErr cd w = (done, w') \<Longrightarrow> pos w' = pos w \<and> stored w' = stored w \<and> lettered w' = lettered w \<and>
      topic_log w' = topic_log w \<and> mark w' = mark w"
    and now_quiet: "consumer_Now cd w = (t, w') \<Longrightarrow> pos w' = pos w \<and> stored w' = stored w \<and> lettered w' = lettered w \<and>
      topic_log w' = topic_log w \<and> mark w' = mark w"
begin

text \<open>A message is settled when its sample is in the table or it was handed to the dead-letter
  publisher.\<close>

definition settled :: "'w \<Rightarrow> kafka_message \<Rightarrow> bool" where
  "settled w m \<longleftrightarrow> (\<exists>s \<in> stored w. decodeWorkoutSample (ParseTime cd) (km_Value m) = Inr s)
     \<or> (km_Key m, km_Value m) \<in> lettered w"

definition batch_matches :: "sample_batch \<Rightarrow> bool" where
  "batch_matches b \<longleftrightarrow> list_all2 (\<lambda>s m. decodeWorkoutSample (ParseTime cd) (km_Value m) = Inr s) (samples b) (messages b)"

text \<open>Every fetched message is settled or waits in the batch.\<close>

definition nothing_lost :: "sample_batch \<times> 'w \<Rightarrow> bool" where
  "nothing_lost = (\<lambda>(b, w). batch_matches b \<and> pos w \<le> length (topic_log w) \<and>
     (\<forall>i < pos w. settled w (topic_log w ! i) \<or> topic_log w ! i \<in> set (messages b)))"

text \<open>The committed offset is not beyond a message that waits; offsets are positions.\<close>

definition decodable :: "'w \<Rightarrow> bool" where
  "decodable w \<longleftrightarrow> (\<forall>m \<in> set (topic_log w). \<exists>s. decodeWorkoutSample (ParseTime cd) (km_Value m) = Inr s)"

definition mark_behind :: "sample_batch \<times> 'w \<Rightarrow> bool" where
  "mark_behind = (\<lambda>(b, w). mark w \<le> pos w \<and>
     (\<forall>m \<in> set (messages b). mark w \<le> km_Offset m \<and> km_Offset m < pos w \<and> topic_log w ! km_Offset m = m))"

text \<open>What a state may not take back.\<close>

definition grown :: "'w \<Rightarrow> 'w \<Rightarrow> bool" where
  "grown w w' \<longleftrightarrow> stored w \<subseteq> stored w' \<and> lettered w \<subseteq> lettered w' \<and> topic_log w' = topic_log w \<and> pos w' = pos w"

lemma grown_refl [simp]: "grown w w"
  by (simp add: grown_def)

lemma grown_trans: "grown w w' \<Longrightarrow> grown w' w'' \<Longrightarrow> grown w w''"
  by (auto simp: grown_def)

lemma settled_grown: "settled w m \<Longrightarrow> grown w w' \<Longrightarrow> settled w' m"
  by (auto simp: settled_def grown_def)

lemma nothing_lost_grown: "nothing_lost (b, w) \<Longrightarrow> grown w w' \<Longrightarrow> nothing_lost (b, w')"
  using settled_grown by (auto simp: nothing_lost_def grown_def)

lemma mark_behind_same: "mark_behind (b, w) \<Longrightarrow> grown w w' \<Longrightarrow> mark w' = mark w \<Longrightarrow> mark_behind (b, w')"
  by (auto simp: mark_behind_def grown_def)

lemma quiet_steps:
  assumes "CtxErr cd w = (done, w') \<or> consumer_Now cd w = (t, w')"
  shows "grown w w'" "mark w' = mark w"
  using assms ctx_quiet now_quiet by (auto simp: grown_def)

lemma dead_letters:
  assumes "w' = fold (deadLetter cd c topic) ms w"
  shows "grown w w' \<and> mark w' = mark w \<and> (\<forall>m \<in> set ms. (km_Key m, km_Value m) \<in> lettered w')"
  using assms
proof (induction ms arbitrary: w)
  case (Cons m ms)
  obtain e v where p: "PublishRaw cd c topic (km_Key m) (km_Value m) w = (e, v)" by fastforce
  then have v: "grown w v" "mark v = mark w" "(km_Key m, km_Value m) \<in> lettered v"
    using publish_letters [OF p] by (auto simp: grown_def)
  have "deadLetter cd c topic m w = v"
    by (simp add: deadLetter_def p)
  then have "w' = fold (deadLetter cd c topic) ms v"
    using Cons.prems by simp
  from Cons.IH [OF this] v show ?case
    by (auto intro: grown_trans) (auto simp: grown_def)
qed simp

lemma settled_all:
  assumes "batch_matches b" "set (samples b) \<subseteq> stored w \<or> (\<forall>m \<in> set (messages b). (km_Key m, km_Value m) \<in> lettered w)"
    and "m \<in> set (messages b)"
  shows "settled w m"
proof (cases "(km_Key m, km_Value m) \<in> lettered w")
  case False
  then have sub: "set (samples b) \<subseteq> stored w"
    using assms by auto
  from assms(3) obtain k where k: "k < length (messages b)" "m = messages b ! k"
    by (auto simp: in_set_conv_nth)
  with assms(1) have "samples b ! k \<in> set (samples b)"
      "decodeWorkoutSample (ParseTime cd) (km_Value m) = Inr (samples b ! k)"
    by (simp_all add: batch_matches_def list_all2_conv_all_nth)
  then show ?thesis
    using sub by (auto simp: settled_def)
qed (simp add: settled_def)

text \<open>A flush either leaves the batch as it is or settles all of it before it commits.\<close>

lemma flush_cases:
  assumes "flushWorkoutSampleBatch cd c (b, w) = (b', w')" "batch_matches b"
  obtains (kept) "b' = b" "grown w w'" "mark w' = mark w"
    | (flushed) "b' = batch_reset b" "grown w w'" "\<forall>m \<in> set (messages b). settled w' m"
        "mark w' \<le> fold max (map (Suc \<circ> km_Offset) (messages b)) (mark w)"
proof (cases "samples b = []")
  case True
  then show ?thesis using assms kept by (simp add: flushWorkoutSampleBatch_def)
next
  case False
  obtain e w1 where ins: "InsertBatch cd c (samples b) w = (e, w1)" by fastforce
  then have w1: "grown w w1" "mark w1 = mark w"
    using insert_keeps [OF ins] by (auto simp: grown_def)
  have finish: thesis
    if res: "b' = batch_reset b" "w' = snd (CommitMessages cd c (messages b) v)"
      and v: "grown w v" "mark v = mark w" "\<forall>m \<in> set (messages b). settled v m" for v
  proof -
    obtain e' where c: "CommitMessages cd c (messages b) v = (e', w')"
      using res by (metis prod.collapse)
    note cm = commit_marks [OF c]
    then have "grown v w'" by (auto simp: grown_def)
    then show thesis
      using flushed res v cm by (metis grown_trans settled_grown)
  qed
  show ?thesis
  proof (cases e)
    case None
    have "set (samples b) \<subseteq> stored w1" using ins None insert_stores by simp
    then have "\<forall>m \<in> set (messages b). settled w1 m"
      using settled_all [OF assms(2)] by blast
    then show ?thesis
      using finish [of w1] assms(1) False None ins w1 by (simp add: flushWorkoutSampleBatch_def)
  next
    case (Some err)
    define v where "v = fold (deadLetter cd c workoutSampleDLQTopic) (messages b) w1"
    note v = dead_letters [OF v_def]
    have sv: "\<forall>m \<in> set (messages b). settled v m"
      using settled_all [OF assms(2)] v by blast
    show ?thesis
    proof (cases "err = ErrPermanentWrite")
      case True
      then show ?thesis
        using finish [of v] assms(1) False Some ins w1 v sv
        by (auto simp: flushWorkoutSampleBatch_def v_def [symmetric] intro: grown_trans)
    next
      case err: False
      then have "b' = b \<and> w' = w1"
        using assms(1) False Some ins by (cases err) (auto simp: flushWorkoutSampleBatch_def)
      then show ?thesis using kept w1 by simp
    qed
  qed
qed

lemma flush_keeps:
  assumes f: "flushWorkoutSampleBatch cd c (b, w) = (b', w')" and n: "nothing_lost (b, w)"
  shows "nothing_lost (b', w')" "grown w w'" "mark_behind (b, w) \<Longrightarrow> mark_behind (b', w')"
proof -
  have bm: "batch_matches b" using n by (simp add: nothing_lost_def)
  show "nothing_lost (b', w')"
    using f bm
  proof (cases rule: flush_cases)
    case kept
    with n show ?thesis by (simp add: nothing_lost_grown)
  next
    case flushed
    have "settled w' (topic_log w ! i)" if "i < pos w" for i
      using n that flushed(3) settled_grown [OF _ flushed(2)] by (auto simp: nothing_lost_def)
    then show ?thesis
      using n flushed(1,2) by (auto simp: nothing_lost_def grown_def batch_matches_def batch_reset_def)
  qed
  show "grown w w'"
    using f bm by (cases rule: flush_cases)
  show "mark_behind (b', w')" if m: "mark_behind (b, w)"
    using f bm
  proof (cases rule: flush_cases)
    case kept
    with m show ?thesis by (simp add: mark_behind_same)
  next
    case flushed
    have "fold max (map (Suc \<circ> km_Offset) (messages b)) (mark w) \<le> pos w"
      by (rule fold_max_le) (use m in \<open>auto simp: mark_behind_def\<close>)
    with flushed m show ?thesis
      by (auto simp: mark_behind_def grown_def batch_reset_def)
  qed
qed

lemma loop_state_quiet:
  assumes "nothing_lost (b, w)" "grown w w'" "mark w' = mark w"
  shows "nothing_lost (b, w')" "mark_behind (b, w) \<Longrightarrow> mark_behind (b, w')"
  using assms nothing_lost_grown mark_behind_same by blast+

lemma flush_check_keeps:
  assumes f: "workout_flush_check cd (b, w) = (e, b', w')" and n: "nothing_lost (b, w)"
  shows "nothing_lost (b', w') \<and> topic_log w' = topic_log w \<and> (mark_behind (b, w) \<longrightarrow> mark_behind (b', w'))"
proof -
  obtain t w1 where t: "consumer_Now cd w = (t, w1)" by fastforce
  then have w1: "grown w w1" "mark w1 = mark w" using quiet_steps by blast+
  note q1 = loop_state_quiet [OF n w1]
  show ?thesis
  proof (cases "shouldFlush t b")
    case True
    obtain c w2 where c: "CtxErr cd w1 = (c, w2)" by fastforce
    then have w2: "grown w1 w2" "mark w2 = mark w1" using quiet_steps by blast+
    note q2 = loop_state_quiet [OF q1(1) w2]
    have "flushWorkoutSampleBatch cd c (b, w2) = (b', w')"
      using f t c True by (simp add: workout_flush_check_def)
    from flush_keeps [OF this q2(1)] q1 q2 w1 w2 show ?thesis
      by (auto simp: grown_def)
  next
    case False
    then show ?thesis
      using f t q1 w1 by (auto simp: workout_flush_check_def grown_def)
  qed
qed

lemma batch_add_keeps:
  assumes fetched: "FetchMessage cd w = (Fetched m, w')" and n: "nothing_lost (b, w)"
    and dec: "decodeWorkoutSample (ParseTime cd) (km_Value m) = Inr s"
  shows "nothing_lost (batch_add s m now b, w')" "mark_behind (b, w) \<Longrightarrow> mark_behind (batch_add s m now b, w')"
proof -
  note next_m = fetch_next [OF fetched]
  have "settled w' x = settled w x" for x
    using next_m by (simp add: settled_def)
  then show "nothing_lost (batch_add s m now b, w')"
    using n next_m dec
    by (auto simp: nothing_lost_def batch_add_def batch_matches_def less_Suc_eq intro: list_all2_appendI)
  show "mark_behind (batch_add s m now b, w')" if "mark_behind (b, w)"
    using that next_m by (auto simp: mark_behind_def batch_add_def)
qed

lemma malformed_keeps:
  assumes fetched: "FetchMessage cd w = (Fetched m, v)" and n: "nothing_lost (b, w)"
    and bad: "grown v v1" "w' = snd (CommitMessages cd c [m] v3)" "grown (deadLetter cd d topic m v1) v3"
  shows "nothing_lost (b, w')"
proof -
  note next_m = fetch_next [OF fetched]
  have v2: "grown v1 (deadLetter cd d topic m v1)"
      "(km_Key m, km_Value m) \<in> lettered (deadLetter cd d topic m v1)"
    using dead_letters [of "deadLetter cd d topic m v1" d topic "[m]" v1] by auto
  obtain e where c: "CommitMessages cd c [m] v3 = (e, w')"
    using bad(2) by (metis prod.collapse)
  have "grown v3 w'"
    using commit_marks [OF c] by (simp add: grown_def)
  from grown_trans [OF grown_trans [OF bad(1) v2(1)] grown_trans [OF bad(3) this]] have g: "grown v w'" .
  from grown_trans [OF bad(3) \<open>grown v3 w'\<close>] v2(2) have l: "settled w' m"
    by (auto simp: grown_def settled_def)
  have old: "settled w' x" if "settled w x" for x
  proof -
    from that have "settled v x"
      using next_m by (auto simp: settled_def)
    then show ?thesis using g settled_grown by blast
  qed
  have "settled w' (topic_log w' ! i) \<or> topic_log w' ! i \<in> set (messages b)" if "i < pos w'" for i
    using n that old g l next_m by (auto simp: nothing_lost_def grown_def less_Suc_eq)
  then show ?thesis
    using n g next_m by (auto simp: nothing_lost_def grown_def)
qed

lemma iteration_keeps:
  assumes i: "workout_iteration cd (b, w) = (e, b', w')" and n: "nothing_lost (b, w)"
  shows "nothing_lost (b', w') \<and> topic_log w' = topic_log w \<and>
    (decodable w \<and> mark_behind (b, w) \<longrightarrow> mark_behind (b', w'))"
proof -
  obtain c w1 where c: "CtxErr cd w = (c, w1)" by fastforce
  then have w1: "grown w w1" "mark w1 = mark w" using quiet_steps by blast+
  note q1 = loop_state_quiet [OF n w1]
  show ?thesis
  proof (cases c)
    case True
    with i c have "flushWorkoutSampleBatch cd False (b, w1) = (b', w')"
      by (simp add: workout_iteration_def split: prod.splits)
    from flush_keeps [OF this q1(1)] q1 w1 show ?thesis by (auto simp: grown_def)
  next
    case False
    obtain out w2 where f: "FetchMessage cd w1 = (out, w2)" by fastforce
    show ?thesis
    proof (cases out)
      case (Fetched m)
      note next_m = fetch_next [OF f [unfolded Fetched]]
      show ?thesis
      proof (cases "decodeWorkoutSample (ParseTime cd) (km_Value m)")
        case (Inl err)
        obtain c1 v1 where c1: "CtxErr cd w2 = (c1, v1)" by fastforce
        define v2 where "v2 = deadLetter cd c1 workoutSampleDLQTopic m v1"
        obtain c2 v3 where c2: "CtxErr cd v2 = (c2, v3)" by fastforce
        have res: "b' = b" "w' = snd (CommitMessages cd c2 [m] v3)"
          using i c False f Fetched Inl c1 c2 by (auto simp: workout_iteration_def v2_def Let_def)
        have "grown w2 v1" "grown v2 v3"
          using c1 c2 quiet_steps by blast+
        then have "nothing_lost (b', w')"
          using malformed_keeps [OF f [unfolded Fetched] q1(1) _ res(2)] res(1) by (simp add: v2_def)
        moreover have "topic_log w' = topic_log w"
        proof -
          obtain e' where "CommitMessages cd c2 [m] v3 = (e', w')"
            using res(2) by (metis prod.collapse)
          then show ?thesis
            using commit_marks dead_letters [of v2 c1 workoutSampleDLQTopic "[m]" v1]
              \<open>grown w2 v1\<close> \<open>grown v2 v3\<close> next_m w1 by (fastforce simp: v2_def grown_def)
        qed
        moreover have "\<not> decodable w"
        proof -
          have "m \<in> set (topic_log w)"
            using next_m w1 by (simp add: grown_def)
          then show ?thesis
            using Inl unfolding decodable_def by (metis sum.distinct(1))
        qed
        ultimately show ?thesis by simp
      next
        case (Inr s)
        obtain t w3 where t: "consumer_Now cd w2 = (t, w3)" by fastforce
        then have w3: "grown w2 w3" "mark w3 = mark w2" using quiet_steps by blast+
        note a = batch_add_keeps [OF f [unfolded Fetched] q1(1) Inr, of t]
        note q3 = loop_state_quiet [OF a(1) w3]
        have "workout_flush_check cd (batch_add s m t b, w3) = (e, b', w')"
          using i c False f Fetched Inr t by (simp add: workout_iteration_def)
        from flush_check_keeps [OF this q3(1)] a(2) q3(2) q1(2) next_m w1 w3 show ?thesis
          by (auto simp: grown_def)
      qed
    next
      case FetchTimeout
      have w2: "grown w1 w2" "mark w2 = mark w1"
        using fetch_none [OF f] FetchTimeout by (auto simp: grown_def)
      note q2 = loop_state_quiet [OF q1(1) w2]
      have "workout_flush_check cd (b, w2) = (e, b', w')"
        using i c False f FetchTimeout by (simp add: workout_iteration_def)
      from flush_check_keeps [OF this q2(1)] q1(2) q2(2) w1 w2 show ?thesis
        by (auto simp: grown_def)
    next
      case FetchFailed
      have w2: "grown w1 w2" "mark w2 = mark w1"
        using fetch_none [OF f] FetchFailed by (auto simp: grown_def)
      note q2 = loop_state_quiet [OF q1(1) w2]
      obtain c3 w3 where c3: "CtxErr cd w2 = (c3, w3)" by fastforce
      then have w3: "grown w2 w3" "mark w3 = mark w2" using quiet_steps by blast+
      note q3 = loop_state_quiet [OF q2(1) w3]
      show ?thesis
      proof (cases c3)
        case True
        with i c False f FetchFailed c3 have "flushWorkoutSampleBatch cd False (b, w3) = (b', w')"
          by (simp add: workout_iteration_def split: prod.splits)
        from flush_keeps [OF this q3(1)] q1(2) q2(2) q3(2) w1 w2 w3 show ?thesis
          by (auto simp: grown_def)
      next
        case c4: False
        with i c False f FetchFailed c3 have "b' = b" "w' = w3"
          by (simp_all add: workout_iteration_def)
        with q1(2) q2(2) q3 w1 w2 w3 show ?thesis by (auto simp: grown_def)
      qed
    qed
  qed
qed

lemma run_keeps:
  assumes "runWorkoutSampleLoop n cd (b, w) = (e, b', w')" "nothing_lost (b, w)"
  shows "nothing_lost (b', w') \<and> topic_log w' = topic_log w \<and>
    (decodable w \<and> mark_behind (b, w) \<longrightarrow> mark_behind (b', w'))"
  using assms
proof (induction n arbitrary: b w)
  case (Suc n)
  obtain e1 b1 w1 where i: "workout_iteration cd (b, w) = (e1, b1, w1)" by (metis prod.collapse)
  note k = iteration_keeps [OF i Suc.prems(2)]
  show ?case
  proof (cases e1)
    case Continue
    with Suc.prems i have "runWorkoutSampleLoop n cd (b1, w1) = (e, b', w')" by simp
    from Suc.IH [OF this] k show ?thesis by (auto simp: decodable_def)
  next
    case Return
    with Suc.prems i k show ?thesis by simp
  qed
qed simp

text \<open>Whatever is committed has been settled, when every message can be decoded.\<close>

lemma committed_settled:
  assumes "nothing_lost (b, w)" "mark_behind (b, w)" "i < mark w"
    and "\<forall>j < length (topic_log w). km_Offset (topic_log w ! j) = j"
  shows "settled w (topic_log w ! i)"
proof (rule ccontr)
  assume "\<not> ?thesis"
  moreover have "i < pos w" "i < length (topic_log w)"
    using assms(1-3) by (auto simp: nothing_lost_def mark_behind_def)
  ultimately have "topic_log w ! i \<in> set (messages b)" "km_Offset (topic_log w ! i) = i"
    using assms(1,4) by (auto simp: nothing_lost_def)
  then show False
    using assms(2,3) by (auto simp: mark_behind_def)
qed

end

section \<open>The Postgres sink\<close>

text \<open>
  The repository beside one partition of the broker. At every call the schedule says whether the
  broker answers, is slow or is down. A fetch returns the message at the position and moves on; a
  commit moves the committed offset behind the highest of its messages, never back; the loop's
  context ends at the call \<open>sk_stop\<close>. \<open>sk_dlq\<close> is what was handed to the dead-letter
  publisher.
\<close>

datatype broker_answer = Answers | Slow | Down

record sink_world =
  sk_db :: db
  sk_log :: "(string \<times> frame) list"
  sk_pos :: nat
  sk_mark :: nat
  sk_dlq :: "(string \<times> frame) list"
  sk_calls :: nat
  sk_schedule :: "nat \<Rightarrow> broker_answer"
  sk_clock :: "nat \<Rightarrow> time"
  sk_stop :: nat

definition sk_call :: "sink_world \<Rightarrow> sink_world" where
  "sk_call w = w\<lparr>sk_calls := Suc (sk_calls w)\<rparr>"

definition sk_answer :: "sink_world \<Rightarrow> broker_answer" where
  "sk_answer w = sk_schedule w (sk_calls w)"

definition sk_insert :: "bool \<Rightarrow> workout_sample list \<Rightarrow> sink_world \<Rightarrow> go_error option \<times> sink_world" where
  "sk_insert c ss w = (case pg_InsertBatch c ss (sk_db w) of (e, s) \<Rightarrow> (e, w\<lparr>sk_db := s\<rparr>))"

definition sk_reconcile :: "bool \<Rightarrow> race_id \<Rightarrow> race_result_json list \<Rightarrow> sink_world \<Rightarrow> go_error option \<times> sink_world" where
  "sk_reconcile c i rs w = (case pg_ReconcileParticipantResults c i rs (sk_db w) of (e, s) \<Rightarrow> (e, w\<lparr>sk_db := s\<rparr>))"

definition sk_publish :: "bool \<Rightarrow> string \<Rightarrow> string \<Rightarrow> frame \<Rightarrow> sink_world \<Rightarrow> go_error option \<times> sink_world" where
  "sk_publish c topic key val w =
     (if c \<or> sk_answer w \<noteq> Answers then Some (ErrOther ''kafka'') else None,
      (sk_call w)\<lparr>sk_dlq := sk_dlq w @ [(key, val)]\<rparr>)"

definition sk_commit :: "bool \<Rightarrow> kafka_message list \<Rightarrow> sink_world \<Rightarrow> go_error option \<times> sink_world" where
  "sk_commit c ms w =
     (if c \<or> sk_answer w \<noteq> Answers then (Some (ErrOther ''kafka''), sk_call w)
      else (None, (sk_call w)\<lparr>sk_mark := fold max (map (Suc \<circ> km_Offset) ms) (sk_mark w)\<rparr>))"

definition message_at :: "(string \<times> frame) list \<Rightarrow> nat \<Rightarrow> kafka_message" where
  "message_at l i = \<lparr>km_Topic = '''', km_Offset = i, km_Key = fst (l ! i), km_Value = snd (l ! i)\<rparr>"

definition sk_fetch :: "sink_world \<Rightarrow> fetch_outcome \<times> sink_world" where
  "sk_fetch w =
     (case sk_answer w of
        Down \<Rightarrow> (FetchFailed, sk_call w)
      | Slow \<Rightarrow> (FetchTimeout, sk_call w)
      | Answers \<Rightarrow>
          if sk_pos w < length (sk_log w)
          then (Fetched (message_at (sk_log w) (sk_pos w)), (sk_call w)\<lparr>sk_pos := Suc (sk_pos w)\<rparr>)
          else (FetchTimeout, sk_call w))"

definition pg_sink :: "(string \<Rightarrow> time option) \<Rightarrow> sink_world consumer_deps" where
  "pg_sink parse_time = \<lparr>InsertBatch = sk_insert, Reconcile = sk_reconcile, PublishRaw = sk_publish,
     CommitMessages = sk_commit, FetchMessage = sk_fetch,
     CtxErr = (\<lambda>w. (sk_stop w \<le> sk_calls w, w)), consumer_Now = (\<lambda>w. (sk_clock w (sk_calls w), w)),
     ParseTime = parse_time\<rparr>"

definition sk_stored :: "sink_world \<Rightarrow> workout_sample set" where
  "sk_stored w = {s. sample_row_of s \<in> set (workout_samples (tables (sk_db w)))}"

definition partition_log :: "sink_world \<Rightarrow> kafka_message list" where
  "partition_log w = map (message_at (sk_log w)) [0..<length (sk_log w)]"

lemma partition_log_simps [simp]: "length (partition_log w) = length (sk_log w)"
    "i < length (sk_log w) \<Longrightarrow> partition_log w ! i = message_at (sk_log w) i"
  by (simp_all add: partition_log_def)

lemma insert_batch_effect:
  assumes "pg_InsertBatch c ss s = (e, s')"
  shows "set (workout_samples (tables s)) \<subseteq> set (workout_samples (tables s'))"
    "e = None \<Longrightarrow> sample_row_of ` set ss \<subseteq> set (workout_samples (tables s'))"
    "faults s' = faults s"
    "\<not> c \<Longrightarrow> \<forall>k. \<not> faults s k \<Longrightarrow> e = None \<or> e = Some ErrPermanentWrite"
  using assms by (auto simp: pg_InsertBatch_def pg_def copy_samples_def Let_def split: if_splits sum.splits prod.splits pg_error.splits)

interpretation sink: sample_sink "pg_sink pt" sk_stored "\<lambda>w. set (sk_dlq w)" partition_log sk_pos sk_mark for pt
proof (unfold_locales, goal_cases)
  case (1 c ss w w')
  then show ?case
    using insert_batch_effect by (fastforce simp: pg_sink_def sk_insert_def sk_stored_def split: prod.splits)
next
  case (2 c ss w e w')
  then show ?case
    using insert_batch_effect(1) by (fastforce simp: pg_sink_def sk_insert_def sk_stored_def partition_log_def split: prod.splits)
next
  case (3 c topic key val w e w')
  then show ?case by (auto simp: pg_sink_def sk_publish_def sk_call_def sk_stored_def partition_log_def)
next
  case (4 c ms w e w')
  then show ?case
    by (auto simp: pg_sink_def sk_commit_def sk_call_def sk_stored_def partition_log_def fold_max_ge split: if_splits)
qed (auto simp: pg_sink_def sk_fetch_def sk_call_def sk_stored_def partition_log_def message_at_def
       split: broker_answer.splits if_splits)

section \<open>At least once\<close>

text \<open>
  The process is started again and again, each time for some iterations until it crashes or is
  stopped; a new process reads from the committed offset and knows nothing of the old batch.
\<close>

fun consumer_lives :: "(string \<Rightarrow> time option) \<Rightarrow> (nat \<times> nat) list \<Rightarrow> sink_world \<Rightarrow> sink_world" where
  "consumer_lives pt [] w = w"
| "consumer_lives pt ((n, stop) # ls) w =
     consumer_lives pt ls (snd (snd (runWorkoutSampleLoop n (pg_sink pt)
       (empty_batch, w\<lparr>sk_pos := sk_mark w, sk_stop := stop\<rparr>))))"

definition sample_settled :: "(string \<Rightarrow> time option) \<Rightarrow> sink_world \<Rightarrow> string \<times> frame \<Rightarrow> bool" where
  "sample_settled pt w = (\<lambda>(key, val).
     (case decodeWorkoutSample pt val of
        Inl _ \<Rightarrow> False
      | Inr s \<Rightarrow> sample_row_of s \<in> set (workout_samples (tables (sk_db w))))
     \<or> (key, val) \<in> set (sk_dlq w))"

lemma ParseTime_pg_sink [simp]: "ParseTime (pg_sink pt) = pt"
  by (simp add: pg_sink_def)

lemma settled_message: "sink.settled pt w (message_at l i) = sample_settled pt w (l ! i)"
  by (cases "l ! i") (auto simp: sink.settled_def sample_settled_def sk_stored_def message_at_def split: sum.splits)

lemma log_kept: "partition_log w' = partition_log w \<Longrightarrow> sk_log w' = sk_log w"
  by (rule nth_equalityI)
    (metis partition_log_simps(1), metis partition_log_simps message_at_def kafka_message.ext_inject prod_eqI)

lemma life_keeps:
  assumes run: "runWorkoutSampleLoop n (pg_sink pt) (empty_batch, w\<lparr>sk_pos := sk_mark w, sk_stop := stop\<rparr>) = (e, b, w')"
    and dec: "\<forall>(key, val) \<in> set (sk_log w). \<exists>s. decodeWorkoutSample pt val = Inr s"
    and mark: "sk_mark w \<le> length (sk_log w)" "\<forall>i < sk_mark w. sample_settled pt w (sk_log w ! i)"
  shows "sk_log w' = sk_log w \<and> sk_mark w' \<le> length (sk_log w') \<and> (\<forall>i < sk_mark w'. sample_settled pt w' (sk_log w' ! i))"
proof -
  let ?w = "w\<lparr>sk_pos := sk_mark w, sk_stop := stop\<rparr>"
  have "sample_settled pt ?w x = sample_settled pt w x" for x
    by (simp add: sample_settled_def split: sum.split prod.split)
  then have n: "sink.nothing_lost pt (empty_batch, ?w)" and m: "sink.mark_behind (empty_batch, ?w)"
    using mark by (auto simp: sink.nothing_lost_def sink.mark_behind_def sink.batch_matches_def empty_batch_def settled_message)
  have d: "sink.decodable pt ?w"
    using dec by (fastforce simp: sink.decodable_def partition_log_def message_at_def dest: nth_mem)
  note k = sink.run_keeps [OF run n]
  then have l: "sk_log w' = sk_log w"
    using log_kept [of w' ?w] by simp
  have offs: "\<forall>j < length (partition_log w'). km_Offset (partition_log w' ! j) = j"
    by (simp add: message_at_def)
  have le: "sk_mark w' \<le> sk_pos w'" "sk_pos w' \<le> length (sk_log w')"
    using k d m by (auto simp: sink.nothing_lost_def sink.mark_behind_def)
  then show ?thesis
    using l sink.committed_settled [OF _ _ _ offs, of pt b] k d m
    by (metis le_trans less_le_trans partition_log_simps(2) settled_message)
qed


section \<open>Stopping\<close>

abbreviation kept :: "sink_world \<Rightarrow> sink_world \<Rightarrow> bool" where
  "kept w w' \<equiv> sk_schedule w' = sk_schedule w \<and> sk_log w' = sk_log w \<and> sk_pos w' = sk_pos w"

lemma flush_quiet:
  assumes "flushWorkoutSampleBatch (pg_sink pt) c (b, w) = (b', w')"
  shows "sk_calls w \<le> sk_calls w' \<and> sk_stop w' = sk_stop w \<and> faults (sk_db w') = faults (sk_db w) \<and> kept w w'"
proof -
  have dl: "sk_calls v \<le> sk_calls (fold (deadLetter (pg_sink pt) c topic) ms v) \<and>
      sk_stop (fold (deadLetter (pg_sink pt) c topic) ms v) = sk_stop v \<and>
      sk_db (fold (deadLetter (pg_sink pt) c topic) ms v) = sk_db v \<and> kept v (fold (deadLetter (pg_sink pt) c topic) ms v)"
      for ms v topic
  proof (induction ms arbitrary: v)
    case (Cons m ms)
    have "sk_calls (deadLetter (pg_sink pt) c topic m v) = Suc (sk_calls v) \<and>
        sk_stop (deadLetter (pg_sink pt) c topic m v) = sk_stop v \<and> sk_db (deadLetter (pg_sink pt) c topic m v) = sk_db v \<and>
        kept v (deadLetter (pg_sink pt) c topic m v)"
      by (simp add: deadLetter_def pg_sink_def sk_publish_def sk_call_def)
    with Cons.IH [of "deadLetter (pg_sink pt) c topic m v"] show ?case by simp
  qed simp
  have cm: "sk_calls v \<le> sk_calls (snd (CommitMessages (pg_sink pt) c ms v)) \<and>
      sk_stop (snd (CommitMessages (pg_sink pt) c ms v)) = sk_stop v \<and>
      sk_db (snd (CommitMessages (pg_sink pt) c ms v)) = sk_db v \<and> kept v (snd (CommitMessages (pg_sink pt) c ms v))" for ms v
    by (simp add: pg_sink_def sk_commit_def sk_call_def)
  obtain e w1 where i: "InsertBatch (pg_sink pt) c (samples b) w = (e, w1)" by fastforce
  then have w1: "sk_calls w1 = sk_calls w \<and> sk_stop w1 = sk_stop w \<and> faults (sk_db w1) = faults (sk_db w) \<and> kept w w1"
    using insert_batch_effect(3) by (auto simp: pg_sink_def sk_insert_def split: prod.splits)
  note cm1 = cm [of w1 "messages b"]
    and cm2 = cm [of "fold (deadLetter (pg_sink pt) c workoutSampleDLQTopic) (messages b) w1" "messages b"]
    and dl1 = dl [of w1 workoutSampleDLQTopic "messages b"]
  show ?thesis
  proof (cases e)
    case None
    then show ?thesis
      using assms i w1 cm1 by (cases "samples b = []") (auto simp: flushWorkoutSampleBatch_def)
  next
    case (Some err)
    then show ?thesis
      using assms i w1 cm2 dl1
      by (cases "samples b = []"; cases err) (auto simp: flushWorkoutSampleBatch_def Let_def)
  qed
qed

text \<open>A flush on a live database empties the batch.\<close>

lemma flush_empties:
  assumes "flushWorkoutSampleBatch (pg_sink pt) False (b, w) = (b', w')" "\<forall>k. \<not> faults (sk_db w) k"
    and "sink.batch_matches pt b"
  shows "messages b' = []"
proof -
  obtain e w1 where i: "InsertBatch (pg_sink pt) False (samples b) w = (e, w1)" by fastforce
  then have "e = None \<or> e = Some ErrPermanentWrite"
    using insert_batch_effect(4) [of False "samples b" "sk_db w"] assms(2)
    by (auto simp: pg_sink_def sk_insert_def split: prod.splits)
  then show ?thesis
    using assms(1,3) i
    by (auto simp: flushWorkoutSampleBatch_def batch_reset_def sink.batch_matches_def Let_def split: if_splits)
qed

text \<open>One iteration: it uses up a call of the schedule, or it ends the loop with a flush.\<close>

lemma check_quiet:
  assumes "workout_flush_check (pg_sink pt) (b, w) = (e, b', w')"
  shows "e = Continue \<and> sk_calls w \<le> sk_calls w' \<and> sk_stop w' = sk_stop w \<and> faults (sk_db w') = faults (sk_db w) \<and> kept w w'"
  using assms flush_quiet by (fastforce simp: workout_flush_check_def pg_sink_def split: if_splits)

lemma fetch_calls:
  assumes "FetchMessage (pg_sink pt) w = (out, w')"
  shows "sk_calls w' = Suc (sk_calls w)" "sk_stop w' = sk_stop w" "sk_db w' = sk_db w"
    "sk_schedule w' = sk_schedule w" "sk_log w' = sk_log w"
    "sk_schedule w (sk_calls w) = Answers \<Longrightarrow> (case out of Fetched _ \<Rightarrow> sk_pos w' = Suc (sk_pos w)
       | FetchTimeout \<Rightarrow> sk_pos w' = sk_pos w \<and> length (sk_log w) \<le> sk_pos w | FetchFailed \<Rightarrow> False)"
  using assms by (auto simp: pg_sink_def sk_fetch_def sk_call_def sk_answer_def split: broker_answer.splits if_splits)

lemma dead_letter_calls:
  "sk_calls w \<le> sk_calls (snd (CommitMessages (pg_sink pt) c ms (deadLetter (pg_sink pt) d topic m w)))"
  "sk_stop (snd (CommitMessages (pg_sink pt) c ms (deadLetter (pg_sink pt) d topic m w))) = sk_stop w"
  "sk_db (snd (CommitMessages (pg_sink pt) c ms (deadLetter (pg_sink pt) d topic m w))) = sk_db w"
  "kept w (snd (CommitMessages (pg_sink pt) c ms (deadLetter (pg_sink pt) d topic m w)))"
  by (simp_all add: deadLetter_def pg_sink_def sk_publish_def sk_commit_def sk_call_def)

lemma CtxErr_pg_sink [simp]: "CtxErr (pg_sink pt) w = (sk_stop w \<le> sk_calls w, w)"
  by (simp add: pg_sink_def)

lemma consumer_Now_pg_sink: "consumer_Now (pg_sink pt) w = (sk_clock w (sk_calls w), w)"
  by (simp add: pg_sink_def)

lemma iteration_progress:
  assumes i: "workout_iteration (pg_sink pt) (b, w) = (e, b', w')" and live: "\<forall>k. \<not> faults (sk_db w) k"
    and n: "sink.nothing_lost pt (b, w)"
  shows "sk_stop w' = sk_stop w \<and> (\<forall>k. \<not> faults (sk_db w') k) \<and>
    (if e = Return then messages b' = [] else sk_calls w < sk_calls w' \<and> sk_calls w < sk_stop w)"
proof (cases "sk_stop w \<le> sk_calls w")
  case True
  with i have "e = Return" "flushWorkoutSampleBatch (pg_sink pt) False (b, w) = (b', w')"
    by (auto simp: workout_iteration_def)
  then show ?thesis
    using flush_quiet [of pt False b w b' w'] flush_empties [of pt b w b' w'] live n
    by (auto simp: sink.nothing_lost_def)
next
  case False
  obtain out w2 where f: "FetchMessage (pg_sink pt) w = (out, w2)" by fastforce
  note calls = fetch_calls [OF f]
  show ?thesis
  proof (cases out)
    case (Fetched m)
    show ?thesis
    proof (cases "decodeWorkoutSample pt (km_Value m)")
      case (Inl err)
      then show ?thesis
        using i False f Fetched calls live dead_letter_calls [where w = w2]
        by (auto simp: workout_iteration_def Let_def Suc_le_eq)
    next
      case (Inr s)
      then show ?thesis
        using i False f Fetched calls live check_quiet [of pt _ w2 e b' w']
        by (auto simp: workout_iteration_def Suc_le_eq consumer_Now_pg_sink)
    qed
  next
    case FetchTimeout
    then show ?thesis
      using i False f calls live check_quiet [of pt b w2 e b' w'] by (auto simp: workout_iteration_def Suc_le_eq)
  next
    case FetchFailed
    show ?thesis
    proof (cases "sk_stop w2 \<le> sk_calls w2")
      case True
      with i False f FetchFailed have "e = Return" "flushWorkoutSampleBatch (pg_sink pt) False (b, w2) = (b', w')"
        by (auto simp: workout_iteration_def)
      then show ?thesis
        using flush_quiet [of pt False b w2 b' w'] flush_empties [of pt b w2 b' w'] live n calls
        by (auto simp: sink.nothing_lost_def)
    next
      case go: False
      with i False f FetchFailed calls live show ?thesis
        by (auto simp: workout_iteration_def)
    qed
  qed
qed

text \<open>A broker that answers always hands out one message per iteration.\<close>

lemma iteration_advances:
  assumes i: "workout_iteration (pg_sink pt) (b, w) = (Continue, b', w')" and up: "\<forall>k. sk_schedule w k = Answers"
  shows "sk_schedule w' = sk_schedule w \<and> sk_log w' = sk_log w \<and> min (Suc (sk_pos w)) (length (sk_log w)) \<le> sk_pos w'
    \<and> sk_pos w \<le> sk_pos w'"
proof -
  obtain out w2 where f: "FetchMessage (pg_sink pt) w = (out, w2)" by fastforce
  note f = f fetch_calls(4-6) [OF f]
  have go: "\<not> sk_stop w \<le> sk_calls w"
    using i by (auto simp: workout_iteration_def split: prod.splits)
  show ?thesis
  proof (cases out)
    case (Fetched m)
    show ?thesis
    proof (cases "decodeWorkoutSample pt (km_Value m)")
      case (Inl err)
      then show ?thesis
        using i f go up Fetched dead_letter_calls(4) [where w = w2] by (auto simp: workout_iteration_def Let_def)
    next
      case (Inr s)
      then show ?thesis
        using i f go up Fetched check_quiet [of pt _ w2 Continue b' w']
        by (auto simp: workout_iteration_def consumer_Now_pg_sink)
    qed
  next
    case FetchTimeout
    then show ?thesis
      using i f go up check_quiet [of pt b w2 Continue b' w'] by (auto simp: workout_iteration_def)
  next
    case FetchFailed
    then show ?thesis using f up by simp
  qed
qed

lemma run_progress:
  assumes "runWorkoutSampleLoop n (pg_sink pt) (b, w) = (e, b', w')" "\<forall>k. \<not> faults (sk_db w) k"
    and "sink.nothing_lost pt (b, w)"
  shows "(sk_stop w - sk_calls w < n \<longrightarrow> e = Return) \<and> (e = Return \<longrightarrow> messages b' = []) \<and>
    (e = Continue \<and> (\<forall>k. sk_schedule w k = Answers) \<longrightarrow> min (sk_pos w + n) (length (sk_log w)) \<le> sk_pos w')"
  using assms
proof (induction n arbitrary: b w)
  case 0
  then show ?case by simp
next
  case (Suc n)
  obtain e1 b1 w1 where i: "workout_iteration (pg_sink pt) (b, w) = (e1, b1, w1)" by (metis prod.collapse)
  note step = iteration_progress [OF i Suc.prems(2,3)]
  show ?case
  proof (cases e1)
    case Continue
    with Suc.prems i have "runWorkoutSampleLoop n (pg_sink pt) (b1, w1) = (e, b', w')" by simp
    from Suc.IH [OF this] step sink.iteration_keeps [OF i Suc.prems(3)]
    have rest: "(sk_stop w1 - sk_calls w1 < n \<longrightarrow> e = Return) \<and> (e = Return \<longrightarrow> messages b' = []) \<and>
        (e = Continue \<and> (\<forall>k. sk_schedule w1 k = Answers) \<longrightarrow> min (sk_pos w1 + n) (length (sk_log w1)) \<le> sk_pos w')"
      by blast
    show ?thesis
      using rest step Continue iteration_advances [of pt b w b1 w1] i by (auto split: if_splits)
  next
    case Return
    with Suc.prems i step show ?thesis by simp
  qed
qed

text \<open>The loop over the samples stops and leaves nothing behind. When the context ends it returns
  within as many iterations as the schedule has calls left; on a database without connection failures
  its last flush leaves an empty batch and every message it has read stored or dead-lettered,
  malformed ones included; and as long as it runs against a broker that answers it reads a message
  per iteration.\<close>

lemma shutdown_settles_all:
  assumes live: "\<forall>k. \<not> faults (sk_db w) k" and start: "sk_pos w = 0"
  shows "\<exists>e b w'. runWorkoutSampleLoop n (pg_sink pt) (empty_batch, w) = (e, b, w') \<and>
    (sk_stop w - sk_calls w < n \<longrightarrow> e = Return) \<and>
    (e = Return \<longrightarrow> messages b = [] \<and> (\<forall>i < sk_pos w'. sample_settled pt w' (sk_log w ! i))) \<and>
    (e = Continue \<and> (\<forall>k. sk_schedule w k = Answers) \<longrightarrow> min n (length (sk_log w)) \<le> sk_pos w')"
proof -
  have n: "sink.nothing_lost pt (empty_batch, w)"
    using start by (simp add: sink.nothing_lost_def sink.batch_matches_def empty_batch_def)
  obtain e b w' where run: "runWorkoutSampleLoop n (pg_sink pt) (empty_batch, w) = (e, b, w')"
    by (metis prod.collapse)
  note k = sink.run_keeps [OF run n]
  then have "sk_log w' = sk_log w" using log_kept by blast
  then have "messages b = [] \<Longrightarrow> \<forall>i < sk_pos w'. sample_settled pt w' (sk_log w ! i)"
    using k by (auto simp: sink.nothing_lost_def settled_message)
  then show ?thesis
    using run run_progress [OF run live n] start by auto
qed

section \<open>Witnesses and limits\<close>

definition demo_sample :: "string \<times> frame" where
  "demo_sample = (''r1'', Some (workoutSamplePayload (\<lambda>_. ''t7'') ''r1'' ''a'' 7 3 60))"

definition demo_sink :: "(string \<times> frame) list \<Rightarrow> sink_world" where
  "demo_sink l = \<lparr>sk_db = demo_db, sk_log = l, sk_pos = 0, sk_mark = 0, sk_dlq = [], sk_calls = 0,
     sk_schedule = (\<lambda>_. Answers), sk_clock = (\<lambda>_. 0), sk_stop = 1\<rparr>"

lemma decode_demo: "decodeWorkoutSample (\<lambda>_. Some 7) (snd demo_sample)
    = Inr \<lparr>ws_RaceID = ''r1'', ws_UserID = ''a'', ws_Ts = 7, ws_DistanceM = 3, ws_PaceWatt = 60\<rparr>"
  unfolding demo_sample_def snd_conv by (subst decode_published_sample) simp_all

lemma demo_life:
  "sk_mark (consumer_lives (\<lambda>_. Some 7) [(2, 1)] (demo_sink [demo_sample])) = 1"
  using decode_demo
  by (simp add: numeral_2_eq_2 demo_sink_def workout_iteration_def pg_sink_def sk_fetch_def sk_answer_def sk_call_def
      message_at_def batch_add_def empty_batch_def workout_flush_check_def shouldFlush_def flushBatchSize_def
      flushInterval_def flushWorkoutSampleBatch_def sk_insert_def pg_InsertBatch_def pg_def copy_samples_def
      demo_tables_def sk_commit_def)

lemma demo_sink_simps: "sk_log (demo_sink l) = l" "sk_mark (demo_sink l) = 0" "sk_pos (demo_sink l) = 0"
    "sk_stop (demo_sink l) = 1" "sk_calls (demo_sink l) = 0" "\<not> faults (sk_db (demo_sink l)) k"
  by (simp_all add: demo_sink_def)


lemma shutdown_settles_all_witness:
  "\<exists>b w'. runWorkoutSampleLoop 2 (pg_sink (\<lambda>_. Some 7)) (empty_batch, demo_sink [demo_sample]) = (Return, b, w') \<and>
     messages b = []"
  using shutdown_settles_all [of "demo_sink [demo_sample]" 2 "\<lambda>_. Some 7"] by (auto simp: demo_sink_simps)

text \<open>The commit of a malformed message moves the committed offset over the samples that wait in the
  batch: after a crash they are neither stored nor dead-lettered.\<close>

lemma malformed_commit_skips_batch:
  "let w' = consumer_lives (\<lambda>_. Some 7) [(2, 9)] (demo_sink [demo_sample, (''r1'', None)])
   in sk_mark w' = 2 \<and> \<not> sample_settled (\<lambda>_. Some 7) w' demo_sample"
  using decode_demo
  by (simp add: numeral_2_eq_2 demo_sink_def workout_iteration_def pg_sink_def sk_fetch_def sk_answer_def sk_call_def
      message_at_def batch_add_def empty_batch_def workout_flush_check_def shouldFlush_def flushBatchSize_def
      flushInterval_def deadLetter_def sk_publish_def sk_commit_def decodeWorkoutSample_def sample_settled_def
      demo_tables_def demo_sample_def)

text \<open>A \<^verbatim>\<open>race.finished\<close> message whose reconciliation failed for the moment is not read
  again: the next message's commit passes it.\<close>

definition demo_finished :: "string \<times> frame" where
  "demo_finished = (''r1'', Some (raceFinishedPayload ''r1'' [demo_result]))"

lemma decode_demo_finished: "decodeRaceFinished (snd demo_finished) = Inr (''r1'', map toRaceResultJSON [demo_result])"
  unfolding demo_finished_def snd_conv
  by (rule decode_published_results) (simp add: demo_result_def in_int64_def)

lemma transient_failure_skipped:
  "let w' = snd (runRaceFinishedLoop 2 (pg_sink (\<lambda>_. None))
     ((demo_sink [demo_finished, (''r1'', None)])\<lparr>sk_db := demo_db\<lparr>faults := (\<lambda>k. k = 0)\<rparr>\<rparr>))
   in sk_mark w' = 2 \<and> demo_finished \<notin> set (sk_dlq w') \<and> tables (sk_db w') = demo_tables"
  using decode_demo_finished
  by (simp add: numeral_2_eq_2 demo_sink_def finished_iteration_def pg_sink_def sk_fetch_def sk_answer_def sk_call_def
      message_at_def processRaceFinishedMessage_def deadLetter_def sk_publish_def sk_commit_def sk_reconcile_def
      pg_ReconcileParticipantResults_def transaction_def pg_def decodeRaceFinished_def demo_finished_def)

end
