(* ===== verification/Race_System.thy ===== *)
theory Race_System
  imports Consumer_Properties Race_Service_Properties
begin

text \<open>
  The end of a race across the processes: the room actor over the race service and Postgres, the
  event log it publishes to, and the consumer that reads the log back into the same tables. The
  world is that of \<open>Consumer_Properties\<close>, its log now the partition of
  \<^verbatim>\<open>race.finished\<close>.
\<close>

section \<open>The composed system\<close>

definition on_db :: "(db \<Rightarrow> 'a \<times> db) \<Rightarrow> sink_world \<Rightarrow> 'a \<times> sink_world" where
  "on_db f w = (case f (sk_db w) of (x, s) \<Rightarrow> (x, w\<lparr>sk_db := s\<rparr>))"

definition log_writer :: "sink_world writer" where
  "log_writer c m w = (if c \<or> sk_answer w \<noteq> Answers then (Some (ErrOther ''kafka''), sk_call w)
     else (None, (sk_call w)\<lparr>sk_log := sk_log w @ [(km_Key m, km_Value m)]\<rparr>))"

text \<open>What \<^verbatim>\<open>cmd/server\<close> hands to a room: the service as finisher, leaver and canceller, the
  Kafka producer as publisher.\<close>

definition race_system :: "db race_service \<Rightarrow> (time \<Rightarrow> string) \<Rightarrow> sink_world room_deps \<Rightarrow> sink_world room_deps" where
  "race_system svc format_time d = d\<lparr>
     FinishRace := (\<lambda>c i n rs. on_db (repo_FinishRace (svc_repo svc) c i n rs)),
     LeaveRace := (\<lambda>c i u. on_db (svc_LeaveRace svc c i u)),
     CancelRace := (\<lambda>c i. on_db (repo_CancelRace (svc_repo svc) c i)),
     PublishWorkoutSample := kafka_PublishWorkoutSample log_writer format_time,
     PublishRaceFinished := kafka_PublishRaceFinished log_writer\<rparr>"

text \<open>Iterating over a Go map reads neither the database nor the log.\<close>

definition quiet_iteration :: "sink_world room_deps \<Rightarrow> bool" where
  "quiet_iteration d \<longleftrightarrow> (\<forall>m w. sk_db (snd (MapIter d m w)) = sk_db w \<and> sk_log (snd (MapIter d m w)) = sk_log w)"

lemma quiet_snapshot:
  assumes "quiet_iteration d" "broadcastSnapshot d (r, w) = (r', w')"
  shows "sk_db w' = sk_db w" "sk_log w' = sk_log w"
  using assms by (auto simp: broadcastSnapshot_def quiet_iteration_def Let_def case_prod_unfold split: if_splits)

lemma system_iteration: "map_iteration (race_system svc ft d) = map_iteration d"
    "quiet_iteration (race_system svc ft d) = quiet_iteration d"
  by (simp_all add: map_iteration_def quiet_iteration_def race_system_def)

lemma checked_results:
  assumes "map_iteration d" "quiet_iteration d" "active r" "\<not> finished r" "\<not> list_ex (racing \<circ> snd) (participants r)"
  obtains results w1 where "checkRaceFinished d (r, w) = finishRace d results (r, w1)"
    "mset results = mset (map (buildParticipantResult r \<circ> snd) (participants r @ departedParticipants r))"
    "sk_db w1 = sk_db w" "sk_log w1 = sk_log w"
proof -
  let ?w1 = "snd (MapIter d (participants r) w)"
  let ?rs = "map (buildParticipantResult r \<circ> snd) (fst (MapIter d (participants r) w))
     @ map (buildParticipantResult r \<circ> snd) (fst (MapIter d (departedParticipants r) ?w1))"
  have "checkRaceFinished d (r, w) = finishRace d ?rs (r, snd (MapIter d (departedParticipants r) ?w1))"
    using assms(3-5) by (simp add: checkRaceFinished_def Let_def case_prod_unfold)
  moreover have "mset ?rs = mset (map (buildParticipantResult r \<circ> snd) (participants r @ departedParticipants r))"
    by (simp add: map_iteration.iter_map [OF assms(1)] del: mset_map)
  ultimately show thesis
    using that assms(2) by (simp add: quiet_iteration_def)
qed

text \<open>Reconciling results that are all in the table already changes nothing.\<close>

lemma reconcile_recorded:
  assumes "\<And>res row. res \<in> set results \<Longrightarrow> mget (race_participants (tables s)) (i, pr_UserID res) = Some row
      \<Longrightarrow> p_finish_rank row \<noteq> None"
  shows "tables (snd (pg_ReconcileParticipantResults ctx i (map toRaceResultJSON results) s)) = tables s"
proof -
  have "tables s2 = tables s"
    if "write_unset ctx i (map toRaceResultJSON results) (s\<lparr>stmt_no := m\<rparr>) = (None, s2)" for m s2
    using write_unset_all_set [of ctx i results "s\<lparr>stmt_no := m\<rparr>" s2] that assms by auto
  then show ?thesis
    unfolding pg_ReconcileParticipantResults_def by (intro transaction_keeps [where P = "\<lambda>t. t = tables s"]) auto
qed

lemma process_finished_tables:
  assumes "decodeRaceFinished (km_Value m) = Inr (i, results)"
  shows "tables (sk_db (processRaceFinishedMessage (pg_sink pt) m v))
    = tables (snd (pg_ReconcileParticipantResults False i results (sk_db v)))"
  using assms
  by (auto simp: processRaceFinishedMessage_def pg_sink_def sk_reconcile_def sk_commit_def sk_call_def deadLetter_def
      sk_publish_def split: prod.splits option.splits go_error.splits)

text \<open>Ending the race in the composed system: one transaction, then at most one message, which carries
  what the transaction wrote.\<close>

lemma finishRace_system:
  assumes fin: "finishRace (race_system svc ft d) results (r, w) = (r', w')" and repo: "svc_repo svc = pg_repo"
    and quiet: "quiet_iteration d" and nf: "\<not> finished r"
  obtains (failed) "\<not> finished r'" "tables (sk_db w') = tables (sk_db w)" "sk_log w' = sk_log w"
    | (ended) s where "finished r'" "sk_db w' = s"
        "pg_FinishRace (cancelled r) (room_id r) (distanceMeters r) results (sk_db w) = (None, s)"
        "sk_log w' = sk_log w \<or> sk_log w' = sk_log w @ [(room_id r, Some (raceFinishedPayload (room_id r) results))]"
proof -
  obtain r1 w1 where snap: "broadcastSnapshot (race_system svc ft d) (r, w) = (r1, w1)" by fastforce
  have r1: "finished r1 = finished r" "cancelled r1 = cancelled r" "room_id r1 = room_id r" "distanceMeters r1 = distanceMeters r"
    using snap by (auto simp: broadcastSnapshot_def sendBroadcast_def Let_def case_prod_unfold split: if_splits)
  have q: "sk_db w1 = sk_db w" "sk_log w1 = sk_log w"
    using quiet_snapshot [OF _ snap] quiet by (simp_all add: system_iteration)
  obtain e s where f: "pg_FinishRace (cancelled r) (room_id r) (distanceMeters r) results (sk_db w) = (e, s)" by fastforce
  have calls: "FinishRace (race_system svc ft d) c i n rs v = on_db (pg_FinishRace c i n rs) v"
    "PublishRaceFinished (race_system svc ft d) c i rs v = kafka_PublishRaceFinished log_writer c i rs v" for c i n rs v
    by (simp_all add: race_system_def repo pg_repo_def)
  show ?thesis
  proof (cases e)
    case None
    then have "finished r' \<and> sk_db w' = s \<and>
        (sk_log w' = sk_log w \<or> sk_log w' = sk_log w @ [(room_id r, Some (raceFinishedPayload (room_id r) results))])"
      using fin snap r1 q f
      by (auto simp: finishRace_def calls on_db_def kafka_PublishRaceFinished_def log_writer_def
          sk_call_def sendBroadcast_def Let_def split: if_splits)
    then show ?thesis using f None by (intro ended) auto
  next
    case (Some err)
    then have "r' = r1 \<and> w' = w1\<lparr>sk_db := s\<rparr>"
      using fin snap r1 q f by (auto simp: finishRace_def calls on_db_def Let_def)
    then show ?thesis using f Some FinishRace_error r1 q nf by (intro failed) auto
  qed
qed

text \<open>C9: The end of a race, across the processes. When the room finds nobody racing any more and the race
  ends, the database holds the race as finished and, for everyone enrolled, exactly the rank and the
  time of the room's result; reading the \<^verbatim>\<open>race.finished\<close> message back through the
  consumer changes no row of it. When the race does not end, because the transaction failed, no row
  has changed and nothing is in the log.\<close>

theorem race_end_recorded:
  assumes "map_iteration d" "quiet_iteration d" "active r" "\<not> finished r" "\<not> list_ex (racing \<circ> snd) (participants r)"
    and ps: "ps = map snd (participants r @ departedParticipants r)" "distinct (map UserID ps)"
      "\<forall>p \<in> set ps. pred_option in_int64 (pr_FinishRank (buildParticipantResult r p))
         \<and> pred_option in_int64 (pr_FinishTimeMs (buildParticipantResult r p))"
    and check: "checkRaceFinished (race_system (pg_service sign corpus) ft d) (r, w) = (r', w')"
    and t: "t = tables (sk_db w')"
  shows "if \<not> finished r' then t = tables (sk_db w) \<and> sk_log w' = sk_log w
    else (\<forall>row. mget (races t) (room_id r) = Some row \<longrightarrow> r_status row = ''finished'')
      \<and> (\<forall>p \<in> set ps. \<forall>row. mget (race_participants t) (room_id r, UserID p) = Some row \<longrightarrow>
           p_finish_rank row = pr_FinishRank (buildParticipantResult r p) \<and>
           p_finish_time_ms row = pr_FinishTimeMs (buildParticipantResult r p))
      \<and> (\<forall>m v. sk_log w' = sk_log w @ [(km_Key m, km_Value m)] \<and> tables (sk_db v) = t
           \<longrightarrow> tables (sk_db (processRaceFinishedMessage (pg_sink pt) m v)) = t)"
proof -
  let ?d = "race_system (pg_service sign corpus) ft d"
  obtain results w1 where c: "checkRaceFinished ?d (r, w) = finishRace ?d results (r, w1)"
    and rs: "mset results = mset (map (buildParticipantResult r \<circ> snd) (participants r @ departedParticipants r))"
    and w1: "sk_db w1 = sk_db w" "sk_log w1 = sk_log w"
    using assms(1-5) by (rule_tac w = w in checked_results [of ?d r]) (auto simp: system_iteration)
  have perm: "mset results = mset (map (buildParticipantResult r) ps)"
    using rs ps(1) by simp
  then have set: "set results = buildParticipantResult r ` set ps"
    using mset_eq_setD by fastforce
  have "map pr_UserID (map (buildParticipantResult r) ps) = map UserID ps"
    by (simp add: buildParticipantResult_def)
  then have dist: "distinct (map pr_UserID results)"
    using perm ps(2) by (metis mset_eq_imp_distinct_iff mset_map)
  from check c have fin: "finishRace ?d results (r, w1) = (r', w')" by simp
  have repo: "svc_repo (pg_service sign corpus) = pg_repo" by (simp add: pg_service_def)
  from fin repo assms(2,4) show ?thesis
  proof (cases rule: finishRace_system)
    case failed
    then show ?thesis using w1 t by simp
  next
    case (ended s)
    note t' = FinishRace_tables [OF ended(3)]
    have part: "mget (race_participants t) (room_id r, UserID p) = Some row \<Longrightarrow>
        p_finish_rank row = pr_FinishRank (buildParticipantResult r p) \<and>
        p_finish_time_ms row = pr_FinishTimeMs (buildParticipantResult r p)" if "p \<in> set ps" for p row
    proof -
      have in_rs: "buildParticipantResult r p \<in> set results"
        using that set by auto
      have u: "pr_UserID (buildParticipantResult r p) = UserID p"
        by (simp add: buildParticipantResult_def)
      show "mget (race_participants t) (room_id r, UserID p) = Some row \<Longrightarrow> ?thesis"
        unfolding t ended(2) t'
        by (subst (asm) fold_results_user(1) [OF dist in_rs, unfolded u]) auto
    qed
    have same: "tables (sk_db (processRaceFinishedMessage (pg_sink pt) m v)) = t"
      if m: "sk_log w' = sk_log w @ [(km_Key m, km_Value m)]" and v: "tables (sk_db v) = t" for m v
    proof -
      have "km_Value m = Some (raceFinishedPayload (room_id r) results)"
        using m ended(4) w1 by auto
      then have "decodeRaceFinished (km_Value m) = Inr (room_id r, map toRaceResultJSON results)"
        using decode_published_results set ps(3) by auto
      note process_finished_tables [OF this, of pt v]
      also have "tables (snd (pg_ReconcileParticipantResults False (room_id r) (map toRaceResultJSON results) (sk_db v)))
          = tables (sk_db v)"
        by (rule reconcile_recorded)
          (use part v set in \<open>force simp: buildParticipantResult_def split: option.splits\<close>)
      finally show ?thesis using v by simp
    qed
    have "r_status row = ''finished''" if "mget (races t) (room_id r) = Some row" for row
      using that t' ended(2) t by (auto simp: fold_results_other split: option.splits if_splits)
    with part same ended(1) show ?thesis by auto
  qed
qed

definition sink_deps :: "sink_world room_deps" where
  "sink_deps = \<lparr>FinishRace = (\<lambda>ctx i n results w. (None, w)), LeaveRace = (\<lambda>ctx i u w. (None, w)),
      CancelRace = (\<lambda>ctx i w. (None, w)), PublishWorkoutSample = NoopPublisher_PublishWorkoutSample,
      PublishRaceFinished = NoopPublisher_PublishRaceFinished, MarkEvicted = NoopEvictionRecorder_MarkEvicted,
      Now = (\<lambda>w. (sk_clock w (sk_calls w), w)), MapIter = (\<lambda>m w. (m, w))\<rparr>"

lemma demo_room_results:
  "\<not> list_ex (racing \<circ> snd) (participants demo_room)" "room_id demo_room = ''r1''"
  "map UserID (map snd (participants demo_room @ departedParticipants demo_room)) = [''a'', ''b'']"
  "map (\<lambda>p. pr_FinishRank (buildParticipantResult demo_room p)) (map snd (participants demo_room @ departedParticipants demo_room))
     = [Some 1, Some 2]"
  "map (\<lambda>p. pr_FinishTimeMs (buildParticipantResult demo_room p)) (map snd (participants demo_room @ departedParticipants demo_room))
     = [Some 0, Some 0]"
  by (simp_all add: demo_room_def demo_events_def store_down_deps_def noop_simps room_exec)

definition demo_end :: "room_actor \<times> sink_world" where
  "demo_end = checkRaceFinished (race_system (pg_service (\<lambda>_. Inl ErrPromptNotReady) (\<lambda>_. [])) (\<lambda>_. []) sink_deps)
     (demo_room, demo_sink [])"

lemma demo_end_finished: "finished (fst demo_end)" "mget (race_participants (tables (sk_db (snd demo_end)))) (''r1'', ''a'') \<noteq> None"
  by (simp_all add: demo_end_def demo_room_def demo_events_def store_down_deps_def noop_simps room_exec sink_deps_def
      race_system_def on_db_def pg_service_def pg_repo_def demo_sink_def pg_FinishRace_def transaction_def pg_def pg_noop_def
      update_finished_def update_result_def upsert_leaderboard_def demo_tables_def kafka_PublishRaceFinished_def
      log_writer_def sk_answer_def sk_call_def)

theorem race_end_recorded_witness:
  "map_option p_finish_rank (mget (race_participants (tables (sk_db (snd demo_end)))) (''r1'', ''a'')) = Some (Some 1)"
proof -
  obtain r' w' where e: "demo_end = (r', w')" by fastforce
  let ?ps = "map snd (participants demo_room @ departedParticipants demo_room)"
  have m: "map_iteration sink_deps" "quiet_iteration sink_deps"
    by (simp_all add: map_iteration_def quiet_iteration_def sink_deps_def)
  have len: "length ?ps = 2" using demo_room_results(3) by (metis length_map length_Cons list.size(3) numeral_2_eq_2 One_nat_def)
  obtain a b where ab: "?ps = [a, b]"
    using len unfolding numeral_2_eq_2 length_Suc_conv length_0_conv by (elim exE conjE) simp
  then have res: "UserID a = ''a''" "UserID b = ''b''" "pr_FinishRank (buildParticipantResult demo_room a) = Some 1"
      "pr_FinishRank (buildParticipantResult demo_room b) = Some 2"
      "pr_FinishTimeMs (buildParticipantResult demo_room a) = Some 0"
      "pr_FinishTimeMs (buildParticipantResult demo_room b) = Some 0"
    using demo_room_results(3-5) unfolding ab by simp_all
  have "distinct (map UserID [a, b])"
    "\<forall>p \<in> set [a, b]. pred_option in_int64 (pr_FinishRank (buildParticipantResult demo_room p))
         \<and> pred_option in_int64 (pr_FinishTimeMs (buildParticipantResult demo_room p))"
    by (simp_all add: res in_int64_def)
  from race_end_recorded [where pt = "\<lambda>_. None", OF m demo_room_simps(1,2) demo_room_results(1) ab [symmetric] this e [unfolded demo_end_def] refl]
  show ?thesis
    using demo_end_finished res demo_room_results(2) unfolding e fst_conv snd_conv by (simp split: if_splits) auto
qed

end
