(* ===== verification/Http_Api_Properties.thy ===== *)
theory Http_Api_Properties
  imports Http_Api Race_Service_Properties Auth_Properties
begin

text \<open>
  What the HTTP interface promises: the replies the annotations of the handlers document, and which
  requests can change anything at all.
\<close>

section \<open>Documented replies\<close>

text \<open>The \<^verbatim>\<open>@Success\<close> and \<^verbatim>\<open>@Failure\<close> annotations: status and error code.\<close>

fun documented :: "endpoint \<Rightarrow> (nat \<times> string option) list" where
  "documented Healthz = [(200, None), (503, None)]"
| "documented Livez = [(200, None)]"
| "documented AuthRegister = [(201, None), (400, None), (409, Some ''email_taken'')]"
| "documented AuthLogin = [(200, None), (401, Some ''invalid_credentials'')]"
| "documented RacesCreate = [(201, None), (400, None), (401, Some ''unauthorized'')]"
| "documented RacesList = [(200, None), (401, Some ''unauthorized'')]"
| "documented RaceJoin = [(200, None), (400, Some ''invalid_race_id''), (401, Some ''unauthorized''),
     (404, Some ''race_not_found''), (409, Some ''already_joined''), (409, Some ''race_not_pending''), (409, Some ''race_full'')]"
| "documented RaceStart = [(200, None), (400, Some ''invalid_race_id''), (401, Some ''unauthorized''), (403, Some ''forbidden''),
     (404, Some ''race_not_found''), (409, Some ''race_not_pending'')]"
| "documented RaceText = [(200, None), (400, Some ''invalid_race_id''), (401, Some ''unauthorized''),
     (404, Some ''race_not_found''), (409, Some ''prompt_not_ready'')]"
| "documented RaceStatus = [(200, None), (400, Some ''invalid_race_id''), (401, Some ''unauthorized''), (404, Some ''race_not_found'')]"
| "documented LeaderboardMe = [(200, None), (401, Some ''unauthorized'')]"
| "documented LeaderboardTop = [(200, None), (400, None), (401, Some ''unauthorized'')]"
| "documented _ = []"

definition error_code :: "http_response \<Rightarrow> string option" where
  "error_code rs = (case rs_Body rs of Some (JObject [(k, JString c)]) \<Rightarrow> if k = ''error'' then Some c else None | _ \<Rightarrow> None)"

definition undocumented :: "endpoint \<Rightarrow> (nat \<times> string option) list" where
  "undocumented e = (500, Some ''internal_error'')
     # (if e \<in> {AuthRegister, AuthLogin, RacesCreate} then [(400, Some ''invalid_body'')] else [])"

text \<open>What a reply looks like on the wire.\<close>

definition reply_code :: "'a reply \<Rightarrow> nat \<times> string option" where
  "reply_code rep = (case rep of WriteJSON n _ \<Rightarrow> (n, None) | WriteError n c \<Rightarrow> (n, Some c) | WriteFieldErrors _ \<Rightarrow> (400, None))"

definition no_error_member :: "('a \<Rightarrow> json) \<Rightarrow> bool" where
  "no_error_member enc \<longleftrightarrow> (\<forall>x. \<exists>kvs. enc x = JObject kvs \<and> ''error'' \<notin> fst ` set kvs)"

lemma reply_code_written: "no_error_member enc \<Longrightarrow>
  (rs_Status (write_reply enc rep), error_code (write_reply enc rep)) = reply_code rep"
  by (cases rep)
    (auto simp: write_reply_def reply_code_def httpx_WriteJSON_def httpx_WriteError_def error_code_def no_error_member_def
      split: option.splits json.splits list.splits prod.splits, (metis image_eqI list.set_intros(1) fst_conv json.inject(6))+)

lemma encoders [simp]:
  "no_error_member (createRaceResponse_json f)" "no_error_member joinRaceResponse_json"
  "no_error_member (startRaceResponse_json f)" "no_error_member getRaceTextResponse_json"
  "no_error_member (listOpenRacesResponse_json f)" "no_error_member (raceStatusResponse_json f)"
  "no_error_member registerResponse_json" "no_error_member (loginResponse_json f)"
  "no_error_member leaderboardMe_json" "no_error_member leaderboardTop_json"
  by (simp_all add: no_error_member_def createRaceResponse_json_def joinRaceResponse_json_def startRaceResponse_json_def
      getRaceTextResponse_json_def listOpenRacesResponse_json_def raceStatusResponse_json_def registerResponse_json_def
      loginResponse_json_def leaderboardMe_json_def leaderboardTop_json_def Let_def)

definition replies_in :: "endpoint \<Rightarrow> 'a reply \<Rightarrow> bool" where
  "replies_in e rep \<longleftrightarrow> reply_code rep \<in> set (documented e @ undocumented e)"

lemma Auth_replies:
  assumes "Auth parse now hdr f w = (rep, w')" "(401, Some ''unauthorized'') \<in> set (documented e)"
    and "\<And>u w rep w'. f (Some u) w = (rep, w') \<Longrightarrow> replies_in e rep"
  shows "replies_in e rep"
  using assms by (auto simp: Auth_def replies_in_def reply_code_def split: option.splits)

lemma handler_replies:
  "Register_handler svc ctx b w = (rep1, w') \<Longrightarrow> replies_in AuthRegister rep1"
  "Login_handler svc ctx b2 w = (rep2, w') \<Longrightarrow> replies_in AuthLogin rep2"
  "Create h (Some u) ctx b3 rw = (rep3, rw') \<Longrightarrow> replies_in RacesCreate rep3"
  "Join h (Some u) ctx i w = (rep4, w') \<Longrightarrow> replies_in RaceJoin rep4"
  "Start h (Some u) ctx i rw = (rep5, rw') \<Longrightarrow> replies_in RaceStart rep5"
  "Text h (Some u) ctx i w = (rep6, w') \<Longrightarrow> replies_in RaceText rep6"
  "ListOpen h (Some u) ctx w = (rep7, w') \<Longrightarrow> replies_in RacesList rep7"
  "Status_handler h (Some u) ctx i w = (rep8, w') \<Longrightarrow> replies_in RaceStatus rep8"
  "Me (Some u) ctx s = (rep9, s') \<Longrightarrow> replies_in LeaderboardMe rep9"
  "Top scan (Some u) ctx win p s = (rep10, s') \<Longrightarrow> replies_in LeaderboardTop rep10"
  by (auto simp: Register_handler_def Login_handler_def Create_def Join_def Start_def Text_def ListOpen_def
      Status_handler_def Me_def Top_def replies_in_def reply_code_def undocumented_def Let_def
      split: option.splits prod.splits sum.splits if_splits go_error.splits)

text \<open>The reply an endpoint writes is that of its handler.\<close>

lemma written_replies:
  "on_db_reply enc f st = (rs, st') \<Longrightarrow> no_error_member enc \<Longrightarrow> (\<And>rep s'. f (as_db st) = (rep, s') \<Longrightarrow> replies_in e rep)
    \<Longrightarrow> (rs_Status rs, error_code rs) \<in> set (documented e @ undocumented e)"
  "on_room_reply enc g st = (rs, st') \<Longrightarrow> no_error_member enc \<Longrightarrow> (\<And>rep z. g (as_reg st, as_db st) = (rep, z) \<Longrightarrow> replies_in e rep)
    \<Longrightarrow> (rs_Status rs, error_code rs) \<in> set (documented e @ undocumented e)"
  by (auto simp: on_db_reply_def on_room_reply_def reply_code_written replies_in_def split: prod.splits)

lemma status_page_code [simp]: "rs_Status (status_page n s) = n" "error_code (status_page n s) = None"
  by (simp_all add: status_page_def httpx_WriteJSON_def error_code_def)

lemma auth_replies1:
  assumes "on_db_reply enc (requireAuth api rq st f) st = (rs, st')" "no_error_member enc"
    "(401, Some ''unauthorized'') \<in> set (documented e)" "\<And>u w rep w'. f (Some u) w = (rep, w') \<Longrightarrow> replies_in e rep"
  shows "(rs_Status rs, error_code rs) \<in> set (documented e @ undocumented e)"
  by (rule written_replies(1) [OF assms(1,2)]) (unfold requireAuth_def, erule Auth_replies, rule assms(3), rule assms(4))

lemma auth_replies2:
  assumes "on_room_reply enc (requireAuth api rq st f) st = (rs, st')" "no_error_member enc"
    "(401, Some ''unauthorized'') \<in> set (documented e)" "\<And>u w rep w'. f (Some u) w = (rep, w') \<Longrightarrow> replies_in e rep"
  shows "(rs_Status rs, error_code rs) \<in> set (documented e @ undocumented e)"
  by (rule written_replies(2) [OF assms(1,2)]) (unfold requireAuth_def, erule Auth_replies, rule assms(3), rule assms(4))

text \<open>C16: Every endpoint keeps to its documentation. Whatever is in the request, the tables and the rooms, the
  status and the error code of the reply are one of those its annotations name, or one of the two they
  leave out: 500 with \<^verbatim>\<open>internal_error\<close>, and 400 with \<^verbatim>\<open>invalid_body\<close> from the
  three endpoints that read a body.\<close>

theorem api_replies_documented:
  assumes "serve_endpoint api ctx rq e st = (rs, st')" "e \<notin> {Metrics, Swagger, Pprof}"
  shows "(rs_Status rs, error_code rs) \<in> set (documented e @ undocumented e)"
proof (cases e)
  case Healthz
  with assms(1) show ?thesis
    by (auto simp: NewHealthzHandler_def split: if_splits prod.splits sum.splits)
next
  case Livez
  with assms(1) show ?thesis by (auto simp: NewLivezHandler_def)
next
  case AuthRegister
  from assms(1) [unfolded this serve_endpoint.simps] show ?thesis
    unfolding AuthRegister by (rule written_replies(1)) (simp, erule handler_replies)
next
  case AuthLogin
  from assms(1) [unfolded this serve_endpoint.simps] show ?thesis
    unfolding AuthLogin by (rule written_replies(1)) (simp, erule handler_replies)
next
  case RacesCreate
  from assms(1) [unfolded this serve_endpoint.simps] show ?thesis
    unfolding RacesCreate by (rule auth_replies2) (simp, simp, erule handler_replies)
next
  case RacesList
  from assms(1) [unfolded this serve_endpoint.simps] show ?thesis
    unfolding RacesList by (rule auth_replies1) (simp, simp, erule handler_replies)
next
  case RaceJoin
  from assms(1) [unfolded this serve_endpoint.simps] show ?thesis
    unfolding RaceJoin by (rule auth_replies1) (simp, simp, erule handler_replies)
next
  case RaceStart
  from assms(1) [unfolded this serve_endpoint.simps] show ?thesis
    unfolding RaceStart by (rule auth_replies2) (simp, simp, erule handler_replies)
next
  case RaceText
  from assms(1) [unfolded this serve_endpoint.simps] show ?thesis
    unfolding RaceText by (rule auth_replies1) (simp, simp, erule handler_replies)
next
  case RaceStatus
  from assms(1) [unfolded this serve_endpoint.simps] show ?thesis
    unfolding RaceStatus by (rule auth_replies1) (simp, simp, erule handler_replies)
next
  case LeaderboardMe
  from assms(1) [unfolded this serve_endpoint.simps] show ?thesis
    unfolding LeaderboardMe by (rule auth_replies1) (simp, simp, erule handler_replies)
next
  case LeaderboardTop
  from assms(1) [unfolded this serve_endpoint.simps] show ?thesis
    unfolding LeaderboardTop by (rule auth_replies1) (simp, simp, erule handler_replies)
qed (use assms(2) in auto)

section \<open>What a request can change\<close>

text \<open>The parts of the state a client cares about: rows and rooms.\<close>

definition same_data :: "api_state \<Rightarrow> api_state \<Rightarrow> bool" where
  "same_data st st' \<longleftrightarrow> tables (as_db st') = tables (as_db st) \<and> as_reg st' = as_reg st"

definition reads_only :: "(db \<Rightarrow> 'a \<times> db) \<Rightarrow> bool" where
  "reads_only f \<longleftrightarrow> (\<forall>s. tables (snd (f s)) = tables s)"

lemma pg_reads:
  assumes "pg ctx stmt s = (x, s')" "\<And>s. snd (stmt s) = tables s"
  shows "tables s' = tables s"
  using pg_keeps_eq [OF assms(1), of "\<lambda>t. t = tables s"] assms(2) by simp

lemma pg_read_eqs:
  "pg ctx (\<lambda>s. (g s, tables s)) s = (x, s') \<Longrightarrow> tables s' = tables s"
  "pg ctx (select_race i) s = (y, s') \<Longrightarrow> tables s' = tables s"
  "pg ctx pg_noop s = (z, s') \<Longrightarrow> tables s' = tables s"
  by (erule pg_reads, simp add: select_race_def pg_noop_def split: option.split)+

lemma reads_onlyD: "reads_only f \<Longrightarrow> f s = (x, s') \<Longrightarrow> tables s' = tables s"
  by (metis reads_only_def snd_conv)

lemma reads_only_GetRaceText: "reads_only (pg_GetRaceText ctx i)"
  and reads_only_GetRaceWithParticipants: "reads_only (pg_GetRaceWithParticipants ctx i)"
  and reads_only_ListOpenRaces: "reads_only (pg_ListOpenRaces ctx u)"
  by (auto simp: reads_only_def pg_GetRaceText_def pg_GetRaceWithParticipants_def pg_ListOpenRaces_def
      split: prod.split sum.split pg_error.split option.split dest!: pg_read_eqs)

lemma reads_only_leaderboard: "reads_only (pg_GetUserStats ctx u)" "reads_only (pg_GetTop scan ctx win l f)"
  by (auto simp: reads_only_def pg_GetUserStats_def pg_GetTop_def
      split: prod.split sum.split pg_error.split option.split dest!: pg_read_eqs)

lemma reads_only_GetUserByEmail: "reads_only (pg_GetUserByEmail ctx email)"
  by (auto simp: reads_only_def pg_GetUserByEmail_def
      split: prod.split sum.split pg_error.split option.split dest!: pg_read_eqs)

lemma Login_world:
  "snd (Login svc ctx email password w) \<in> {w, snd (repo_GetUserByEmail (auth_repo svc) ctx (go_ToLower email) w)}"
proof -
  obtain x w1 where "repo_GetUserByEmail (auth_repo svc) ctx (go_ToLower email) w = (x, w1)" by fastforce
  then show ?thesis
    by (cases x) (simp_all add: Login_def Let_def split: go_error.split sum.split)
qed

lemma Login_handler_world:
  "snd (Login_handler svc ctx (Some (email, password)) w) = snd (Login svc ctx email password w)"
  by (cases "Login svc ctx email password w") (simp add: Login_handler_def split: sum.split go_error.split prod.split)

text \<open>The handlers behind the \<^verbatim>\<open>GET\<close> routes and the login read only.\<close>

lemma handlers_read_only:
  assumes repo: "svc_repo (h_svc h) = pg_repo" and users: "auth_repo svc = pg_auth_repo newid"
  shows "reads_only (Text h caller ctx i)" "reads_only (ListOpen h caller ctx)" "reads_only (Status_handler h caller ctx i)"
    "reads_only (Me caller ctx)" "reads_only (Top scan caller ctx win p)" "reads_only (Login_handler svc ctx body)"
proof -
  show "reads_only (Text h caller ctx i)"
    using reads_onlyD [OF reads_only_GetRaceText]
    by (fastforce simp: reads_only_def Text_def GetRaceText_def repo pg_repo_def
        split: prod.split sum.split option.split go_error.split)
  show "reads_only (ListOpen h caller ctx)"
    using reads_onlyD [OF reads_only_ListOpenRaces]
    by (fastforce simp: reads_only_def ListOpen_def ListOpenRaces_def repo pg_repo_def
        split: prod.split sum.split option.split)
  show "reads_only (Status_handler h caller ctx i)"
    using reads_onlyD [OF reads_only_GetRaceWithParticipants]
    by (fastforce simp: reads_only_def Status_handler_def GetRaceDetail_def repo pg_repo_def
        split: prod.split sum.split option.split go_error.split)
  show "reads_only (Me caller ctx)"
    using reads_onlyD [OF reads_only_leaderboard(1)]
    by (fastforce simp: reads_only_def Me_def GetMyStats_def split: prod.split sum.split option.split)
  show "reads_only (Top scan caller ctx win p)"
    using reads_onlyD [OF reads_only_leaderboard(2)]
    by (fastforce simp: reads_only_def Top_def GetTop_def Let_def split: prod.split sum.split option.split)
  show "reads_only (Login_handler svc ctx body)"
  proof (cases body)
    case (Some ep)
    then obtain email password where ep: "body = Some (email, password)" by (cases ep) auto
    have "tables (snd (pg_GetUserByEmail ctx (go_ToLower email) s)) = tables s" for s
      using reads_only_GetUserByEmail [of ctx "go_ToLower email"] by (simp add: reads_only_def)
    then show ?thesis
      using Login_world [of svc ctx email password]
      by (auto simp: reads_only_def ep Login_handler_world users pg_auth_repo_def) metis
  qed (simp add: reads_only_def Login_handler_def)
qed

lemma reads_only_Auth: "(\<And>u. reads_only (f (Some u))) \<Longrightarrow> reads_only (requireAuth api rq st f)"
  by (auto simp: reads_only_def requireAuth_def Auth_def split: option.split)

lemma on_db_same: "on_db_reply enc f st = (rs, st') \<Longrightarrow> reads_only f \<Longrightarrow> same_data st st'"
  by (auto simp: on_db_reply_def same_data_def dest: reads_onlyD split: prod.splits)

lemma routed:
  assumes "mux_Handler (RegisterRoutes p) method path = Inr e" "e \<in> {AuthRegister, RacesCreate, RaceJoin, RaceStart}"
  shows "method = ''POST''" "if e = AuthRegister then path = [''auth'', ''register''] else path \<noteq> [] \<and> hd path = ''races''"
proof -
  from assms(1) obtain m pat where f: "List.find (\<lambda>(m, pat, e). path_matches pat path \<and> method_matches m method) (RegisterRoutes p)
      = Some (m, pat, e)"
    by (auto simp: mux_Handler_def split: option.splits)
  then have "(m, pat, e) \<in> set (RegisterRoutes p)"
    by (metis find_Some_iff nth_mem)
  moreover from f have "path_matches pat path" "method_matches m method"
    by (auto simp: find_Some_iff)
  ultimately show "method = ''POST''" "if e = AuthRegister then path = [''auth'', ''register''] else path \<noteq> [] \<and> hd path = ''races''"
    using assms(2) by (auto simp: RegisterRoutes_def method_matches_def split: if_splits list.splits)
qed

lemma register_changes:
  assumes "Register_handler svc ctx body s = (rep, s')" "auth_repo svc = pg_auth_repo newid"
    "\<And>p. reads_only (GenerateFromPassword svc p)"
  shows "\<exists>us. tables s' = tables s\<lparr>users := us\<rparr>"
proof -
  have hash: "GenerateFromPassword svc p v = (x, v') \<Longrightarrow> tables v' = tables v" for p v x v'
    by (rule reads_onlyD [OF assms(3)])
  have "\<exists>us. tables v' = tables v\<lparr>users := us\<rparr>" if c: "pg_CreateUser newid ctx e n h v = (x, v')" for e n h v x v'
  proof -
    obtain y v2 where q: "pg ctx (insert_user newid e n h) v = (y, v2)" by fastforce
    have P: "\<exists>us. snd (insert_user newid e n h z) = tables v\<lparr>users := us\<rparr>"
      if "\<exists>us. tables z = tables v\<lparr>users := us\<rparr>" for z
      using that by (auto simp: insert_user_def Let_def)
    have "\<exists>us. tables v2 = tables v\<lparr>users := us\<rparr>"
      by (rule pg_keeps_eq [OF q, of "\<lambda>t. \<exists>us. t = tables v\<lparr>users := us\<rparr>"])
        (use P in \<open>auto intro: exI [of _ "users (tables v)"]\<close>)
    moreover have "v' = v2"
      using c q by (auto simp: pg_CreateUser_def split: sum.splits pg_error.splits)
    ultimately show ?thesis by simp
  qed
  note create = this
  have reg: "tables v' = tables v \<or> (\<exists>h v1 x. tables v1 = tables v \<and> pg_CreateUser newid ctx (go_ToLower e) n h v1 = (x, v'))"
    if r: "Register svc ctx e pw n v = (out, v')" for e pw n v out v'
  proof (cases "validateRegister (ParseAddress svc) e pw n = []")
    case True
    obtain y v1 where g: "GenerateFromPassword svc pw v = (y, v1)" by fastforce
    with r True hash [OF g] show ?thesis
      by (cases y; cases "snd (pg_CreateUser newid ctx (go_ToLower e) n (projr y) v1)")
        (auto simp: Register_def assms(2) pg_auth_repo_def split: prod.splits sum.splits)
  next
    case False
    with r show ?thesis by (simp add: Register_def)
  qed
  have "tables s' = tables s \<or> (\<exists>e n h v x. tables v = tables s \<and> pg_CreateUser newid ctx e n h v = (x, s'))"
  proof (cases body)
    case None
    with assms(1) show ?thesis by (simp add: Register_handler_def)
  next
    case (Some b)
    obtain e pw n where b: "b = (e, pw, n)" by (metis prod.collapse)
    obtain out v where r: "Register svc ctx e pw n s = (out, v)" by fastforce
    have "s' = v"
      using assms(1) Some b r by (auto simp: Register_handler_def split: sum.splits go_error.splits)
    with reg [OF r] show ?thesis by blast
  qed
  then show ?thesis
  proof
    assume "tables s' = tables s"
    then show ?thesis by (intro exI [of _ "users (tables s)"]) simp
  next
    assume "\<exists>e n h v x. tables v = tables s \<and> pg_CreateUser newid ctx e n h v = (x, s')"
    with create show ?thesis by metis
  qed
qed

lemma Auth_rejects:
  "Auth_user parse now hdr = None \<Longrightarrow> Auth parse now hdr f w = (WriteError 401 ''unauthorized'', w)"
  by (simp add: Auth_def)

definition may_change :: "api \<Rightarrow> http_request \<Rightarrow> api_state \<Rightarrow> api_state \<Rightarrow> bool" where
  "may_change api rq st st' \<longleftrightarrow> same_data st st' \<or> rq_Method rq = ''POST'' \<and>
     (rq_Path rq = [''auth'', ''register''] \<and> as_reg st' = as_reg st
        \<and> (\<exists>us. tables (as_db st') = tables (as_db st)\<lparr>users := us\<rparr>)
      \<or> rq_Path rq \<noteq> [] \<and> hd (rq_Path rq) = ''races''
        \<and> Auth_user (a_parse api) (as_now st) (rq_Authorization rq) \<noteq> None)"

lemma may_change_refl [simp]: "may_change api rq st st"
  by (simp add: may_change_def same_data_def)

lemma endpoint_changes:
  assumes repo: "svc_repo (h_svc (a_race api)) = pg_repo" and users: "auth_repo (a_auth api) = pg_auth_repo newid"
    and hash: "\<And>p. reads_only (GenerateFromPassword (a_auth api) p)"
    and serve: "serve_mux api ctx rq st = (rs, st')"
  shows "may_change api rq st st'"
proof (cases "mux_Handler (RegisterRoutes (a_PprofEnabled api)) (rq_Method rq) (rq_Path rq)")
  case (Inl status)
  with serve show ?thesis by (auto simp: serve_mux_def may_change_def same_data_def)
next
  case (Inr e)
  then have e: "serve_endpoint api ctx rq e st = (rs, st')"
    using serve by (simp add: serve_mux_def)
  note read = handlers_read_only [OF repo users]
  have rooms: "may_change api rq st st'"
    if "on_room_reply enc (requireAuth api rq st f) st = (rs, st')" "e \<in> {RacesCreate, RaceStart}" for enc :: "'x \<Rightarrow> json" and f
    using that routed [OF Inr]
    by (cases "Auth_user (a_parse api) (as_now st) (rq_Authorization rq)")
      (auto simp: on_room_reply_def requireAuth_def Auth_rejects may_change_def same_data_def split: prod.splits)
  have reads: "may_change api rq st st'" if "on_db_reply enc f st = (rs, st')" "reads_only f" for enc :: "'x \<Rightarrow> json" and f
    using on_db_same [OF that] by (simp add: may_change_def)
  show ?thesis
  proof (cases e)
    case AuthRegister
    then show ?thesis
      using e routed [OF Inr] register_changes [OF _ users hash]
      by (fastforce simp: on_db_reply_def may_change_def split: prod.splits)
  next
    case RaceJoin
    then show ?thesis
      using e routed [OF Inr]
      by (cases "Auth_user (a_parse api) (as_now st) (rq_Authorization rq)")
        (auto simp: on_db_reply_def requireAuth_def Auth_rejects may_change_def same_data_def split: prod.splits)
  next
    case Healthz
    then show ?thesis
      using e by (auto simp: NewHealthzHandler_def may_change_def same_data_def dest: pg_read_eqs(3)
          split: if_splits prod.splits sum.splits)
  qed (use e in \<open>auto simp: NewLivezHandler_def elim!: rooms reads intro: read reads_only_Auth\<close>)
qed

lemma serve_mux_log: "serve_mux api ctx rq st = (rs, st') \<Longrightarrow> as_log st' = as_log st"
  by (cases "mux_Handler (RegisterRoutes (a_PprofEnabled api)) (rq_Method rq) (rq_Path rq)"; cases "projr
        (mux_Handler (RegisterRoutes (a_PprofEnabled api)) (rq_Method rq) (rq_Path rq))")
    (auto simp: serve_mux_def on_db_reply_def on_room_reply_def NewHealthzHandler_def NewLivezHandler_def
      split: prod.splits if_splits sum.splits)

lemma random_bytes_quiet: "random_bytes n s = (bs, s') \<Longrightarrow> tables s' = tables s \<and> length bs = n"
  by (induction n arbitrary: s bs) (fastforce simp: Let_def split: prod.splits option.splits)+

lemma hex_length: "length (concat (map (\<lambda>b. [f b, g b]) bs)) = 2 * length bs"
  by (induction bs) simp_all

lemma generateRequestID_quiet: "generateRequestID s = (i, s') \<Longrightarrow> tables s' = tables s \<and> length i = 32"
  by (auto simp: generateRequestID_def hex_length dest!: random_bytes_quiet split: prod.splits)

text \<open>C15: Only two kinds of request can change a row or a room: the registration, which touches the table
  of users and nothing else, and a \<^verbatim>\<open>POST\<close> below \<^verbatim>\<open>/races\<close> that carries a token
  the middleware accepts. Everything else - every \<^verbatim>\<open>GET\<close>, every preflight, every login,
  every request without a valid token, and every path without a route - leaves rows and rooms as they
  are. Whatever it was, the request is logged exactly once, with the status that was sent and the
  identifier of 32 characters that the reply carries.\<close>

theorem requests_that_change:
  assumes repo: "svc_repo (h_svc (a_race api)) = pg_repo" and users: "auth_repo (a_auth api) = pg_auth_repo newid"
    and hash: "\<And>p. reads_only (GenerateFromPassword (a_auth api) p)"
    and serve: "server_handler api ctx rq st = (rs, st')"
  shows "(tables (as_db st') = tables (as_db st) \<and> as_reg st' = as_reg st
      \<or> rq_Method rq = ''POST'' \<and> rq_Path rq = [''auth'', ''register''] \<and> as_reg st' = as_reg st
         \<and> (\<exists>us. tables (as_db st') = tables (as_db st)\<lparr>users := us\<rparr>)
      \<or> rq_Method rq = ''POST'' \<and> rq_Path rq \<noteq> [] \<and> hd (rq_Path rq) = ''races''
         \<and> Auth_user (a_parse api) (as_now st) (rq_Authorization rq) \<noteq> None)
    \<and> (\<exists>l. as_log st' = as_log st @ [l] \<and> hl_status l = rs_Status rs \<and> length (hl_request_id l) = 32
         \<and> hd (rs_Headers rs) = (''X-Request-ID'', hl_request_id l))"
proof -
  obtain i s where g: "generateRequestID (as_db st) = (i, s)" by fastforce
  note q = generateRequestID_quiet [OF g]
  obtain rs1 st1 where c: "Cors (a_origin api) rq (serve_mux api ctx rq) (st\<lparr>as_db := s\<rparr>) = (rs1, st1)" by fastforce
  have "may_change api rq (st\<lparr>as_db := s\<rparr>) st1 \<and> as_log st1 = as_log st"
  proof (cases "rq_Method rq = ''OPTIONS''")
    case True
    with c show ?thesis by (auto simp: Cors_def)
  next
    case False
    then obtain rs0 where "serve_mux api ctx rq (st\<lparr>as_db := s\<rparr>) = (rs0, st1)"
      using c by (auto simp: Cors_def split: prod.splits)
    from endpoint_changes [OF repo users hash this] serve_mux_log [OF this] show ?thesis by simp
  qed
  moreover have "st' = st1\<lparr>as_log := as_log st1 @ [\<lparr>hl_method = rq_Method rq, hl_path = rq_Path rq, hl_status = rs_Status rs1,
      hl_request_id = i, hl_user_id = logged_user api rq (st\<lparr>as_db := s\<rparr>)\<rparr>]\<rparr>"
    "rs = rs1\<lparr>rs_Headers := (''X-Request-ID'', i) # rs_Headers rs1\<rparr>"
    using serve g c by (auto simp: server_handler_def RequestID_def RequestLog_def)
  ultimately show ?thesis
    using q by (auto simp: may_change_def same_data_def)
qed

section \<open>Witnesses\<close>

definition demo_api :: api where
  "demo_api = \<lparr>a_race = demo_handler, a_auth = demo_auth, a_parse = demo_login_parse, a_format = (\<lambda>_. []), a_scan = id,
     a_origin = ''o'', a_PprofEnabled = False, a_page = (\<lambda>_ _. status_page 200 ''page'')\<rparr>"

definition demo_state :: api_state where
  "demo_state = \<lparr>as_reg = NewRegistry, as_db = demo_db, as_shuttingDown = False, as_now = 0, as_log = []\<rparr>"

definition demo_request :: "string \<Rightarrow> string list \<Rightarrow> http_request" where
  "demo_request method path = \<lparr>rq_Method = method, rq_Path = path, rq_Authorization = [], rq_Query = (\<lambda>_. []), rq_Body = None\<rparr>"

theorem api_replies_documented_witness:
  "(rs_Status (fst (serve_endpoint demo_api False (demo_request ''GET'' [''races'']) RacesList demo_state)),
    error_code (fst (serve_endpoint demo_api False (demo_request ''GET'' [''races'']) RacesList demo_state)))
   \<in> {(200, None), (401, Some ''unauthorized''), (500, Some ''internal_error'')}"
  using api_replies_documented [OF prod.collapse [symmetric], of RacesList demo_api False "demo_request ''GET'' [''races'']" demo_state]
  by (auto simp: undocumented_def)

theorem requests_that_change_witness:
  "tables (as_db (snd (server_handler demo_api False (demo_request ''POST'' [''races'']) demo_state))) = demo_tables"
proof -
  have "svc_repo (h_svc (a_race demo_api)) = pg_repo" "auth_repo (a_auth demo_api) = pg_auth_repo (\<lambda>_. ''c'')"
    by (simp_all add: demo_api_def demo_handler_def demo_service_def pg_service_def demo_auth_def pg_auth_def)
  moreover have "reads_only (GenerateFromPassword (a_auth demo_api) p)" for p
    by (auto simp: demo_api_def demo_auth_def pg_auth_def salted_hash_def reads_only_def Let_def split: option.split)
  ultimately show ?thesis
    using requests_that_change [of demo_api "\<lambda>_. ''c''" False "demo_request ''POST'' [''races'']" demo_state, OF _ _ _ prod.collapse [symmetric]]
    by (auto simp: demo_request_def demo_state_def demo_api_def Auth_user_def go_HasPrefix_def)
qed

end
