(* ===== verification/Discovery.thy ===== *)
theory Discovery
  imports Gateway Configuration
begin

text \<open>
  Where the gateway finds the instances of the race service: the fixed list of
  \<^verbatim>\<open>discovery.go\<close>, the watched EndpointSlices of \<^verbatim>\<open>k8s_discovery.go\<close>, and the
  choice between them in \<^verbatim>\<open>cmd/ws-gateway/run.go\<close>. The informer of
  \<^verbatim>\<open>client-go\<close> is its store, which the watch changes, and the queue of notifications it
  delivers one after the other; a handler sees the store as it is when it runs.
\<close>

section \<open>EndpointSlices\<close>

record slice_endpoint =
  se_Addresses :: "string list"
  se_Ready :: "bool option"

record endpoint_slice =
  es_Ports :: "int option list"
  es_Endpoints :: "slice_endpoint list"

text \<open>What the store can hold besides: an object of another type.\<close>

datatype store_object = Slice endpoint_slice | OtherObject

fun decimal :: "nat \<Rightarrow> string" where
  "decimal n = (if n < 10 then [char_of (48 + n)] else decimal (n div 10) @ [char_of (48 + n mod 10)])"

declare decimal.simps [simp del]

definition go_Itoa :: "int \<Rightarrow> string" where
  "go_Itoa n = (if n < 0 then CHR ''-'' # decimal (nat (- n)) else decimal (nat n))"

definition host_port :: "string \<Rightarrow> int \<Rightarrow> string" where
  "host_port addr port = addr @ '':'' @ go_Itoa port"

text \<open>The addresses of one slice: those of its endpoints that are not explicitly unready.\<close>

definition slice_backends :: "store_object \<Rightarrow> string list" where
  "slice_backends obj = (case obj of
       OtherObject \<Rightarrow> []
     | Slice sl \<Rightarrow>
         (case es_Ports sl of
            Some port # _ \<Rightarrow>
              concat (map (\<lambda>ep. if se_Ready ep = Some False then []
                else (case se_Addresses ep of [] \<Rightarrow> [] | a # _ \<Rightarrow> [host_port a port])) (es_Endpoints sl))
          | _ \<Rightarrow> []))"

definition recompute_list :: "store_object list \<Rightarrow> string list" where
  "recompute_list objs = concat (map slice_backends objs)"

section \<open>The informer and the discovery\<close>

record k8s_discovery =
  kd_store :: "(string \<times> store_object) list"
  kd_synced :: bool
  kd_pending :: nat
  kd_backends :: "string list"

definition NewK8sBackendDiscovery :: k8s_discovery where
  "NewK8sBackendDiscovery = \<lparr>kd_store = [], kd_synced = False, kd_pending = 0, kd_backends = []\<rparr>"

definition HasSynced :: "k8s_discovery \<Rightarrow> bool" where
  "HasSynced d = kd_synced d"

definition K8s_Backends :: "k8s_discovery \<Rightarrow> string list" where
  "K8s_Backends d = kd_backends d"

text \<open>\<^verbatim>\<open>recompute\<close> reads the store in whatever order \<^verbatim>\<open>List\<close> gives.\<close>

definition recompute :: "store_object list \<Rightarrow> k8s_discovery \<Rightarrow> k8s_discovery" where
  "recompute objs d = d\<lparr>kd_backends := recompute_list objs\<rparr>"

inductive k8s_step :: "k8s_discovery \<Rightarrow> k8s_discovery \<Rightarrow> bool" where
  stored: "k8s_step d (d\<lparr>kd_store := mput k obj (kd_store d), kd_pending := Suc (kd_pending d)\<rparr>)"
| deleted: "mget (kd_store d) k \<noteq> None \<Longrightarrow>
    k8s_step d (d\<lparr>kd_store := mdel k (kd_store d), kd_pending := Suc (kd_pending d)\<rparr>)"
| resynced: "k8s_step d (d\<lparr>kd_pending := kd_pending d + length (kd_store d)\<rparr>)"
| listed: "k8s_step d (d\<lparr>kd_synced := True\<rparr>)"
| handled: "kd_pending d = Suc n \<Longrightarrow> mset objs = mset (map snd (kd_store d)) \<Longrightarrow>
    k8s_step d (recompute objs (d\<lparr>kd_pending := n\<rparr>))"

inductive k8s_reachable :: "k8s_discovery \<Rightarrow> bool" where
  start: "k8s_reachable NewK8sBackendDiscovery"
| step: "k8s_reachable d \<Longrightarrow> k8s_step d d' \<Longrightarrow> k8s_reachable d'"

section \<open>The choice\<close>

text \<open>\<^verbatim>\<open>rest.InClusterConfig\<close>: outside a cluster, an error, or a configuration from which the
  client set, the namespace and the informer are made or not.\<close>

datatype in_cluster = NotInCluster | InClusterError | InCluster

datatype backend_discovery = StaticBackends "string list" | K8sDiscovery k8s_discovery

definition newBackendDiscovery :: "in_cluster \<Rightarrow> bool \<Rightarrow> bool \<Rightarrow> bool \<Rightarrow> gateway_config \<Rightarrow> k8s_discovery \<Rightarrow>
    go_error + backend_discovery" where
  "newBackendDiscovery rest clientset namespace registered cfg synced =
     (case rest of
        NotInCluster \<Rightarrow> Inr (StaticBackends (gc_Backends cfg))
      | InClusterError \<Rightarrow> Inl (ErrOther ''in-cluster config'')
      | InCluster \<Rightarrow>
          if \<not> clientset then Inl (ErrOther ''build k8s clientset'')
          else if \<not> namespace then Inl (ErrOther ''read in-cluster namespace'')
          else if \<not> registered then Inl (ErrOther ''start k8s backend discovery'')
          else if \<not> HasSynced synced then Inl (ErrOther ''k8s backend discovery: informer sync did not complete'')
          else Inr (K8sDiscovery synced))"

fun Backends :: "backend_discovery \<Rightarrow> string list" where
  "Backends (StaticBackends bs) = bs"
| "Backends (K8sDiscovery d) = K8s_Backends d"

fun discovery_synced :: "backend_discovery \<Rightarrow> bool option" where
  "discovery_synced (StaticBackends _) = None"
| "discovery_synced (K8sDiscovery d) = Some (HasSynced d)"

section \<open>Lemmas\<close>

text \<open>An address is in the pool exactly when a slice lists it first for an endpoint that may serve.\<close>

definition serves :: "store_object list \<Rightarrow> string \<Rightarrow> bool" where
  "serves objs x \<longleftrightarrow> (\<exists>sl port ps ep a as. Slice sl \<in> set objs \<and> es_Ports sl = Some port # ps
     \<and> ep \<in> set (es_Endpoints sl) \<and> se_Ready ep \<noteq> Some False \<and> se_Addresses ep = a # as \<and> x = host_port a port)"

lemma slice_backends_in: "x \<in> set (slice_backends obj) \<longleftrightarrow> serves [obj] x"
proof (cases obj)
  case (Slice sl)
  show ?thesis
  proof (cases "\<exists>port ps. es_Ports sl = Some port # ps")
    case True
    then obtain port ps where p: "es_Ports sl = Some port # ps" by blast
    let ?f = "\<lambda>ep. if se_Ready ep = Some False then [] else (case se_Addresses ep of [] \<Rightarrow> [] | a # _ \<Rightarrow> [host_port a port])"
    have f: "x \<in> set (?f ep) \<longleftrightarrow> se_Ready ep \<noteq> Some False \<and> (\<exists>a as. se_Addresses ep = a # as \<and> x = host_port a port)" for ep
      by (cases "se_Addresses ep") auto
    have "x \<in> set (slice_backends obj) \<longleftrightarrow> (\<exists>ep \<in> set (es_Endpoints sl). x \<in> set (?f ep))"
      by (auto simp: Slice slice_backends_def p)
    also have "\<dots> \<longleftrightarrow> serves [obj] x"
      unfolding f by (auto simp: Slice serves_def p)
    finally show ?thesis .
  next
    case False
    then have "slice_backends obj = []"
      by (simp add: Slice slice_backends_def split: list.split option.split)
    with False show ?thesis by (auto simp: Slice serves_def)
  qed
qed (simp add: slice_backends_def serves_def)

lemma recompute_list_in: "x \<in> set (recompute_list objs) \<longleftrightarrow> serves objs x"
proof -
  have "serves objs x \<longleftrightarrow> (\<exists>obj \<in> set objs. serves [obj] x)"
    unfolding serves_def by fastforce
  then show ?thesis by (simp add: recompute_list_def slice_backends_in)
qed

lemma recompute_perm: "mset objs = mset objs' \<Longrightarrow> mset (recompute_list objs) = mset (recompute_list objs')"
proof -
  have "mset (recompute_list xs) = sum_mset (image_mset (\<lambda>x. mset (slice_backends x)) (mset xs))" for xs
    by (induction xs) (simp_all add: recompute_list_def)
  then show "mset objs = mset objs' \<Longrightarrow> mset (recompute_list objs) = mset (recompute_list objs')" by simp
qed

text \<open>When no notification is waiting the pool is that of the store.\<close>

definition k8s_inv :: "k8s_discovery \<Rightarrow> bool" where
  "k8s_inv d \<longleftrightarrow> distinct (mkeys (kd_store d))
     \<and> (kd_pending d = 0 \<longrightarrow> mset (kd_backends d) = mset (recompute_list (map snd (kd_store d))))"

lemma k8s_step_inv: "k8s_step d d' \<Longrightarrow> k8s_inv d \<Longrightarrow> k8s_inv d'"
proof (induction rule: k8s_step.induct)
  case (handled d n objs)
  then show ?case using recompute_perm [OF handled(2)] by (simp add: k8s_inv_def recompute_def)
qed (auto simp: k8s_inv_def distinct_update AList.distinct_delete)

lemma k8s_reachable_inv: "k8s_reachable d \<Longrightarrow> k8s_inv d"
proof (induction rule: k8s_reachable.induct)
  case start
  then show ?case by (simp add: k8s_inv_def NewK8sBackendDiscovery_def recompute_list_def)
qed (rule k8s_step_inv)

section \<open>Properties\<close>

text \<open>C30: The pool of instances follows the cluster. In every state the informer and its handler can reach,
  once no notification waits, the addresses of the pool are exactly those of the endpoints that are not
  marked unready, each with the port of its slice; and a request without a race goes to one of them, or
  is answered with 503 when there is none.\<close>

theorem pool_follows_cluster:
  assumes "k8s_reachable d" "kd_pending d = 0" "extractRaceID path = None"
    and "gateway_ServeHTTP l (Backends (K8sDiscovery d)) now later ctx path (gw, w) = (out, gw', w')"
  shows "(\<forall>x. x \<in> set (K8s_Backends d) \<longleftrightarrow> serves (map snd (kd_store d)) x)
    \<and> (case out of Proxy addr \<Rightarrow> serves (map snd (kd_store d)) addr
       | HttpError status _ \<Rightarrow> status = 503 \<and> (\<nexists>x. serves (map snd (kd_store d)) x))"
proof -
  have "mset (kd_backends d) = mset (recompute_list (map snd (kd_store d)))"
    using k8s_reachable_inv [OF assms(1)] assms(2) by (simp add: k8s_inv_def)
  then have pool: "x \<in> set (kd_backends d) \<longleftrightarrow> serves (map snd (kd_store d)) x" for x
    using recompute_list_in mset_eq_setD by blast
  show ?thesis
  proof (cases "kd_backends d = []")
    case True
    with pool assms(3,4) show ?thesis
      by (auto simp: gateway_ServeHTTP_def nextBackend_def K8s_Backends_def)
  next
    case False
    then have "kd_backends d ! (unat n mod length (kd_backends d)) \<in> set (kd_backends d)" for n :: "64 word"
      by simp
    with False pool assms(3,4) show ?thesis
      by (auto simp: gateway_ServeHTTP_def nextBackend_def K8s_Backends_def Let_def)
  qed
qed

definition demo_slice :: store_object where
  "demo_slice = Slice \<lparr>es_Ports = [Some 8080], es_Endpoints = [\<lparr>se_Addresses = [''10.0.0.7''], se_Ready = None\<rparr>,
     \<lparr>se_Addresses = [''10.0.0.8''], se_Ready = Some False\<rparr>]\<rparr>"

definition demo_cluster :: k8s_discovery where
  "demo_cluster = \<lparr>kd_store = [(''s'', demo_slice)], kd_synced = False, kd_pending = 0, kd_backends = [''10.0.0.7:8080'']\<rparr>"

lemma demo_recompute: "recompute_list [demo_slice] = [''10.0.0.7:8080'']"
proof -
  have "char_of (48 :: nat) = CHR ''0''" "char_of (56 :: nat) = CHR ''8''" by code_simp+
  then have "host_port ''10.0.0.7'' 8080 = ''10.0.0.7:8080''"
    by (simp add: host_port_def go_Itoa_def decimal.simps)
  then show ?thesis by (simp add: recompute_list_def slice_backends_def demo_slice_def)
qed

lemma demo_cluster_reachable: "k8s_reachable demo_cluster"
proof -
  let ?d = "NewK8sBackendDiscovery\<lparr>kd_store := [(''s'', demo_slice)], kd_pending := 1\<rparr>"
  have "k8s_reachable ?d"
    using k8s_reachable.step [OF k8s_reachable.start k8s_step.stored [of NewK8sBackendDiscovery "''s''" demo_slice]]
    by (simp add: NewK8sBackendDiscovery_def)
  from k8s_reachable.step [OF this k8s_step.handled [of ?d 0 "[demo_slice]"]] show ?thesis
    by (simp add: demo_cluster_def NewK8sBackendDiscovery_def recompute_def demo_recompute)
qed

theorem pool_follows_cluster_witness:
  "serves [demo_slice] ''10.0.0.7:8080'' \<and> \<not> serves [demo_slice] ''10.0.0.8:8080''"
proof -
  have "extractRaceID ''/leaderboard'' = None"
    by (simp add: extractRaceID_def go_HasPrefix_def)
  moreover obtain out gw' w' where "gateway_ServeHTTP demo_locator (Backends (K8sDiscovery demo_cluster)) 0 0 False ''/leaderboard''
      (NewGateway 30, empty_redis) = (out, gw', w')"
    by (metis prod.collapse)
  ultimately have "x = ''10.0.0.7:8080'' \<longleftrightarrow> serves [demo_slice] x" for x
    using pool_follows_cluster [OF demo_cluster_reachable, of "''/leaderboard''" demo_locator 0 0 False "NewGateway 30" empty_redis]
    unfolding demo_cluster_def K8s_Backends_def by simp
  from this [of "''10.0.0.7:8080''"] this [of "''10.0.0.8:8080''"] show ?thesis by simp
qed

text \<open>The informer reports that it has synchronised before its handler has run: the gateway can start
  with an empty pool although an instance is ready.\<close>

lemma synced_with_empty_pool:
  "\<exists>d. k8s_reachable d \<and> HasSynced d \<and> K8s_Backends d = [] \<and> (\<exists>x. serves (map snd (kd_store d)) x)"
proof -
  let ?d = "NewK8sBackendDiscovery\<lparr>kd_store := [(''s'', demo_slice)], kd_pending := 1\<rparr>"
  have "k8s_reachable ?d"
    using k8s_reachable.step [OF k8s_reachable.start k8s_step.stored [of NewK8sBackendDiscovery "''s''" demo_slice]]
    by (simp add: NewK8sBackendDiscovery_def)
  from k8s_reachable.step [OF this k8s_step.listed] show ?thesis
    using recompute_list_in [of "''10.0.0.7:8080''" "[demo_slice]"]
    by (intro exI [of _ "?d\<lparr>kd_synced := True\<rparr>"]) (auto simp: HasSynced_def K8s_Backends_def NewK8sBackendDiscovery_def demo_recompute)
qed

end
