(* ===== verification/Server_Run.thy ===== *)
theory Server_Run
  imports Room_Registry
begin

text \<open>
  The end of a server process (\<^verbatim>\<open>cmd/server/run.go\<close>): the signal, the readiness gate
  (\<^verbatim>\<open>internal/httpserver/readiness.go\<close>), the shutdown of the HTTP server and the wait for the
  rooms, while the registry and its rooms go on. Handlers that are still running are part of the
  registry's steps (\<^verbatim>\<open>Spawn\<close>, what they send to a room), so this covers a shutdown of the
  HTTP server that did not complete.
\<close>

section \<open>The process\<close>

definition shutdownTimeout :: duration where
  "shutdownTimeout = 120 * second"

definition roomDrainPollInterval :: duration where
  "roomDrainPollInterval = 250 * millisecond"

text \<open>\<open>Exited True\<close>: \<^verbatim>\<open>Run\<close> has returned with no room left, \<open>Exited False\<close>: at the end
  of its budget.\<close>

datatype run_phase = Serving | HttpShutdown | WaitingForRooms time | Exited bool

record 'w server_run =
  sr_phase :: run_phase
  sr_gate :: bool
  sr_deadline :: time
  sr_reg :: "'w registry"
  sr_world :: 'w

text \<open>\<^verbatim>\<open>waitForRoomsToDrain\<close>: the look before the loop, and one turn of its select at the time
  \<open>now\<close>. When the tick and the deadline are both there, either can be taken (\<open>tick\<close>).\<close>

definition drain_start :: "time \<Rightarrow> 'w server_run \<Rightarrow> 'w server_run" where
  "drain_start now s = s\<lparr>sr_phase :=
     (if Count (sr_reg s) = 0 then Exited True else WaitingForRooms (now + roomDrainPollInterval))\<rparr>"

definition drain_turn :: "bool \<Rightarrow> time \<Rightarrow> 'w server_run \<Rightarrow> 'w server_run" where
  "drain_turn tick now s =
     (case sr_phase s of
        WaitingForRooms due \<Rightarrow>
          if due \<le> now \<and> (tick \<or> now < sr_deadline s)
          then (if Count (sr_reg s) = 0 then s\<lparr>sr_phase := Exited True\<rparr>
                else s\<lparr>sr_phase := WaitingForRooms (due + roomDrainPollInterval)\<rparr>)
          else if sr_deadline s \<le> now then s\<lparr>sr_phase := Exited False\<rparr> else s
      | _ \<Rightarrow> s)"

definition new_server :: "'w \<Rightarrow> 'w server_run" where
  "new_server w = \<lparr>sr_phase = Serving, sr_gate = False, sr_deadline = 0, sr_reg = NewRegistry, sr_world = w\<rparr>"

inductive server_step ::
  "'w room_deps \<Rightarrow> 'w registry_deps \<Rightarrow> ('w \<Rightarrow> 'w \<Rightarrow> bool) \<Rightarrow> 'w server_run \<Rightarrow> 'w server_run \<Rightarrow> bool"
  for d :: "'w room_deps" and rd :: "'w registry_deps" and env :: "'w \<Rightarrow> 'w \<Rightarrow> bool" where
  rooms: "\<forall>b. sr_phase s \<noteq> Exited b \<Longrightarrow> reg_step d rd env (sr_reg s, sr_world s) (reg, w) \<Longrightarrow>
    server_step d rd env s (s\<lparr>sr_reg := reg, sr_world := w\<rparr>)"
| signal: "sr_phase s = Serving \<Longrightarrow>
    server_step d rd env s (s\<lparr>sr_phase := HttpShutdown, sr_gate := True, sr_deadline := now + shutdownTimeout\<rparr>)"
| http_down: "sr_phase s = HttpShutdown \<Longrightarrow> server_step d rd env s (drain_start now s)"
| waits: "server_step d rd env s (drain_turn tick now s)"

inductive reachable_server ::
  "'w room_deps \<Rightarrow> 'w registry_deps \<Rightarrow> ('w \<Rightarrow> 'w \<Rightarrow> bool) \<Rightarrow> 'w server_run \<Rightarrow> bool"
  for d :: "'w room_deps" and rd :: "'w registry_deps" and env :: "'w \<Rightarrow> 'w \<Rightarrow> bool" where
  start: "reachable_server d rd env (new_server w)"
| step: "reachable_server d rd env s \<Longrightarrow> server_step d rd env s t \<Longrightarrow> reachable_server d rd env t"

section \<open>Every room is in the map until it is done\<close>

text \<open>A newer actor of the same race has taken an actor's place.\<close>

definition superseded :: "'w registry \<Rightarrow> nat \<Rightarrow> bool" where
  "superseded reg k \<longleftrightarrow> (\<exists>k' s'. k < k' \<and> heap reg k' = Some s' \<and> room_id (actor s') = room_id (actor_of reg k))"

definition tracked :: "'w registry \<Rightarrow> bool" where
  "tracked reg \<longleftrightarrow> (\<forall>k s. heap reg k = Some s \<longrightarrow>
     cancelled (actor s) \<or> superseded reg k \<or> mget (rooms reg) (room_id (actor s)) = Some k)"

definition evolves :: "'w registry \<Rightarrow> 'w registry \<Rightarrow> bool" where
  "evolves reg reg' \<longleftrightarrow> (\<forall>k s. heap reg k = Some s \<longrightarrow> (\<exists>s'. heap reg' k = Some s' \<and> room_id (actor s') = room_id (actor s)
     \<and> (cancelled (actor s) \<longrightarrow> cancelled (actor s'))))"

lemma evolves_refl: "heap reg' = heap reg \<Longrightarrow> evolves reg reg'"
  by (simp add: evolves_def)

lemma evolves_set_actor:
  "heap reg k = Some s \<Longrightarrow> room_id r = room_id (actor s) \<Longrightarrow> (cancelled (actor s) \<Longrightarrow> cancelled r) \<Longrightarrow>
   evolves reg (set_actor k r reg)"
  by (simp add: evolves_def set_actor_def)

lemma superseded_evolves:
  assumes "evolves reg reg'" "superseded reg k" "heap reg k = Some s"
  shows "superseded reg' k"
  using assms unfolding superseded_def evolves_def actor_of_def by (metis option.sel)

text \<open>A step that takes no entry out of the map keeps every actor tracked.\<close>

lemma tracked_evolves:
  assumes "tracked reg" "evolves reg reg'" "\<And>k. heap reg' k \<noteq> None \<Longrightarrow> heap reg k \<noteq> None" "rooms reg' = rooms reg"
  shows "tracked reg'"
  unfolding tracked_def
proof (intro allI impI)
  fix k s' assume s': "heap reg' k = Some s'"
  with assms(3) [of k] obtain s where s: "heap reg k = Some s" by auto
  have e: "room_id (actor s') = room_id (actor s)" "cancelled (actor s) \<Longrightarrow> cancelled (actor s')"
    using assms(2) s s' unfolding evolves_def by (metis option.sel)+
  from assms(1) s have "cancelled (actor s) \<or> superseded reg k \<or> mget (rooms reg) (room_id (actor s)) = Some k"
    by (simp add: tracked_def del: map_of_eq_Some_iff)
  then show "cancelled (actor s') \<or> superseded reg' k \<or> mget (rooms reg') (room_id (actor s')) = Some k"
    using e superseded_evolves [OF assms(2) _ s] by (auto simp: assms(4) simp del: map_of_eq_Some_iff)
qed

lemma tracked_set_actor:
  assumes "tracked reg" "heap reg k = Some s" "room_id r = room_id (actor s)" "cancelled (actor s) \<Longrightarrow> cancelled r"
  shows "tracked (set_actor k r reg)"
  by (rule tracked_evolves [OF assms(1) evolves_set_actor [OF assms(2,3)]])
    (use assms in \<open>simp_all add: set_actor_def split: if_splits\<close>)

lemma tracked_mdel:
  assumes "tracked reg" "\<And>s. mget (rooms reg) i = Some k \<Longrightarrow> heap reg k = Some s \<Longrightarrow> cancelled (actor s)" "mget (rooms reg) i = Some k"
  shows "tracked (reg\<lparr>rooms := mdel i (rooms reg)\<rparr>)"
  unfolding tracked_def
proof (intro allI impI)
  fix m s assume s: "heap (reg\<lparr>rooms := mdel i (rooms reg)\<rparr>) m = Some s"
  with assms(1) have "cancelled (actor s) \<or> superseded reg m \<or> mget (rooms reg) (room_id (actor s)) = Some m"
    by (simp add: tracked_def del: map_of_eq_Some_iff)
  moreover have "superseded (reg\<lparr>rooms := mdel i (rooms reg)\<rparr>) m = superseded reg m"
    by (simp add: superseded_def)
  ultimately show "cancelled (actor s) \<or> superseded (reg\<lparr>rooms := mdel i (rooms reg)\<rparr>) m
      \<or> mget (rooms (reg\<lparr>rooms := mdel i (rooms reg)\<rparr>)) (room_id (actor s)) = Some m"
    using s assms(2,3) by (cases "room_id (actor s) = i") (auto simp del: map_of_eq_Some_iff)
qed

lemma Spawn_tracked:
  assumes "tracked reg" "reg_inv reg"
  shows "tracked (fst (snd (Spawn d rd i n (reg, w))))" (is "tracked ?reg")
proof -
  let ?k = "next_actor reg"
  have old: "heap reg k = Some s \<Longrightarrow> k < ?k" for k s using assms(2) by (auto simp: reg_inv_def heap_ok_def)
  have heap: "heap ?reg k = (if k = ?k then Some ((init_run d i n broadcastBufferSize w)\<lparr>actor :=
      (actor (init_run d i n broadcastBufferSize w))\<lparr>cancelled := root_done reg\<rparr>\<rparr>) else heap reg k)" for k
    by (simp add: Spawn_eq Let_def case_prod_unfold)
  have rooms: "rooms ?reg = mput i ?k (rooms reg)" by (simp add: Spawn_eq Let_def case_prod_unfold)
  have new: "\<exists>s. heap ?reg ?k = Some s \<and> room_id (actor s) = i" by (simp add: heap init_run_fresh(2))
  have ev: "evolves reg ?reg" using old by (fastforce simp: evolves_def heap)
  show ?thesis unfolding tracked_def
  proof (intro allI impI)
    fix k s assume s: "heap ?reg k = Some s"
    show "cancelled (actor s) \<or> superseded ?reg k \<or> mget (rooms ?reg) (room_id (actor s)) = Some k"
    proof (cases "k = ?k")
      case True
      with new s show ?thesis by (auto simp: rooms)
    next
      case False
      with s have o: "heap reg k = Some s" by (simp add: heap)
      with assms(1) consider "cancelled (actor s)" | "superseded reg k" | "mget (rooms reg) (room_id (actor s)) = Some k"
        by (auto simp: tracked_def simp del: map_of_eq_Some_iff)
      then show ?thesis
      proof cases
        case 2
        then show ?thesis using superseded_evolves [OF ev _ o] by simp
      next
        case 3
        have "superseded ?reg k" if "room_id (actor s) = i"
          unfolding superseded_def actor_of_def using new old [OF o] s that by force
        with 3 show ?thesis by (cases "room_id (actor s) = i") (simp_all add: rooms del: map_of_eq_Some_iff)
      qed simp
    qed
  qed
qed

lemma Remove_tracked:
  assumes "tracked reg" "reg_inv reg"
  shows "tracked (Remove i reg)"
proof (cases "mget (rooms reg) i")
  case (Some k)
  with assms(2) obtain s where s: "heap reg k = Some s" by (force simp: reg_inv_def rooms_ok_def)
  let ?reg = "set_actor k ((actor_of reg k)\<lparr>cancelled := True\<rparr>) reg"
  have t: "tracked ?reg" by (rule tracked_set_actor [OF assms(1) s]) (simp_all add: actor_of_def s)
  have "tracked (?reg\<lparr>rooms := mdel i (rooms ?reg)\<rparr>)"
    using Some by (intro tracked_mdel [OF t, of _ k]) (auto simp: set_actor_def)
  moreover have "Remove i reg = ?reg\<lparr>rooms := mdel i (rooms ?reg)\<rparr>"
    using Some by (simp add: Remove_def Let_def set_actor_def)
  ultimately show ?thesis by simp
qed (use assms in \<open>simp add: Remove_def\<close>)

lemma cleanup_tracked:
  assumes "tracked reg" "cancelled (actor_of reg k)" "cleanupWhenDone rd i k (reg, w) = (reg', w')"
  shows "tracked reg'"
proof (cases "mget (rooms reg) i = Some k")
  case True
  have "tracked (reg\<lparr>rooms := mdel i (rooms reg)\<rparr>)"
    by (rule tracked_mdel [OF assms(1) _ True]) (use assms(2) in \<open>simp add: actor_of_def\<close>)
  moreover have "reg' = reg\<lparr>rooms := mdel i (rooms reg)\<rparr>"
    using True assms(3) by (auto simp: cleanupWhenDone_def case_prod_unfold)
  ultimately show ?thesis by simp
next
  case False
  then have "reg' = reg" using assms(3) by (auto simp: cleanupWhenDone_def case_prod_unfold simp del: map_of_eq_Some_iff)
  with assms(1) show ?thesis by simp
qed

lemma tracked_frame: "tracked reg \<Longrightarrow> heap reg' = heap reg \<Longrightarrow> rooms reg' = rooms reg \<Longrightarrow> tracked reg'"
  by (simp add: tracked_def superseded_def actor_of_def)

lemma drain_publish_tracked:
  assumes "tracked reg" "heap reg k = Some s"
  shows "tracked (fst (drain_publish rd i k (reg, w)))"
proof -
  have "tracked (set_actor k ((actor_of reg k)\<lparr>broadcast := tl (broadcast (actor_of reg k))\<rparr>) reg)"
    by (rule tracked_set_actor [OF assms]) (simp_all add: actor_of_def assms(2))
  then show ?thesis by (rule tracked_frame) (simp_all add: drain_publish_def Let_def case_prod_unfold)
qed

lemma reg_step_tracked:
  assumes "reg_step d rd env s t" "tracked (fst s)" "reg_inv (fst s)"
  shows "tracked (fst t)"
  using assms
proof (induction rule: reg_step.induct)
  case (spawn reg w i n)
  then show ?case using Spawn_tracked by simp
next
  case (remove reg w i)
  then show ?case using Remove_tracked by simp
next
  case (room reg k s w t)
  have r: "room_id (actor t) = room_id (actor s)" "cancelled (actor s) \<Longrightarrow> cancelled (actor t)"
    using run_step_room_id [OF room(2)] run_step_cancelled [OF room(2)] by simp_all
  have "evolves reg (reg\<lparr>heap := (heap reg)(k \<mapsto> t)\<rparr>)" using r room(1) by (auto simp: evolves_def)
  with room show ?case by (auto intro!: tracked_evolves [of reg] split: if_splits)
next
  case (cleanup i k reg w reg' w')
  then have "tracked reg'" using cleanup_tracked by (metis fst_conv)
  then show ?case by (simp add: tracked_frame [of reg'])
next
  case (feed i k reg ev w)
  then obtain s where s: "heap reg k = Some s" by (force simp: reg_inv_def)
  from feed have "tracked reg" by simp
  from tracked_set_actor [OF this s] show ?case by (simp add: actor_of_def s)
next
  case (drain i k ph reg w)
  then obtain s where "heap reg k = Some s" by (force simp: reg_inv_def)
  with drain show ?case using drain_publish_tracked [of reg k s] by simp
qed (auto elim!: tracked_frame simp: drain_close_def heartbeat_def case_prod_unfold)

definition server_inv :: "'w server_run \<Rightarrow> bool" where
  "server_inv s \<longleftrightarrow> reg_inv (sr_reg s) \<and> tracked (sr_reg s) \<and> (sr_gate s \<longleftrightarrow> sr_phase s \<noteq> Serving)
     \<and> (sr_phase s = Exited True \<longrightarrow> rooms (sr_reg s) = [])"

lemma server_step_inv: "server_step d rd env s t \<Longrightarrow> server_inv s \<Longrightarrow> server_inv t"
proof (induction rule: server_step.induct)
  case (rooms s reg w)
  then show ?case using reg_step_inv [OF rooms(2)] reg_step_tracked [OF rooms(2)] by (simp add: server_inv_def)
qed (auto simp: server_inv_def drain_start_def drain_turn_def Count_def split: run_phase.splits)

lemma reachable_server_inv: "reachable_server d rd env s \<Longrightarrow> server_inv s"
proof (induction rule: reachable_server.induct)
  case (start w)
  then show ?case by (simp add: server_inv_def new_server_def NewRegistry_def reg_inv_defs tracked_def)
qed (rule server_step_inv)

section \<open>Properties\<close>



section \<open>What the wait does not cover\<close>

text \<open>Events that the feeder hands to an idle room are applied one after the other.\<close>

lemma feed_all:
  assumes "reachable_reg d rd env (reg, w)" "feedInbox_g i k \<in> set (goroutines reg)" "heap reg k = Some s"
    "running s" "inbox (actor s) = []" "\<forall>ev \<in> set evs. external ev"
  shows "\<exists>reg' w' s'. reachable_reg d rd env (reg', w') \<and> heap reg' k = Some s'
    \<and> actor s' = fst (applyEvents d evs (actor s, w)) \<and> rooms reg' = rooms reg \<and> goroutines reg' = goroutines reg"
  using assms
proof (induction evs arbitrary: reg w s)
  case (Cons ev evs)
  let ?s1 = "s\<lparr>actor := (actor s)\<lparr>inbox := [ev]\<rparr>\<rparr>" and ?reg1 = "set_actor k ((actor_of reg k)\<lparr>inbox := inbox (actor_of reg k) @ [ev]\<rparr>) reg"
  have 1: "reachable_reg d rd env (?reg1, w)"
    using Cons.prems by (intro reachable_reg.step [OF Cons.prems(1) reg_step.feed]) (simp_all add: actor_of_def inboxCapacity_def)
  have h1: "heap ?reg1 k = Some ?s1" using Cons.prems by (simp add: set_actor_def actor_of_def)
  let ?t = "Run_receive d ev [] (?s1\<lparr>world := w\<rparr>)"
  have "run_step d (\<lambda>_ _. False) (?s1\<lparr>world := w\<rparr>) ?t" using Cons.prems by (intro run_step.receive) simp_all
  then have 2: "reachable_reg d rd env (?reg1\<lparr>heap := (heap ?reg1)(k \<mapsto> ?t)\<rparr>, world ?t)"
    by (rule reachable_reg.step [OF 1 reg_step.room [OF h1]])
  obtain r2 w2 where r2: "applyEvent d ev (actor s, w) = (r2, w2)" by (cases "applyEvent d ev (actor s, w)")
  have "(actor s)\<lparr>inbox := []\<rparr> = actor s" using Cons.prems(5) by simp
  with r2 have t: "actor ?t = r2" "world ?t = w2" "running ?t = running s" by (simp_all add: Run_receive_def)
  have "inbox r2 = []" using applyEvent_inbox [of d ev "actor s" w] r2 Cons.prems(5) by simp
  with Cons.IH [OF 2, of ?t] Cons.prems t r2 show ?case by (simp add: set_actor_def)
qed auto

lemma serving_reachable:
  "reachable_reg d rd env (reg, w) \<Longrightarrow> reachable_server d rd env ((new_server w0)\<lparr>sr_reg := reg, sr_world := w\<rparr>)"
proof (induction "(reg, w)" arbitrary: reg w rule: reachable_reg.induct)
  case (start w)
  have "reachable_server d rd env (new_server w)" by (rule reachable_server.start)
  then show ?case by (simp add: new_server_def)
next
  case (step s reg' w')
  have "reachable_server d rd env ((new_server w0)\<lparr>sr_reg := fst s, sr_world := snd s\<rparr>)" by (rule step(2)) simp
  then have "reachable_server d rd env ((new_server w0)\<lparr>sr_reg := fst s, sr_world := snd s, sr_reg := reg', sr_world := w'\<rparr>)"
    by (rule reachable_server.step [OF _ server_step.rooms]) (use step(3) in \<open>simp_all add: new_server_def\<close>)
  then show ?case by simp
qed

text \<open>The map forgets a room as soon as its context is over; its last broadcasts may still be on their way
  through the drain. So the process can return, and close its connection to the bus, before
  \<^verbatim>\<open>race_finished\<close> and \<^verbatim>\<open>room_closed\<close> are published.\<close>

lemma exit_before_last_broadcast:
  "\<exists>s run. reachable_server noop_deps noop_registry_deps (\<lambda>_ _. False) s \<and> sr_phase s = Exited True
    \<and> drainBroadcast_g ''r1'' 0 Selecting \<in> set (goroutines (sr_reg s)) \<and> heap (sr_reg s) 0 = Some run
    \<and> (\<exists>results. RaceFinishedMessage results \<in> set (broadcast (actor run)))"
proof -
  obtain reg w where s: "snd (Spawn noop_deps noop_registry_deps ''r1'' 2 (NewRegistry, 0)) = (reg, w)"
    by (metis surj_pair)
  have r: "reachable_reg noop_deps noop_registry_deps (\<lambda>_ _. False) (reg, w)"
    using reachable_reg.step [OF reachable_reg.start reg_step.spawn] by (simp flip: s)
  let ?evs = "[ParticipantJoined ''a'' ''Ann'', activated ''go'', ParticipantLeft ''a'']"
  have reg: "rooms reg = [(''r1'', 0)]" "feedInbox_g ''r1'' 0 \<in> set (goroutines reg)"
    "cleanupWhenDone_g ''r1'' 0 \<in> set (goroutines reg)" "drainBroadcast_g ''r1'' 0 Selecting \<in> set (goroutines reg)"
    "\<exists>t. heap reg 0 = Some t \<and> running t \<and> actor t = fst (NewRoomActor noop_deps ''r1'' 2 16 0)"
    using s by (auto simp: Spawn_eq NewRegistry_def Let_def case_prod_unfold noop_registry_deps_def init_run_def
        broadcastBufferSize_def NewRoomActor_def AfterFunc_def noop_simps)
  then obtain t where t: "heap reg 0 = Some t" "running t" "actor t = fst (NewRoomActor noop_deps ''r1'' 2 16 0)" by blast
  have "inbox (actor t) = []" by (simp add: t NewRoomActor_def AfterFunc_def Let_def case_prod_unfold)
  with feed_all [OF r reg(2) t(1,2), of ?evs] obtain reg' w' s' where
    f: "reachable_reg noop_deps noop_registry_deps (\<lambda>_ _. False) (reg', w')" "heap reg' 0 = Some s'"
      "actor s' = fst (applyEvents noop_deps ?evs (actor t, w))" "rooms reg' = rooms reg" "goroutines reg' = goroutines reg"
    by auto
  have e: "cancelled (actor s')" "\<exists>results. RaceFinishedMessage results \<in> set (broadcast (actor s'))"
    by (simp_all add: f(3) t(3) noop_simps room_exec)
  obtain reg2 w2 where c: "cleanupWhenDone noop_registry_deps ''r1'' 0 (reg', w') = (reg2, w2)" by (metis surj_pair)
  let ?reg3 = "reg2\<lparr>goroutines := remove1 (cleanupWhenDone_g ''r1'' 0) (goroutines reg2)\<rparr>"
  have "reachable_reg noop_deps noop_registry_deps (\<lambda>_ _. False) (?reg3, w2)"
    by (rule reachable_reg.step [OF f(1) reg_step.cleanup [OF _ _ c]]) (use reg f e in \<open>simp_all add: actor_of_def\<close>)
  then have "reachable_server noop_deps noop_registry_deps (\<lambda>_ _. False) ((new_server 0)\<lparr>sr_reg := ?reg3, sr_world := w2\<rparr>)"
    by (rule serving_reachable)
  from reachable_server.step [OF reachable_server.step [OF this server_step.signal [of _ _ _ _ 0]] server_step.http_down [of _ _ _ _ 0]]
  have R: "reachable_server noop_deps noop_registry_deps (\<lambda>_ _. False) (drain_start 0 ((new_server 0)\<lparr>sr_reg := ?reg3, sr_world := w2,
      sr_phase := HttpShutdown, sr_gate := True, sr_deadline := 0 + shutdownTimeout\<rparr>))"
    by (simp add: new_server_def)
  obtain results where res: "RaceFinishedMessage results \<in> set (broadcast (actor s'))" using e(2) by blast
  show ?thesis
  proof (intro exI conjI)
    show "RaceFinishedMessage results \<in> set (broadcast (actor s'))" by (rule res)
    show "heap (sr_reg (drain_start 0 ((new_server 0)\<lparr>sr_reg := ?reg3, sr_world := w2, sr_phase := HttpShutdown,
        sr_gate := True, sr_deadline := 0 + shutdownTimeout\<rparr>))) 0 = Some s'"
      using c f(2) by (auto simp: cleanupWhenDone_def case_prod_unfold drain_start_def)
  qed (use R c reg f(4,5) in \<open>auto simp: cleanupWhenDone_def case_prod_unfold drain_start_def Count_def\<close>)
qed

end
