(* ===== verification/Gateway_Process.thy ===== *)
theory Gateway_Process
  imports Discovery Http_Api_Properties
begin

text \<open>
  The gateway as a process in front of the instances of the race service: its mux
  (\<^verbatim>\<open>cmd/ws-gateway/run.go\<close>), the reverse proxy of \<^verbatim>\<open>gateway.go\<close> and the entry of
  a WebSocket (\<^verbatim>\<open>endpoint.go\<close>), composed with \<^verbatim>\<open>server_handler\<close> of the instance a
  request is forwarded to. \<^verbatim>\<open>httputil.ReverseProxy\<close> forwards a request as it is, hands back
  the reply as it is, and answers 502 when the backend cannot be reached. Texts of plain error pages are
  not part of a reply here.
\<close>

section \<open>The instances\<close>

text \<open>The instances by their addresses, over one database.\<close>

record cluster =
  cl_instances :: "string \<Rightarrow> (api \<times> api_state) option"
  cl_db :: db

definition instance_serve :: "bool \<Rightarrow> string \<Rightarrow> http_request \<Rightarrow> cluster \<Rightarrow> http_response option \<times> cluster" where
  "instance_serve ctx addr rq cl =
     (case cl_instances cl addr of
        None \<Rightarrow> (None, cl)
      | Some (api, st) \<Rightarrow>
          (case server_handler api ctx rq (st\<lparr>as_db := cl_db cl\<rparr>) of (rs, st1) \<Rightarrow>
            (Some rs, cl\<lparr>cl_instances := (cl_instances cl)(addr \<mapsto> (api, st1)), cl_db := as_db st1\<rparr>)))"

section \<open>The gateway\<close>

datatype gw_endpoint = GwHealthz | GwLivez | GwMetrics | GwPprof | GwWs | GwProxy

text \<open>The most specific pattern first, as \<^verbatim>\<open>ServeMux\<close> prefers it.\<close>

definition gateway_routes :: "bool \<Rightarrow> (string option \<times> segment list \<times> gw_endpoint) list" where
  "gateway_routes pprof =
     [(Some ''GET'', [Lit ''healthz''], GwHealthz), (Some ''GET'', [Lit ''livez''], GwLivez),
      (Some ''GET'', [Lit ''metrics''], GwMetrics)]
     @ (if pprof then [(None, [Lit ''debug'', Lit ''pprof'', Subtree], GwPprof)] else [])
     @ [(Some ''GET'', [Lit ''ws''], GwWs), (None, [Subtree], GwProxy)]"

definition path_text :: "string list \<Rightarrow> string" where
  "path_text p = concat (map (\<lambda>s. CHR ''/'' # s) p)"

definition http_Error :: "nat \<Rightarrow> http_response" where
  "http_Error status = \<lparr>rs_Status = status, rs_Headers = [(''Content-Type'', ''text/plain; charset=utf-8'')], rs_Body = None\<rparr>"

text \<open>What the process holds, and what it meets while it serves one request: the clock, the checks of
  the probes and the outcome of \<^verbatim>\<open>websocket.Accept\<close>.\<close>

record 'w gateway_process =
  gp_locator :: "'w locator"
  gp_parse :: jwt_parser
  gp_discovery :: backend_discovery
  gp_pprof :: bool
  gp_page :: "string \<Rightarrow> http_request \<Rightarrow> http_response"

record gateway_moment =
  gm_now :: time
  gm_later :: time
  gm_ctx :: bool
  gm_shuttingDown :: bool
  gm_redisPing :: bool
  gm_natsConnected :: bool
  gm_accept :: "http_response option"

datatype gw_reply = Reply http_response | Upgraded user_id race_id

definition proxy_forward :: "bool \<Rightarrow> string \<Rightarrow> http_request \<Rightarrow> cluster \<Rightarrow> gw_reply \<times> cluster" where
  "proxy_forward ctx target rq cl =
     (case instance_serve ctx target rq cl of
        (None, cl1) \<Rightarrow> (Reply (http_Error 502), cl1)
      | (Some rs, cl1) \<Rightarrow> (Reply rs, cl1))"

definition proxy_ServeHTTP :: "'w gateway_process \<Rightarrow> gateway_moment \<Rightarrow> http_request \<Rightarrow> gateway \<times> 'w \<times> cluster \<Rightarrow>
    gw_reply \<times> gateway \<times> 'w \<times> cluster" where
  "proxy_ServeHTTP gp m rq = (\<lambda>(gw, w, cl).
     case gateway_ServeHTTP (gp_locator gp) (Backends (gp_discovery gp)) (gm_now m) (gm_later m) (gm_ctx m)
         (path_text (rq_Path rq)) (gw, w) of
       (HttpError status msg, gw1, w1) \<Rightarrow> (Reply (http_Error status), gw1, w1, cl)
     | (Proxy target, gw1, w1) \<Rightarrow> (case proxy_forward (gm_ctx m) target rq cl of (rep, cl1) \<Rightarrow> (rep, gw1, w1, cl1)))"

definition ws_ServeHTTP :: "'w gateway_process \<Rightarrow> gateway_moment \<Rightarrow> http_request \<Rightarrow> 'w \<Rightarrow> gw_reply \<times> 'w" where
  "ws_ServeHTTP gp m rq w =
     (case ws_admit (gp_locator gp) (gp_parse gp) (gm_now m) (gm_ctx m) (rq_Query rq ''race_id'') (rq_Query rq ''session_token'') w of
        (Rejected status msg, w1) \<Rightarrow> (Reply (http_Error status), w1)
      | (Accepted u, w1) \<Rightarrow>
          (case gm_accept m of Some rs \<Rightarrow> (Reply rs, w1) | None \<Rightarrow> (Upgraded u (rq_Query rq ''race_id''), w1)))"

definition NewLivezHandler :: http_response where
  "NewLivezHandler = status_page 200 ''ok''"

definition gateway_handler :: "'w gateway_process \<Rightarrow> gateway_moment \<Rightarrow> http_request \<Rightarrow> gateway \<times> 'w \<times> cluster \<Rightarrow>
    gw_reply \<times> gateway \<times> 'w \<times> cluster" where
  "gateway_handler gp m rq = (\<lambda>(gw, w, cl).
     case mux_Handler (gateway_routes (gp_pprof gp)) (rq_Method rq) (rq_Path rq) of
       Inl status \<Rightarrow> (Reply \<lparr>rs_Status = status, rs_Headers = [], rs_Body = None\<rparr>, gw, w, cl)
     | Inr e \<Rightarrow>
         (case e of
            GwHealthz \<Rightarrow>
              (case healthz (gm_shuttingDown m) (discovery_synced (gp_discovery gp)) (gm_redisPing m) (gm_natsConnected m) of
                (status, s) \<Rightarrow> (Reply (status_page status s), gw, w, cl))
          | GwLivez \<Rightarrow> (Reply NewLivezHandler, gw, w, cl)
          | GwMetrics \<Rightarrow> (Reply (gp_page gp ''metrics'' rq), gw, w, cl)
          | GwPprof \<Rightarrow> (Reply (gp_page gp ''pprof'' rq), gw, w, cl)
          | GwWs \<Rightarrow> (case ws_ServeHTTP gp m rq w of (rep, w1) \<Rightarrow> (rep, gw, w1, cl))
          | GwProxy \<Rightarrow> proxy_ServeHTTP gp m rq (gw, w, cl)))"

section \<open>Lemmas\<close>

lemma extractRaceID_path:
  assumes "CHR ''/'' \<notin> set i" "i \<noteq> ''''"
  shows "extractRaceID (path_text (''races'' # i # rest)) = Some i"
proof -
  have t: "takeWhile (\<lambda>x. x \<noteq> CHR ''/'') (i @ path_text rest) = i"
    using assms(1) by (cases rest) (auto simp: path_text_def takeWhile_append)
  have p: "path_text (''races'' # i # rest) = ''/races/'' @ (i @ path_text rest)" by (simp add: path_text_def)
  show ?thesis
    unfolding p using assms(2) t by (simp add: extractRaceID_def go_HasPrefix_def go_TrimPrefix_def go_CutBefore_def Let_def)
qed

lemma races_are_proxied:
  "mux_Handler (gateway_routes pprof) method (''races'' # rest) = Inr GwProxy"
  by (simp add: mux_Handler_def gateway_routes_def method_matches_def)

lemma gateway_races:
  "rq_Path rq = ''races'' # rest \<Longrightarrow> gateway_handler gp m rq s = proxy_ServeHTTP gp m rq s"
  by (cases s) (simp add: gateway_handler_def races_are_proxied)

text \<open>Where a request for a race belongs: the remembered instance as long as the memory is fresh, then
  the one that owns the race.\<close>

definition route_target :: "('w \<Rightarrow> string \<Rightarrow> string option) \<Rightarrow> time \<Rightarrow> race_id \<Rightarrow> gateway \<Rightarrow> 'w \<Rightarrow> string option" where
  "route_target live now i gw w =
     (case mget (cache gw) i of
        Some (instance, expiresAt) \<Rightarrow> if now < expiresAt then Some instance
          else map_option (\<lambda>v. go_TrimPrefix v ''instance:'') (live w (roomKey i))
      | None \<Rightarrow> map_option (\<lambda>v. go_TrimPrefix v ''instance:'') (live w (roomKey i)))"

lemma resolve_target_view:
  assumes "redis_store (client l) live elems" "resolveTarget l now later ctx i (gw, w) = (x, gw', w')"
  shows "live w' = live w \<and> elems w' = elems w \<and> (\<forall>y. x = Inr y \<longrightarrow> y = route_target live now i gw w)"
proof -
  obtain y w1 where o: "Owner l ctx i w = (y, w1)" by fastforce
  from redis_store.owner_view [OF assms(1) o refl] assms(2) o show ?thesis
    by (auto simp: resolveTarget_def route_target_def Let_def split: option.splits if_splits sum.splits)
qed

text \<open>The request asked of an instance directly, and what is left of the cluster then.\<close>

definition asked_directly :: "bool \<Rightarrow> string option \<Rightarrow> http_request \<Rightarrow> cluster \<Rightarrow> http_response \<times> cluster" where
  "asked_directly ctx target rq cl =
     (case target of
        None \<Rightarrow> (http_Error 404, cl)
      | Some addr \<Rightarrow>
          (case cl_instances cl addr of
             None \<Rightarrow> (http_Error 502, cl)
           | Some (api, st) \<Rightarrow>
               (case server_handler api ctx rq (st\<lparr>as_db := cl_db cl\<rparr>) of (rs, st1) \<Rightarrow>
                 (rs, \<lparr>cl_instances = (cl_instances cl)(addr \<mapsto> (api, st1)), cl_db = as_db st1\<rparr>))))"

lemma proxy_forward_direct:
  "proxy_forward ctx addr rq cl = (case asked_directly ctx (Some addr) rq cl of (rs, cl1) \<Rightarrow> (Reply rs, cl1))"
  by (auto simp: proxy_forward_def asked_directly_def instance_serve_def split: option.split prod.split)

lemma asked_directly_None [simp]: "asked_directly ctx None rq cl = (http_Error 404, cl)"
  by (simp add: asked_directly_def)

section \<open>Properties\<close>


text \<open>A race that has ended has no owner: its room releases the claim, and the announcement of that takes
  it from the gateway's memory. From then on the gateway answers every request for the race with 404,
  also the ones for its results, which the database still has and every instance would give.\<close>

lemma ended_race_unreachable:
  assumes "redis_store (client (gp_locator gp)) live elems" "client l = client (gp_locator gp)"
    and "Release l False i w0 = (None, w)" "gw = watch_event t \<lparr>re_Type = RoomEventRemoved, re_RaceID = i, re_InstanceID = inst\<rparr> gw0"
    and "rq_Path rq = ''races'' # i # rest" "i \<noteq> ''''" "CHR ''/'' \<notin> set i"
  shows "\<exists>gw' w' status. gateway_handler gp m rq (gw, w, cl) = (Reply (http_Error status), gw', w', cl) \<and> status \<in> {404, 503}"
proof -
  have "live w (roomKey i) = None"
    using redis_store.release_view [OF assms(1,3,2)] by auto
  then have "route_target live (gm_now m) i gw w = None"
    by (simp add: route_target_def assms(4) watch_event_def)
  moreover obtain x gw1 w1 where r: "resolveTarget (gp_locator gp) (gm_now m) (gm_later m) (gm_ctx m) i (gw, w) = (x, gw1, w1)"
    by (metis surj_pair)
  note view = resolve_target_view [OF assms(1) r]
  have e: "extractRaceID (path_text (rq_Path rq)) = Some i" using extractRaceID_path [OF assms(7,6)] assms(5) by simp
  have "proxy_ServeHTTP gp m rq (gw, w, cl) = (Reply (http_Error (if \<exists>err. x = Inl err then 503 else 404)), gw1, w1, cl)"
    using e r view calculation by (cases x) (simp_all add: proxy_ServeHTTP_def gateway_ServeHTTP_def)
  then show ?thesis by (auto simp: gateway_races [OF assms(5)])
qed

section \<open>Witness\<close>

definition demo_gateway :: "mem_redis gateway_process" where
  "demo_gateway = \<lparr>gp_locator = demo_locator, gp_parse = demo_parse, gp_discovery = StaticBackends [''i1''], gp_pprof = False,
     gp_page = (\<lambda>_ _. status_page 200 ''page'')\<rparr>"

definition demo_moment :: gateway_moment where
  "demo_moment = \<lparr>gm_now = 0, gm_later = 0, gm_ctx = False, gm_shuttingDown = False, gm_redisPing = True,
     gm_natsConnected = True, gm_accept = None\<rparr>"

definition demo_cluster :: cluster where
  "demo_cluster = \<lparr>cl_instances = [''i1'' \<mapsto> (demo_api, demo_state)], cl_db = demo_db\<rparr>"


end
