(* ===== verification/Consumer_Run.thy ===== *)
theory Consumer_Run
  imports Consumer_Properties
begin

text \<open>
  The consumer as a process (\<^verbatim>\<open>internal/consumer/consumer.go\<close>): \<^verbatim>\<open>Run\<close> starts a reader
  and a goroutine per topic and waits for both; \<^verbatim>\<open>Lag\<close> may be asked at any time. The loops
  are those of \<^verbatim>\<open>Consumer\<close>. The locale \<open>consumer_sim\<close> says when two sets of calls make
  the loops do the same; it carries facts of one loop over to the process with two.
\<close>

section \<open>Two sets of calls that do the same\<close>

locale consumer_sim =
  fixes cd' :: "'v consumer_deps" and cd :: "'w consumer_deps" and R :: "'v \<Rightarrow> 'w \<Rightarrow> bool"
  assumes sim_insert: "R v w \<Longrightarrow> rel_prod (=) R (InsertBatch cd' c ss v) (InsertBatch cd c ss w)"
    and sim_reconcile: "R v w \<Longrightarrow> rel_prod (=) R (Reconcile cd' c i rs v) (Reconcile cd c i rs w)"
    and sim_publish: "R v w \<Longrightarrow> rel_prod (=) R (PublishRaw cd' c topic key val v) (PublishRaw cd c topic key val w)"
    and sim_commit: "R v w \<Longrightarrow> rel_prod (=) R (CommitMessages cd' c ms v) (CommitMessages cd c ms w)"
    and sim_fetch: "R v w \<Longrightarrow> rel_prod (=) R (FetchMessage cd' v) (FetchMessage cd w)"
    and sim_ctx: "R v w \<Longrightarrow> rel_prod (=) R (CtxErr cd' v) (CtxErr cd w)"
    and sim_now: "R v w \<Longrightarrow> rel_prod (=) R (consumer_Now cd' v) (consumer_Now cd w)"
    and sim_parse: "ParseTime cd' = ParseTime cd"
begin

lemma sim_deadLetter: "R v w \<Longrightarrow> R (deadLetter cd' c topic m v) (deadLetter cd c topic m w)"
  using sim_publish by (fastforce simp: deadLetter_def rel_prod_sel)

lemma sim_deadLetters: "R v w \<Longrightarrow> R (fold (deadLetter cd' c topic) ms v) (fold (deadLetter cd c topic) ms w)"
  by (induction ms arbitrary: v w) (auto intro: sim_deadLetter)

lemma sim_commit_world: "R v w \<Longrightarrow> R (snd (CommitMessages cd' c ms v)) (snd (CommitMessages cd c ms w))"
  using sim_commit by (simp add: rel_prod_sel)

lemma sim_flush:
  assumes "R v w"
  shows "rel_prod (=) R (flushWorkoutSampleBatch cd' c (b, v)) (flushWorkoutSampleBatch cd c (b, w))"
proof -
  obtain e v1 where v1: "InsertBatch cd' c (samples b) v = (e, v1)" by fastforce
  with sim_insert [OF assms, of c "samples b"] obtain w1 where "InsertBatch cd c (samples b) w = (e, w1)" "R v1 w1"
    by (cases "InsertBatch cd c (samples b) w") auto
  with v1 assms show ?thesis
    by (auto simp: flushWorkoutSampleBatch_def Let_def intro: sim_commit_world sim_deadLetters split: option.split go_error.split)
qed

lemma sim_flush_check:
  assumes "R v w"
  shows "rel_prod (=) (rel_prod (=) R) (workout_flush_check cd' (b, v)) (workout_flush_check cd (b, w))"
proof -
  obtain t v1 where v1: "consumer_Now cd' v = (t, v1)" by fastforce
  with sim_now [OF assms] obtain w1 where w1: "consumer_Now cd w = (t, w1)" "R v1 w1"
    by (cases "consumer_Now cd w") auto
  obtain d v2 where v2: "CtxErr cd' v1 = (d, v2)" by fastforce
  with sim_ctx [OF w1(2)] obtain w2 where w2: "CtxErr cd w1 = (d, w2)" "R v2 w2"
    by (cases "CtxErr cd w1") auto
  show ?thesis
    using v1 w1 v2 w2 sim_flush [OF w2(2), of d b] by (simp add: workout_flush_check_def)
qed

lemma sim_iteration:
  assumes "R v w"
  shows "rel_prod (=) (rel_prod (=) R) (workout_iteration cd' (b, v)) (workout_iteration cd (b, w))"
proof -
  obtain d v1 where v1: "CtxErr cd' v = (d, v1)" by fastforce
  with sim_ctx [OF assms] obtain w1 where w1: "CtxErr cd w = (d, w1)" "R v1 w1"
    by (cases "CtxErr cd w") auto
  obtain out v2 where v2: "FetchMessage cd' v1 = (out, v2)" by fastforce
  with sim_fetch [OF w1(2)] obtain w2 where w2: "FetchMessage cd w1 = (out, w2)" "R v2 w2"
    by (cases "FetchMessage cd w1") auto
  obtain d3 v3 where v3: "CtxErr cd' v2 = (d3, v3)" by fastforce
  with sim_ctx [OF w2(2)] obtain w3 where w3: "CtxErr cd w2 = (d3, w3)" "R v3 w3"
    by (cases "CtxErr cd w2") auto
  obtain t v4 where v4: "consumer_Now cd' v2 = (t, v4)" by fastforce
  with sim_now [OF w2(2)] obtain w4 where w4: "consumer_Now cd w2 = (t, w4)" "R v4 w4"
    by (cases "consumer_Now cd w2") auto
  note step = v1 w1 v2 w2 v3 w3 v4 w4 sim_parse
  show ?thesis
  proof (cases out)
    case (Fetched m)
    let ?dv = "deadLetter cd' d3 workoutSampleDLQTopic m v3" and ?dw = "deadLetter cd d3 workoutSampleDLQTopic m w3"
    have r: "R ?dv ?dw" by (rule sim_deadLetter [OF w3(2)])
    obtain d5 v5 where v5: "CtxErr cd' ?dv = (d5, v5)" by fastforce
    with sim_ctx [OF r] obtain w5 where w5: "CtxErr cd ?dw = (d5, w5)" "R v5 w5"
      by (cases "CtxErr cd ?dw") auto
    show ?thesis
      using step Fetched v5 w5 sim_flush [OF w1(2), of False b] sim_commit_world [OF w5(2)] sim_flush_check [OF w4(2)]
      by (simp add: workout_iteration_def split: sum.split)
  qed (use step sim_flush [OF w1(2), of False b] sim_flush [OF w3(2), of False b] sim_flush_check [OF w2(2), of b] in
      \<open>simp_all add: workout_iteration_def\<close>)
qed

lemma sim_loop:
  assumes "R v w"
  shows "rel_prod (=) (rel_prod (=) R) (runWorkoutSampleLoop n cd' (b, v)) (runWorkoutSampleLoop n cd (b, w))"
  using assms
proof (induction n arbitrary: b v w)
  case (Suc n)
  obtain e b1 v1 where v1: "workout_iteration cd' (b, v) = (e, b1, v1)" by (metis surj_pair)
  with sim_iteration [OF Suc.prems, of b] obtain w1 where "workout_iteration cd (b, w) = (e, b1, w1)" "R v1 w1"
    by (cases "workout_iteration cd (b, w)") auto
  with v1 Suc.IH [of v1 w1 b1] show ?case by (cases e) simp_all
qed simp

lemma sim_process:
  assumes "R v w"
  shows "R (processRaceFinishedMessage cd' m v) (processRaceFinishedMessage cd m w)"
proof (cases "decodeRaceFinished (km_Value m)")
  case (Inl e)
  with assms show ?thesis by (simp add: processRaceFinishedMessage_def sim_commit_world sim_deadLetter)
next
  case (Inr x)
  obtain i rs where x: "x = (i, rs)" by fastforce
  obtain e v1 where v1: "Reconcile cd' False i rs v = (e, v1)" by fastforce
  with sim_reconcile [OF assms, of False i rs] obtain w1 where "Reconcile cd False i rs w = (e, w1)" "R v1 w1"
    by (cases "Reconcile cd False i rs w") auto
  with Inr x v1 show ?thesis
    by (auto simp: processRaceFinishedMessage_def sim_commit_world sim_deadLetter split: option.split go_error.split)
qed

lemma sim_finished_iteration:
  assumes "R v w"
  shows "rel_prod (=) R (finished_iteration cd' v) (finished_iteration cd w)"
proof -
  obtain out v1 where v1: "FetchMessage cd' v = (out, v1)" by fastforce
  with sim_fetch [OF assms] obtain w1 where w1: "FetchMessage cd w = (out, w1)" "R v1 w1"
    by (cases "FetchMessage cd w") auto
  obtain d v2 where v2: "CtxErr cd' v1 = (d, v2)" by fastforce
  with sim_ctx [OF w1(2)] obtain w2 where w2: "CtxErr cd w1 = (d, w2)" "R v2 w2"
    by (cases "CtxErr cd w1") auto
  show ?thesis
    using v1 w1 v2 w2 sim_process [OF w1(2)] by (cases out) (simp_all add: finished_iteration_def)
qed

lemma sim_finished_loop:
  assumes "R v w"
  shows "rel_prod (=) R (runRaceFinishedLoop n cd' v) (runRaceFinishedLoop n cd w)"
  using assms
proof (induction n arbitrary: v w)
  case (Suc n)
  obtain e v1 where v1: "finished_iteration cd' v = (e, v1)" by fastforce
  with sim_finished_iteration [OF Suc.prems] obtain w1 where "finished_iteration cd w = (e, w1)" "R v1 w1"
    by (cases "finished_iteration cd w") auto
  with v1 Suc.IH [of v1 w1] show ?case by (cases e) simp_all
qed simp

end

section \<open>The process\<close>

datatype run_at = NotRunning | NewWorkoutReader | NewRaceFinishedReader | WgWait | RunReturned

text \<open>A loop's goroutine with what it owns.\<close>

datatype 'a loop_state = NotStarted | Looping 'a | Returned 'a

datatype reader_state = ReaderOpen | ReaderClosed

text \<open>The reader pointers are nil (\<open>None\<close>) until \<^verbatim>\<open>Run\<close> stores them.\<close>

record 'w consumer_run =
  cr_at :: run_at
  cr_wg :: nat
  cr_workoutReader :: "reader_state option"
  cr_raceFinishedReader :: "reader_state option"
  cr_workout :: "sample_batch loop_state"
  cr_finished :: "unit loop_state"
  cr_world :: 'w

definition NewConsumer :: "'w \<Rightarrow> 'w consumer_run" where
  "NewConsumer w = \<lparr>cr_at = NotRunning, cr_wg = 0, cr_workoutReader = None, cr_raceFinishedReader = None,
     cr_workout = NotStarted, cr_finished = NotStarted, cr_world = w\<rparr>"

text \<open>The steps of \<^verbatim>\<open>Run\<close> itself; \<open>None\<close> while it waits.\<close>

definition consumer_Run :: "'w consumer_run \<Rightarrow> 'w consumer_run option" where
  "consumer_Run s =
     (case cr_at s of
        NotRunning \<Rightarrow> Some (s\<lparr>cr_at := NewWorkoutReader, cr_wg := 2\<rparr>)
      | NewWorkoutReader \<Rightarrow>
          Some (s\<lparr>cr_at := NewRaceFinishedReader, cr_workoutReader := Some ReaderOpen, cr_workout := Looping empty_batch\<rparr>)
      | NewRaceFinishedReader \<Rightarrow>
          Some (s\<lparr>cr_at := WgWait, cr_raceFinishedReader := Some ReaderOpen, cr_finished := Looping ()\<rparr>)
      | WgWait \<Rightarrow> if cr_wg s = 0 then Some (s\<lparr>cr_at := RunReturned\<rparr>) else None
      | RunReturned \<Rightarrow> None)"

text \<open>One iteration of a loop in its goroutine. When the loop returns its reader is closed and the wait
  group is told.\<close>

definition workout_goroutine :: "'w consumer_deps \<Rightarrow> sample_batch \<Rightarrow> 'w consumer_run \<Rightarrow> 'w consumer_run" where
  "workout_goroutine wd b s =
     (case workout_iteration wd (b, cr_world s) of
        (Continue, b1, w1) \<Rightarrow> s\<lparr>cr_workout := Looping b1, cr_world := w1\<rparr>
      | (Return, b1, w1) \<Rightarrow>
          s\<lparr>cr_workout := Returned b1, cr_world := w1, cr_workoutReader := Some ReaderClosed, cr_wg := cr_wg s - 1\<rparr>)"

definition finished_goroutine :: "'w consumer_deps \<Rightarrow> 'w consumer_run \<Rightarrow> 'w consumer_run" where
  "finished_goroutine fd s =
     (case finished_iteration fd (cr_world s) of
        (Continue, w1) \<Rightarrow> s\<lparr>cr_world := w1\<rparr>
      | (Return, w1) \<Rightarrow>
          s\<lparr>cr_finished := Returned (), cr_world := w1, cr_raceFinishedReader := Some ReaderClosed, cr_wg := cr_wg s - 1\<rparr>)"

text \<open>The statistics of the two readers are a parameter.\<close>

definition Lag :: "('w \<Rightarrow> int) \<Rightarrow> ('w \<Rightarrow> int) \<Rightarrow> 'w consumer_run \<Rightarrow> int \<times> int" where
  "Lag workout_lag finished_lag s =
     (case cr_workoutReader s of None \<Rightarrow> 0 | Some _ \<Rightarrow> workout_lag (cr_world s),
      case cr_raceFinishedReader s of None \<Rightarrow> 0 | Some _ \<Rightarrow> finished_lag (cr_world s))"

text \<open>Each reader has its own fetches and commits: \<open>wd\<close> and \<open>fd\<close>. \<open>env\<close> is what else
  happens in the world.\<close>

inductive consumer_step ::
  "'w consumer_deps \<Rightarrow> 'w consumer_deps \<Rightarrow> ('w \<Rightarrow> 'w \<Rightarrow> bool) \<Rightarrow> 'w consumer_run \<Rightarrow> 'w consumer_run \<Rightarrow> bool"
  for wd :: "'w consumer_deps" and fd :: "'w consumer_deps" and env :: "'w \<Rightarrow> 'w \<Rightarrow> bool" where
  main: "consumer_Run s = Some t \<Longrightarrow> consumer_step wd fd env s t"
| workout: "cr_workout s = Looping b \<Longrightarrow> consumer_step wd fd env s (workout_goroutine wd b s)"
| finished: "cr_finished s = Looping () \<Longrightarrow> consumer_step wd fd env s (finished_goroutine fd s)"
| outside: "env (cr_world s) w \<Longrightarrow> consumer_step wd fd env s (s\<lparr>cr_world := w\<rparr>)"

inductive consumer_reaches ::
  "'w consumer_deps \<Rightarrow> 'w consumer_deps \<Rightarrow> ('w \<Rightarrow> 'w \<Rightarrow> bool) \<Rightarrow> 'w \<Rightarrow> 'w consumer_run \<Rightarrow> bool"
  for wd :: "'w consumer_deps" and fd :: "'w consumer_deps" and env :: "'w \<Rightarrow> 'w \<Rightarrow> bool" and w :: 'w where
  start: "consumer_reaches wd fd env w (NewConsumer w)"
| step: "consumer_reaches wd fd env w s \<Longrightarrow> consumer_step wd fd env s t \<Longrightarrow> consumer_reaches wd fd env w t"

abbreviation own_step where
  "own_step wd fd \<equiv> consumer_step wd fd (\<lambda>_ _. False)"

section \<open>The wait group and the readers\<close>

definition reader_of :: "'a loop_state \<Rightarrow> reader_state option" where
  "reader_of l = (case l of NotStarted \<Rightarrow> None | Looping _ \<Rightarrow> Some ReaderOpen | Returned _ \<Rightarrow> Some ReaderClosed)"

definition pending :: "'a loop_state \<Rightarrow> nat" where
  "pending l = (case l of Returned _ \<Rightarrow> 0 | _ \<Rightarrow> 1)"

definition consumer_inv :: "'w consumer_run \<Rightarrow> bool" where
  "consumer_inv s \<longleftrightarrow>
     cr_workoutReader s = reader_of (cr_workout s) \<and> cr_raceFinishedReader s = reader_of (cr_finished s) \<and>
     cr_wg s = (if cr_at s = NotRunning then 0 else pending (cr_workout s) + pending (cr_finished s)) \<and>
     (cr_workout s = NotStarted \<longleftrightarrow> cr_at s \<in> {NotRunning, NewWorkoutReader}) \<and>
     (cr_finished s = NotStarted \<longleftrightarrow> cr_at s \<in> {NotRunning, NewWorkoutReader, NewRaceFinishedReader}) \<and>
     (cr_at s = RunReturned \<longrightarrow> cr_wg s = 0)"

lemma consumer_step_inv: "consumer_step wd fd env s t \<Longrightarrow> consumer_inv s \<Longrightarrow> consumer_inv t"
proof (induction rule: consumer_step.induct)
  case (main s t)
  then show ?case
    by (cases "cr_at s") (auto simp: consumer_Run_def consumer_inv_def reader_of_def pending_def split: if_splits)
next
  case (workout s b)
  obtain e b1 w1 where "workout_iteration wd (b, cr_world s) = (e, b1, w1)" by (metis surj_pair)
  with workout show ?case
    by (cases e) (auto simp: workout_goroutine_def consumer_inv_def reader_of_def pending_def)
next
  case (finished s)
  obtain e w1 where "finished_iteration fd (cr_world s) = (e, w1)" by (metis surj_pair)
  with finished show ?case
    by (cases e) (auto simp: finished_goroutine_def consumer_inv_def reader_of_def pending_def)
qed (auto simp: consumer_inv_def)

lemma consumer_reaches_inv: "consumer_reaches wd fd env w s \<Longrightarrow> consumer_inv s"
proof (induction rule: consumer_reaches.induct)
  case start
  then show ?case by (simp add: consumer_inv_def NewConsumer_def reader_of_def)
qed (rule consumer_step_inv)

text \<open>\<^verbatim>\<open>Run\<close> returns only after both loops have, with both readers closed.\<close>

lemma run_returned:
  assumes "consumer_inv s" "cr_at s = RunReturned"
  shows "\<exists>b. cr_workout s = Returned b" "cr_finished s = Returned ()"
    "cr_workoutReader s = Some ReaderClosed" "cr_raceFinishedReader s = Some ReaderClosed"
  using assms by (auto simp: consumer_inv_def reader_of_def pending_def split: loop_state.splits)

text \<open>As long as \<^verbatim>\<open>Run\<close> has not returned, one of the goroutines can go on.\<close>

lemma consumer_not_stuck:
  assumes "consumer_inv s" "cr_at s \<noteq> RunReturned"
  shows "\<exists>t. own_step wd fd s t"
proof (cases "consumer_Run s")
  case None
  with assms(2) have w: "cr_at s = WgWait" "cr_wg s \<noteq> 0" by (auto simp: consumer_Run_def split: run_at.splits if_splits)
  with assms(1) have "(\<exists>b. cr_workout s = Looping b) \<or> cr_finished s = Looping ()"
    by (cases "cr_workout s"; cases "cr_finished s") (auto simp: consumer_inv_def pending_def)
  then show ?thesis using consumer_step.workout consumer_step.finished by metis
qed (use consumer_step.main in blast)

section \<open>The end of the process\<close>

text \<open>When the context is over (\<open>over\<close>) each loop notices at its next look, and the readers have only
  so many messages left (\<open>remaining\<close>) that they may still hand out.\<close>

locale ending =
  fixes wd fd :: "'w consumer_deps" and over :: "'w \<Rightarrow> bool" and remaining :: "'w \<Rightarrow> nat"
  assumes ctx_over: "cd \<in> {wd, fd} \<Longrightarrow> over w \<Longrightarrow> CtxErr cd w = (d, w') \<Longrightarrow> d \<and> over w' \<and> remaining w' \<le> remaining w"
    and now_over: "cd \<in> {wd, fd} \<Longrightarrow> over w \<Longrightarrow> consumer_Now cd w = (t, w') \<Longrightarrow> over w' \<and> remaining w' \<le> remaining w"
    and insert_over: "cd \<in> {wd, fd} \<Longrightarrow> over w \<Longrightarrow> InsertBatch cd c ss w = (e, w') \<Longrightarrow> over w' \<and> remaining w' \<le> remaining w"
    and reconcile_over: "cd \<in> {wd, fd} \<Longrightarrow> over w \<Longrightarrow> Reconcile cd c i rs w = (e, w') \<Longrightarrow> over w' \<and> remaining w' \<le> remaining w"
    and publish_over: "cd \<in> {wd, fd} \<Longrightarrow> over w \<Longrightarrow> PublishRaw cd c topic key val w = (e, w') \<Longrightarrow>
      over w' \<and> remaining w' \<le> remaining w"
    and commit_over: "cd \<in> {wd, fd} \<Longrightarrow> over w \<Longrightarrow> CommitMessages cd c ms w = (e, w') \<Longrightarrow> over w' \<and> remaining w' \<le> remaining w"
    and fetch_over: "cd \<in> {wd, fd} \<Longrightarrow> over w \<Longrightarrow> FetchMessage cd w = (out, w') \<Longrightarrow>
      over w' \<and> remaining w' \<le> remaining w \<and> (\<forall>m. out = Fetched m \<longrightarrow> remaining w' < remaining w)"
begin

lemma calm:
  assumes "cd \<in> {wd, fd}"
  shows "consumer_sim cd cd (\<lambda>v w. v = w \<and> over v \<and> remaining v \<le> n)"
proof (unfold_locales, goal_cases)
  case (1 v w c ss)
  then show ?case using insert_over [OF assms, of w c ss] by (cases "InsertBatch cd c ss w") auto
next
  case (2 v w c i rs)
  then show ?case using reconcile_over [OF assms, of w c i rs] by (cases "Reconcile cd c i rs w") auto
next
  case (3 v w c topic key val)
  then show ?case using publish_over [OF assms, of w c topic key val] by (cases "PublishRaw cd c topic key val w") auto
next
  case (4 v w c ms)
  then show ?case using commit_over [OF assms, of w c ms] by (cases "CommitMessages cd c ms w") auto
next
  case (5 v w)
  obtain out w1 where f: "FetchMessage cd w = (out, w1)" by fastforce
  have "over w1 \<and> remaining w1 \<le> remaining w" using fetch_over [OF assms _ f] 5 by blast
  with 5 f show ?case by auto
next
  case (6 v w)
  obtain d w1 where f: "CtxErr cd w = (d, w1)" by fastforce
  have "over w1 \<and> remaining w1 \<le> remaining w" using ctx_over [OF assms _ f] 6 by blast
  with 6 f show ?case by auto
next
  case (7 v w)
  then show ?case using now_over [OF assms, of w] by (cases "consumer_Now cd w") auto
qed simp

lemma workout_over:
  assumes "over w" "workout_iteration wd (b, w) = (e, b', w')"
  shows "e = Return \<and> over w' \<and> remaining w' \<le> remaining w"
proof -
  obtain d w1 where d: "CtxErr wd w = (d, w1)" by fastforce
  with ctx_over [OF _ assms(1) d] assms(2) have "e = Return" by (auto simp: workout_iteration_def)
  moreover have "consumer_sim wd wd (\<lambda>v x. v = x \<and> over v \<and> remaining v \<le> remaining w)" by (rule calm) simp
  from consumer_sim.sim_iteration [OF this, of w w b] assms have "over w' \<and> remaining w' \<le> remaining w" by simp
  ultimately show ?thesis by simp
qed

lemma finished_over:
  assumes "over w" "finished_iteration fd w = (e, w')"
  shows "over w' \<and> remaining w' \<le> remaining w \<and> (e = Continue \<longrightarrow> remaining w' < remaining w)"
proof -
  obtain out w1 where f: "FetchMessage fd w = (out, w1)" by fastforce
  note w1 = fetch_over [OF _ assms(1) f]
  show ?thesis
  proof (cases out)
    case (Fetched m)
    then have "w' = processRaceFinishedMessage fd m w1" using assms(2) f by (simp add: finished_iteration_def)
    moreover have "consumer_sim fd fd (\<lambda>v x. v = x \<and> over v \<and> remaining v \<le> remaining w1)" by (rule calm) simp
    from consumer_sim.sim_process [OF this, of w1 w1 m] w1
    have "over (processRaceFinishedMessage fd m w1) \<and> remaining (processRaceFinishedMessage fd m w1) \<le> remaining w1" by simp
    ultimately show ?thesis using w1 Fetched by auto
  next
    case FetchTimeout
    obtain d w2 where d: "CtxErr fd w1 = (d, w2)" by fastforce
    with ctx_over [OF _ _ d] w1 assms(2) f FetchTimeout show ?thesis by (auto simp: finished_iteration_def)
  next
    case FetchFailed
    obtain d w2 where d: "CtxErr fd w1 = (d, w2)" by fastforce
    with ctx_over [OF _ _ d] w1 assms(2) f FetchFailed show ?thesis by (auto simp: finished_iteration_def)
  qed
qed

definition steps_left :: "'w consumer_run \<Rightarrow> nat" where
  "steps_left s = (case cr_at s of NotRunning \<Rightarrow> 4 | NewWorkoutReader \<Rightarrow> 3 | NewRaceFinishedReader \<Rightarrow> 2 | WgWait \<Rightarrow> 1 | RunReturned \<Rightarrow> 0)
     + pending (cr_workout s) + pending (cr_finished s) + remaining (cr_world s)"

lemma own_step_decreases:
  "own_step wd fd s t \<Longrightarrow> consumer_inv s \<Longrightarrow> over (cr_world s) \<Longrightarrow> steps_left t < steps_left s \<and> over (cr_world t)"
proof (induction rule: consumer_step.induct)
  case (main s t)
  then show ?case
    by (cases "cr_at s") (auto simp: consumer_Run_def steps_left_def consumer_inv_def pending_def split: if_splits)
next
  case (workout s b)
  obtain e b1 w1 where i: "workout_iteration wd (b, cr_world s) = (e, b1, w1)" by (metis surj_pair)
  with workout_over [OF workout(3) i] workout(1) show ?case
    by (simp add: workout_goroutine_def steps_left_def pending_def)
next
  case (finished s)
  obtain e w1 where i: "finished_iteration fd (cr_world s) = (e, w1)" by (metis surj_pair)
  with finished_over [OF finished(3) i] finished(1) show ?case
    by (cases e) (simp_all add: finished_goroutine_def steps_left_def pending_def)
qed simp

lemma own_steps_bounded:
  "(own_step wd fd ^^ k) s t \<Longrightarrow> consumer_inv s \<Longrightarrow> over (cr_world s) \<Longrightarrow> k + steps_left t \<le> steps_left s \<and> consumer_inv t"
proof (induction k arbitrary: t)
  case (Suc k)
  from Suc.prems(1) obtain u where u: "(own_step wd fd ^^ k) s u" "own_step wd fd u t" by auto
  have "over (cr_world u)"
    using u(1) Suc.prems(2,3)
  proof (induction k arbitrary: u)
    case (Suc k)
    then obtain v where v: "(own_step wd fd ^^ k) s v" "own_step wd fd v u" by auto
    have "consumer_inv v" using v(1) Suc.prems(2) by (induction k arbitrary: v) (auto intro: consumer_step_inv)
    with Suc v own_step_decreases [OF v(2)] show ?case by blast
  qed simp
  with Suc.IH [OF u(1) Suc.prems(2,3)] own_step_decreases [OF u(2)] consumer_step_inv [OF u(2)] show ?case by force
qed simp

text \<open>From there on \<^verbatim>\<open>Run\<close> returns whatever the order in which its goroutines run.\<close>

lemma consumer_stops:
  assumes "consumer_inv s" "over (cr_world s)" "(own_step wd fd ^^ k) s t"
  shows "k \<le> steps_left s \<and> (cr_at t = RunReturned \<or> (\<exists>u. own_step wd fd t u))"
  using own_steps_bounded [OF assms(3,1,2)] consumer_not_stuck [of t wd fd] by fastforce

end

section \<open>Two topics and one database\<close>

text \<open>The first component is the database with the partition of the samples, the second the partition of
  the results (its database is not used).\<close>

type_synonym topics = "sink_world \<times> sink_world"

definition on_first :: "(sink_world \<Rightarrow> 'a \<times> sink_world) \<Rightarrow> topics \<Rightarrow> 'a \<times> topics" where
  "on_first f = (\<lambda>(a, c). case f a of (x, a1) \<Rightarrow> (x, a1, c))"

definition on_second :: "(sink_world \<Rightarrow> 'a \<times> sink_world) \<Rightarrow> topics \<Rightarrow> 'a \<times> topics" where
  "on_second f = (\<lambda>(a, c). case f c of (x, c1) \<Rightarrow> (x, a, c1))"

definition sample_reader :: "(string \<Rightarrow> time option) \<Rightarrow> topics consumer_deps" where
  "sample_reader pt = \<lparr>InsertBatch = (\<lambda>c ss. on_first (sk_insert c ss)), Reconcile = (\<lambda>c i rs. on_first (sk_reconcile c i rs)),
     PublishRaw = (\<lambda>c topic key val. on_first (sk_publish c topic key val)), CommitMessages = (\<lambda>c ms. on_first (sk_commit c ms)),
     FetchMessage = on_first sk_fetch, CtxErr = on_first (CtxErr (pg_sink pt)), consumer_Now = on_first (consumer_Now (pg_sink pt)),
     ParseTime = pt\<rparr>"

definition result_reader :: "(string \<Rightarrow> time option) \<Rightarrow> topics consumer_deps" where
  "result_reader pt = \<lparr>InsertBatch = (\<lambda>c ss. on_first (sk_insert c ss)), Reconcile = (\<lambda>c i rs. on_first (sk_reconcile c i rs)),
     PublishRaw = (\<lambda>c topic key val. on_second (sk_publish c topic key val)), CommitMessages = (\<lambda>c ms. on_second (sk_commit c ms)),
     FetchMessage = on_second sk_fetch, CtxErr = on_second (CtxErr (pg_sink pt)), consumer_Now = on_second (consumer_Now (pg_sink pt)),
     ParseTime = pt\<rparr>"

lemmas topics_defs = on_first_def on_second_def sample_reader_def result_reader_def

text \<open>Both contexts are over; the second partition has so many messages left.\<close>

definition stopped :: "topics \<Rightarrow> bool" where
  "stopped = (\<lambda>(a, c). sk_stop a \<le> sk_calls a \<and> sk_stop c \<le> sk_calls c)"

definition unread :: "topics \<Rightarrow> nat" where
  "unread = (\<lambda>(a, c). (length (sk_log a) - sk_pos a) + (length (sk_log c) - sk_pos c))"

text \<open>The producer appends to the partitions.\<close>

definition publishing :: "topics \<Rightarrow> topics \<Rightarrow> bool" where
  "publishing = (\<lambda>(a, c) (a', c'). \<exists>l m. a' = a\<lparr>sk_log := sk_log a @ l\<rparr> \<and> c' = c\<lparr>sk_log := sk_log c @ m\<rparr>)"

interpretation sample_side: consumer_sim "sample_reader pt" "pg_sink pt" "\<lambda>v w. v = (w, c)" for pt c
  by unfold_locales (simp_all add: topics_defs pg_sink_def rel_prod_sel split: prod.split)

interpretation two: ending "sample_reader pt" "result_reader pt" stopped unread for pt
  by unfold_locales
    (auto simp: topics_defs pg_sink_def stopped_def unread_def sk_insert_def sk_reconcile_def sk_publish_def sk_commit_def
       sk_fetch_def sk_call_def split: prod.splits broker_answer.splits if_splits)

text \<open>What the other loop does to the database takes nothing from the samples.\<close>

lemma pg_faults: "pg ctx f s = (x, s') \<Longrightarrow> faults s' = faults s"
  by (auto simp: pg_def Let_def split: if_splits sum.splits prod.splits)

lemma write_unset_faults: "write_unset ctx i results s = (e, s') \<Longrightarrow> faults s' = faults s"
proof (induction results arbitrary: s)
  case (Cons res results)
  obtain x s1 where "pg ctx (update_unset i res) s = (x, s1)" by fastforce
  with Cons pg_faults [OF this] show ?case by (cases x) auto
qed simp

lemma reconcile_faults:
  assumes "pg_ReconcileParticipantResults ctx i results s = (e, s')"
  shows "faults s' = faults s"
proof -
  obtain x s1 where s1: "pg ctx pg_noop s = (x, s1)" by fastforce
  obtain y s2 where s2: "write_unset ctx i results s1 = (y, s2)" by fastforce
  obtain z s3 where s3: "pg ctx pg_noop s2 = (z, s3)" by fastforce
  show ?thesis
    using assms s1 s2 s3 pg_faults [OF s1] write_unset_faults [OF s2] pg_faults [OF s3]
    by (auto simp: pg_ReconcileParticipantResults_def transaction_def split: sum.splits option.splits)
qed

lemma reconcile_grows:
  assumes "sk_reconcile c i rs a = (e, a')"
  shows "sink.grown a a' \<and> faults (sk_db a') = faults (sk_db a)"
proof -
  obtain s' where s': "pg_ReconcileParticipantResults c i rs (sk_db a) = (e, s')" "a' = a\<lparr>sk_db := s'\<rparr>"
    using assms by (auto simp: sk_reconcile_def split: prod.splits)
  have "workout_samples (tables (snd (pg_ReconcileParticipantResults c i rs (sk_db a)))) = workout_samples (tables (sk_db a))"
    by (rule Reconcile_keeps) (simp_all add: update_unset_def Let_def split: option.split)
  with s' reconcile_faults [OF s'(1)] show ?thesis
    by (simp add: sink.grown_def sk_stored_def partition_log_def)
qed

definition beside :: "sink_world \<Rightarrow> topics \<Rightarrow> topics \<Rightarrow> bool" where
  "beside a v w \<longleftrightarrow> v = w \<and> sink.grown a (fst v) \<and> faults (sk_db (fst v)) = faults (sk_db a)"

interpretation result_side: consumer_sim "result_reader pt" "result_reader pt" "beside a" for pt a
proof (unfold_locales, goal_cases)
  case (1 v w c ss)
  obtain e a1 where "sk_insert c ss (fst w) = (e, a1)" by fastforce
  with 1 sink.insert_keeps [of _ c ss "fst w" e a1] insert_batch_effect(3) show ?case
    by (cases w) (auto simp: beside_def topics_defs pg_sink_def sink.grown_def sk_insert_def split: prod.splits)
next
  case (2 v w c i rs)
  obtain e a1 where "sk_reconcile c i rs (fst w) = (e, a1)" by fastforce
  with 2 reconcile_grows [of c i rs "fst w" e a1] sink.grown_trans show ?case
    by (cases w) (auto simp: beside_def topics_defs)
qed (auto simp: beside_def topics_defs pg_sink_def split: prod.splits)

section \<open>Properties\<close>

text \<open>The batch of the loop over the samples, and what is settled outside it.\<close>

definition samples_kept :: "(string \<Rightarrow> time option) \<Rightarrow> topics consumer_run \<Rightarrow> bool" where
  "samples_kept pt s \<longleftrightarrow> (\<forall>k. \<not> faults (sk_db (fst (cr_world s))) k) \<and>
     (case cr_workout s of
        NotStarted \<Rightarrow> sk_pos (fst (cr_world s)) = 0
      | Looping b \<Rightarrow> sink.nothing_lost pt (b, fst (cr_world s))
      | Returned b \<Rightarrow> messages b = [] \<and> sink.nothing_lost pt (b, fst (cr_world s)))"

lemma published_nothing_lost:
  assumes "sink.nothing_lost pt (b, a)"
  shows "sink.nothing_lost pt (b, a\<lparr>sk_log := sk_log a @ l\<rparr>)"
proof -
  have "partition_log (a\<lparr>sk_log := sk_log a @ l\<rparr>) ! i = partition_log a ! i" if "i < length (sk_log a)" for i
    using that by (simp add: message_at_def nth_append)
  moreover have "sink.settled pt (a\<lparr>sk_log := sk_log a @ l\<rparr>) m = sink.settled pt a m" for m
    by (simp add: sink.settled_def sk_stored_def)
  ultimately show ?thesis using assms by (auto simp: sink.nothing_lost_def)
qed

lemma workout_kept:
  assumes "workout_iteration (sample_reader pt) (b, w) = (e, b', w')" "sink.nothing_lost pt (b, fst w)"
    "\<forall>k. \<not> faults (sk_db (fst w)) k"
  shows "sink.nothing_lost pt (b', fst w') \<and> (\<forall>k. \<not> faults (sk_db (fst w')) k) \<and> (e = Return \<longrightarrow> messages b' = [])"
proof -
  obtain a c where w: "w = (a, c)" by fastforce
  with sample_side.sim_iteration [where c = c and pt = pt and v = w and w = a and b = b] assms(1) obtain a'
    where i: "workout_iteration (pg_sink pt) (b, a) = (e, b', a')" "w' = (a', c)"
    by (cases "workout_iteration (pg_sink pt) (b, a)") auto
  from iteration_progress [OF i(1)] sink.iteration_keeps [OF i(1)] assms(2,3) w i(2) show ?thesis
    by (auto split: if_splits)
qed

lemma finished_kept:
  assumes "finished_iteration (result_reader pt) w = (e, w')"
  shows "sink.grown (fst w) (fst w') \<and> faults (sk_db (fst w')) = faults (sk_db (fst w))"
  using result_side.sim_finished_iteration [of "fst w" w w pt] assms by (simp add: beside_def)

lemma nothing_lost_at_start: "sk_pos a = 0 \<Longrightarrow> sink.nothing_lost pt (empty_batch, a)"
  by (simp add: sink.nothing_lost_def sink.batch_matches_def empty_batch_def)

lemma samples_kept_step:
  assumes "consumer_step (sample_reader pt) (result_reader pt) publishing s t" "samples_kept pt s" "consumer_inv s"
  shows "samples_kept pt t"
  using assms
proof (induction rule: consumer_step.induct)
  case (main s t)
  show ?case
  proof (cases "cr_at s = NewWorkoutReader")
    case True
    with main have "cr_workout s = NotStarted" by (simp add: consumer_inv_def)
    with main True show ?thesis by (auto simp: consumer_Run_def samples_kept_def nothing_lost_at_start)
  next
    case False
    with main(1) have "cr_workout t = cr_workout s" "cr_world t = cr_world s"
      by (cases "cr_at s"; auto simp: consumer_Run_def split: if_splits)+
    with main(2) show ?thesis by (cases "cr_workout s") (simp_all add: samples_kept_def)
  qed
next
  case (workout s b)
  obtain e b1 w1 where i: "workout_iteration (sample_reader pt) (b, cr_world s) = (e, b1, w1)" by (metis surj_pair)
  with workout workout_kept [OF i] show ?case
    by (cases e) (auto simp: workout_goroutine_def samples_kept_def)
next
  case (finished s)
  obtain e w1 where i: "finished_iteration (result_reader pt) (cr_world s) = (e, w1)" by (metis surj_pair)
  with finished finished_kept [OF i] sink.nothing_lost_grown show ?case
    by (cases e) (auto simp: finished_goroutine_def samples_kept_def sink.grown_def split: loop_state.splits)
next
  case (outside s w)
  then show ?case
    using published_nothing_lost by (auto simp: publishing_def samples_kept_def split: loop_state.splits prod.splits)
qed


text \<open>A run: both loops start, the samples are read, and the context ends.\<close>

definition demo_topics :: topics where
  "demo_topics = ((demo_sink [demo_sample])\<lparr>sk_stop := 0\<rparr>, (demo_sink [])\<lparr>sk_stop := 0\<rparr>)"

lemmas demo_topics_simps = demo_topics_def demo_sink_def topics_defs pg_sink_def sk_fetch_def sk_answer_def sk_call_def


end
