(* ===== verification/Metrics_Registry.thy ===== *)
theory Metrics_Registry
  imports Consumer_Run Room_Registry Race_Hub
begin

text \<open>
  The metrics of the four binaries: the registries of \<^verbatim>\<open>internal/metrics\<close> and what
  \<^verbatim>\<open>NewLocator\<close>, \<^verbatim>\<open>NewBus\<close> and the binaries' start-up put into them. The Prometheus
  client is the record \<open>prometheus\<close>, and the locale \<open>prometheus_registry\<close> is its documented
  behaviour: registering panics unless the descriptors are valid and consistent with what is registered, a child
  of a vector is asked for with one value per variable label or the call panics. A panic is \<open>None\<close>.
\<close>

section \<open>The client library\<close>

text \<open>A metric by its descriptor; the constant labels are sorted by name as the library keeps them.\<close>

record metric =
  mt_Name :: string
  mt_Help :: string
  mt_ConstLabels :: "(string \<times> string) list"
  mt_Labels :: "string list"

record 'r prometheus =
  NewRegistry_p :: 'r
  Register_p :: "metric list \<Rightarrow> 'r \<Rightarrow> 'r option"
  Update_p :: "metric \<Rightarrow> string list \<Rightarrow> 'r \<Rightarrow> 'r option"
  GoCollector :: "metric list"
  ProcessCollector :: "metric list"

text \<open>Several collectors, one after the other.\<close>

fun MustRegister :: "'r prometheus \<Rightarrow> metric list list \<Rightarrow> 'r \<Rightarrow> 'r option" where
  "MustRegister lib [] r = Some r"
| "MustRegister lib (c # cs) r = (case Register_p lib c r of None \<Rightarrow> None | Some r1 \<Rightarrow> MustRegister lib cs r1)"

abbreviation WithLabelValues :: "'r prometheus \<Rightarrow> metric \<Rightarrow> string list \<Rightarrow> 'r \<Rightarrow> 'r option" where
  "WithLabelValues \<equiv> Update_p"

text \<open>What the documentation of \<^verbatim>\<open>Desc\<close> asks for.\<close>

definition letter_char :: "char \<Rightarrow> bool" where
  "letter_char c \<longleftrightarrow> (let n = of_char c :: nat in n = 95 \<or> (97 \<le> n \<and> n \<le> 122) \<or> (65 \<le> n \<and> n \<le> 90))"

definition digit_char :: "char \<Rightarrow> bool" where
  "digit_char c \<longleftrightarrow> (let n = of_char c :: nat in 48 \<le> n \<and> n \<le> 57)"

definition valid_name :: "string \<Rightarrow> bool" where
  "valid_name s = (case s of [] \<Rightarrow> False | c # cs \<Rightarrow> letter_char c \<and> list_all (\<lambda>x. letter_char x \<or> digit_char x) cs)"

definition valid_metric :: "metric \<Rightarrow> bool" where
  "valid_metric m \<longleftrightarrow> valid_name (mt_Name m) \<and> list_all valid_name (map fst (mt_ConstLabels m) @ mt_Labels m)
     \<and> distinct (map fst (mt_ConstLabels m) @ mt_Labels m)"

definition compatible :: "metric \<Rightarrow> metric \<Rightarrow> bool" where
  "compatible m n \<longleftrightarrow> (mt_Name m = mt_Name n \<longrightarrow> mt_Help m = mt_Help n \<and> mt_Labels m = mt_Labels n
     \<and> map fst (mt_ConstLabels m) = map fst (mt_ConstLabels n) \<and> mt_ConstLabels m \<noteq> mt_ConstLabels n)"

fun consistent :: "metric list \<Rightarrow> bool" where
  "consistent [] = True"
| "consistent (m # ms) = (list_all (compatible m) ms \<and> consistent ms)"

lemma compatible_sym: "compatible m n = compatible n m"
  by (auto simp: compatible_def)

lemma consistent_append:
  "consistent (ms @ ns) \<longleftrightarrow> consistent ms \<and> consistent ns \<and> list_all (\<lambda>m. list_all (compatible m) ns) ms"
  by (induction ms) auto

locale prometheus_registry =
  fixes lib :: "'r prometheus" and registered :: "'r \<Rightarrow> metric list"
    and val :: "'r \<Rightarrow> string \<times> string list \<Rightarrow> nat"
  assumes new_empty: "registered (NewRegistry_p lib) = []"
    and new_zero: "val (NewRegistry_p lib) = (\<lambda>_. 0)"
    and register: "consistent (registered r @ c) \<Longrightarrow> list_all valid_metric c \<Longrightarrow> Register_p lib c r \<noteq> None"
    and register_adds: "Register_p lib c r = Some r' \<Longrightarrow>
      consistent (registered r @ c) \<and> registered r' = registered r @ c \<and> val r' = val r"
    and update: "length ls = length (mt_Labels m) \<Longrightarrow>
      \<exists>r'. Update_p lib m ls r = Some r' \<and> registered r' = registered r \<and>
        val r' = (val r)((mt_Name m, ls) := val r (mt_Name m, ls) + 1)"
    and arity: "length ls \<noteq> length (mt_Labels m) \<Longrightarrow> Update_p lib m ls r = None"
    and collectors: "consistent (GoCollector lib @ ProcessCollector lib)"
      "list_all valid_metric (GoCollector lib @ ProcessCollector lib)"
      "m \<in> set (GoCollector lib @ ProcessCollector lib) \<Longrightarrow> go_HasPrefix (mt_Name m) ''go_'' \<or> go_HasPrefix (mt_Name m) ''process_''"
begin

lemma MustRegister_ok:
  assumes "consistent (registered r @ concat cs)" "list_all valid_metric (concat cs)"
  shows "\<exists>r'. MustRegister lib cs r = Some r' \<and> registered r' = registered r @ concat cs \<and> val r' = val r"
  using assms
proof (induction cs arbitrary: r)
  case (Cons c cs)
  then have "consistent (registered r @ c)" "list_all valid_metric c" by (auto simp: consistent_append list_all_iff)
  from register [OF this] obtain r1 where "Register_p lib c r = Some r1" by blast
  with register_adds have r1: "Register_p lib c r = Some r1" "registered r1 = registered r @ c" "val r1 = val r" by blast+
  from Cons.IH [of r1] Cons.prems r1 show ?case by simp
qed simp

lemma MustRegister_Some:
  assumes "MustRegister lib cs r = Some r'"
  shows "registered r' = registered r @ concat cs \<and> val r' = val r \<and> (consistent (registered r) \<longrightarrow> consistent (registered r'))"
  using assms
proof (induction cs arbitrary: r)
  case (Cons c cs)
  then obtain r1 where r1: "Register_p lib c r = Some r1" "MustRegister lib cs r1 = Some r'" by (auto split: option.splits)
  with register_adds [OF r1(1)] Cons.IH [OF r1(2)] show ?case by auto
qed simp

text \<open>The program's own metrics do not meet the collectors of the library.\<close>

lemma own_beside_collectors:
  assumes "consistent own" "list_all (\<lambda>m. go_HasPrefix (mt_Name m) ''aviron_'') own"
  shows "consistent ((GoCollector lib @ ProcessCollector lib) @ own)"
proof -
  have "compatible m n" if "m \<in> set (GoCollector lib @ ProcessCollector lib)" "n \<in> set own" for m n
  proof -
    have "mt_Name m \<noteq> mt_Name n"
      using collectors(3) [OF that(1)] assms(2) that(2) by (cases "mt_Name n") (auto simp: list_all_iff go_HasPrefix_def)
    then show ?thesis by (simp add: compatible_def)
  qed
  then show ?thesis using assms(1) collectors(1) unfolding consistent_append by (auto simp: list_all_iff)
qed

end

section \<open>A registry in memory\<close>

type_synonym mem_registry = "metric list \<times> (string \<times> string list \<Rightarrow> nat)"

definition mem_prometheus :: "mem_registry prometheus" where
  "mem_prometheus = \<lparr>NewRegistry_p = ([], \<lambda>_. 0),
     Register_p = (\<lambda>c (ms, v). if consistent (ms @ c) \<and> list_all valid_metric c then Some (ms @ c, v) else None),
     Update_p = (\<lambda>m ls (ms, v). if length ls = length (mt_Labels m) then Some (ms, v((mt_Name m, ls) := v (mt_Name m, ls) + 1)) else None),
     GoCollector = [\<lparr>mt_Name = ''go_goroutines'', mt_Help = '''', mt_ConstLabels = [], mt_Labels = []\<rparr>],
     ProcessCollector = [\<lparr>mt_Name = ''process_cpu_seconds_total'', mt_Help = '''', mt_ConstLabels = [], mt_Labels = []\<rparr>]\<rparr>"

interpretation memory: prometheus_registry mem_prometheus fst snd
  by unfold_locales
    (auto simp: mem_prometheus_def compatible_def valid_metric_def valid_name_def letter_char_def digit_char_def go_HasPrefix_def
      split: prod.splits if_splits)

section \<open>The race service\<close>

definition tickLatency :: metric where
  "tickLatency = \<lparr>mt_Name = ''aviron_tick_latency_seconds'',
     mt_Help = ''Duration of a single room actor broadcast tick (marshal + non-blocking send).'',
     mt_ConstLabels = [], mt_Labels = []\<rparr>"

definition NewMetrics :: "'r prometheus \<Rightarrow> 'r option" where
  "NewMetrics lib = MustRegister lib [GoCollector lib, ProcessCollector lib, [tickLatency]] (NewRegistry_p lib)"

definition ObserveTick :: "'r prometheus \<Rightarrow> 'r \<Rightarrow> 'r option" where
  "ObserveTick lib = WithLabelValues lib tickLatency []"

text \<open>A gauge function with what it reads at a scrape.\<close>

definition RoomGauges :: "(metric \<times> ('w registry \<Rightarrow> nat)) list" where
  "RoomGauges =
     [(\<lparr>mt_Name = ''aviron_rooms_active'', mt_Help = ''Number of race rooms currently running.'',
        mt_ConstLabels = [], mt_Labels = []\<rparr>, Count),
      (\<lparr>mt_Name = ''aviron_channel_buffer_used'',
        mt_Help = ''Messages currently queued in a channel, summed across every live room/connection.'',
        mt_ConstLabels = [(''channel'', ''inbox'')], mt_Labels = []\<rparr>, InboxBufferUsage),
      (\<lparr>mt_Name = ''aviron_channel_buffer_used'',
        mt_Help = ''Messages currently queued in a channel, summed across every live room/connection.'',
        mt_ConstLabels = [(''channel'', ''broadcast'')], mt_Labels = []\<rparr>, BroadcastBufferUsage)]"

definition RegisterRoomGauges :: "'r prometheus \<Rightarrow> 'r \<Rightarrow> 'r option" where
  "RegisterRoomGauges lib = MustRegister lib (map (\<lambda>g. [fst g]) (RoomGauges :: (metric \<times> (unit registry \<Rightarrow> nat)) list))"

text \<open>The statistics of the connection pool are read through a record of its own.\<close>

record pool_stat =
  AcquiredConns :: nat
  MaxConns :: nat

definition PgPoolGauges :: "(metric \<times> (pool_stat \<Rightarrow> nat)) list" where
  "PgPoolGauges =
     [(\<lparr>mt_Name = ''aviron_pg_pool_acquired_conns'', mt_Help = ''Postgres connection pool: connections currently acquired.'',
        mt_ConstLabels = [], mt_Labels = []\<rparr>, AcquiredConns),
      (\<lparr>mt_Name = ''aviron_pg_pool_max_conns'', mt_Help = ''Postgres connection pool: configured maximum connections.'',
        mt_ConstLabels = [], mt_Labels = []\<rparr>, MaxConns)]"

definition RegisterPgPoolGauges :: "'r prometheus \<Rightarrow> 'r \<Rightarrow> 'r option" where
  "RegisterPgPoolGauges lib = MustRegister lib (map (\<lambda>g. [fst g]) PgPoolGauges)"

definition natsReconnects :: metric where
  "natsReconnects = \<lparr>mt_Name = ''aviron_nats_reconnects_total'',
     mt_Help = ''Number of times this process'' @ CHR 0x27 # ''s NATS connection has reconnected after a disconnect.'',
     mt_ConstLabels = [], mt_Labels = []\<rparr>"

definition RegisterNATSReconnectCounter :: "'r prometheus \<Rightarrow> 'r \<Rightarrow> 'r option" where
  "RegisterNATSReconnectCounter lib = MustRegister lib [[natsReconnects]]"

section \<open>The locator and the bus\<close>

definition lookupDuration :: metric where
  "lookupDuration = \<lparr>mt_Name = ''aviron_roomlocator_lookup_duration_seconds'',
     mt_Help = ''Duration of a single Locator method call against Redis.'', mt_ConstLabels = [], mt_Labels = [''op'', ''outcome'']\<rparr>"

definition locator_errorsTotal :: metric where
  "locator_errorsTotal = \<lparr>mt_Name = ''aviron_roomlocator_errors_total'',
     mt_Help = ''Locator method calls that returned an error.'', mt_ConstLabels = [], mt_Labels = [''op'']\<rparr>"

definition NewLocator :: "'r prometheus \<Rightarrow> 'r \<Rightarrow> 'r option" where
  "NewLocator lib = MustRegister lib [[lookupDuration], [locator_errorsTotal]]"

definition locator_observe :: "'r prometheus \<Rightarrow> string \<Rightarrow> string \<Rightarrow> 'r \<Rightarrow> 'r option" where
  "locator_observe lib op outcome r =
     (case WithLabelValues lib lookupDuration [op, outcome] r of
        None \<Rightarrow> None
      | Some r1 \<Rightarrow> if outcome = ''error'' then WithLabelValues lib locator_errorsTotal [op] r1 else Some r1)"

definition publishTotal :: metric where
  "publishTotal = \<lparr>mt_Name = ''aviron_roomrelay_publish_total'', mt_Help = ''Publish attempts on a room'' @ CHR 0x27 # ''s NATS subjects.'',
     mt_ConstLabels = [], mt_Labels = [''subject_kind'']\<rparr>"

definition publishErrors :: metric where
  "publishErrors = \<lparr>mt_Name = ''aviron_roomrelay_publish_errors_total'',
     mt_Help = ''Publish attempts on a room'' @ CHR 0x27 # ''s NATS subjects that returned an error.'',
     mt_ConstLabels = [], mt_Labels = [''subject_kind'']\<rparr>"

definition publishDuration :: metric where
  "publishDuration = \<lparr>mt_Name = ''aviron_roomrelay_publish_duration_seconds'',
     mt_Help = ''Duration of a single publish call on a room'' @ CHR 0x27 # ''s NATS subjects.'',
     mt_ConstLabels = [], mt_Labels = [''subject_kind'']\<rparr>"

definition bus_metrics :: "'r prometheus \<Rightarrow> 'r \<Rightarrow> 'r option" where
  "bus_metrics lib = MustRegister lib [[publishTotal], [publishErrors], [publishDuration]]"

section \<open>The gateway\<close>

definition NewGatewayMetrics :: "'r prometheus \<Rightarrow> 'r option" where
  "NewGatewayMetrics lib = MustRegister lib [GoCollector lib, ProcessCollector lib] (NewRegistry_p lib)"

definition ConnectionGauge :: "metric \<times> ('p hub_sys \<Rightarrow> nat)" where
  "ConnectionGauge = (\<lparr>mt_Name = ''aviron_ws_connections_active'',
     mt_Help = ''Number of local WebSocket connections this gateway instance currently holds, summed across every race.'',
     mt_ConstLabels = [], mt_Labels = []\<rparr>, hubs_Count)"

definition RegisterConnectionGauge :: "'r prometheus \<Rightarrow> 'r \<Rightarrow> 'r option" where
  "RegisterConnectionGauge lib = MustRegister lib [[fst (ConnectionGauge :: metric \<times> (unit hub_sys \<Rightarrow> nat))]]"

section \<open>The consumer\<close>

definition batchInsertDuration :: metric where
  "batchInsertDuration = \<lparr>mt_Name = ''aviron_consumer_batch_insert_duration_seconds'',
     mt_Help = ''Duration of a single batch write to Postgres (InsertBatch or ReconcileParticipantResults).'',
     mt_ConstLabels = [], mt_Labels = [''topic'']\<rparr>"

definition batchInsertErrors :: metric where
  "batchInsertErrors = \<lparr>mt_Name = ''aviron_consumer_batch_insert_errors_total'',
     mt_Help = ''Batch writes to Postgres that returned an error, transient or permanent.'',
     mt_ConstLabels = [], mt_Labels = [''topic'']\<rparr>"

definition dlqTotal :: metric where
  "dlqTotal = \<lparr>mt_Name = ''aviron_consumer_dlq_total'', mt_Help = ''Messages republished to a dead-letter topic.'',
     mt_ConstLabels = [], mt_Labels = [''topic'']\<rparr>"

definition NewConsumerMetrics :: "'r prometheus \<Rightarrow> 'r option" where
  "NewConsumerMetrics lib = MustRegister lib [GoCollector lib, ProcessCollector lib, [batchInsertDuration],
     [batchInsertErrors], [dlqTotal]] (NewRegistry_p lib)"

definition ObserveBatchInsert :: "'r prometheus \<Rightarrow> string \<Rightarrow> go_error option \<Rightarrow> 'r \<Rightarrow> 'r option" where
  "ObserveBatchInsert lib topic err r =
     (case WithLabelValues lib batchInsertDuration [topic] r of
        None \<Rightarrow> None
      | Some r1 \<Rightarrow> if err \<noteq> None then WithLabelValues lib batchInsertErrors [topic] r1 else Some r1)"

definition IncDLQ :: "'r prometheus \<Rightarrow> string \<Rightarrow> 'r \<Rightarrow> 'r option" where
  "IncDLQ lib topic = WithLabelValues lib dlqTotal [topic]"

definition LagGauges :: "(metric \<times> (int \<times> int \<Rightarrow> int)) list" where
  "LagGauges =
     [(\<lparr>mt_Name = ''aviron_kafka_consumer_lag'', mt_Help = ''Kafka consumer group lag, in messages, for this topic'' @ CHR 0x27 # ''s reader.'',
        mt_ConstLabels = [(''topic'', TopicWorkoutSample)], mt_Labels = []\<rparr>, fst),
      (\<lparr>mt_Name = ''aviron_kafka_consumer_lag'', mt_Help = ''Kafka consumer group lag, in messages, for this topic'' @ CHR 0x27 # ''s reader.'',
        mt_ConstLabels = [(''topic'', TopicRaceFinished)], mt_Labels = []\<rparr>, snd)]"

definition RegisterLagGauge :: "'r prometheus \<Rightarrow> 'r \<Rightarrow> 'r option" where
  "RegisterLagGauge lib = MustRegister lib (map (\<lambda>g. [fst g]) LagGauges)"

section \<open>The alert relay\<close>

definition relay_errors :: metric where
  "relay_errors = \<lparr>mt_Name = ''aviron_telegram_relay_errors_total'',
     mt_Help = ''Webhook calls where forwarding the alert to the Telegram Bot API failed.'',
     mt_ConstLabels = [], mt_Labels = []\<rparr>"

definition NewTelegramRelayMetrics :: "'r prometheus \<Rightarrow> 'r option" where
  "NewTelegramRelayMetrics lib = MustRegister lib [GoCollector lib, ProcessCollector lib, [relay_errors]] (NewRegistry_p lib)"

definition IncError :: "'r prometheus \<Rightarrow> 'r \<Rightarrow> 'r option" where
  "IncError lib = WithLabelValues lib relay_errors []"

section \<open>Observations\<close>

text \<open>Every observation has as many label values as its metric has labels.\<close>

context prometheus_registry
begin

lemma update_ok: "length ls = length (mt_Labels m) \<Longrightarrow> \<exists>r'. Update_p lib m ls r = Some r'"
  using update by blast

lemmas labels = tickLatency_def lookupDuration_def locator_errorsTotal_def batchInsertDuration_def batchInsertErrors_def
  dlqTotal_def relay_errors_def

lemma observations_never_panic:
  "ObserveTick lib r \<noteq> None" "locator_observe lib op outcome r \<noteq> None" "ObserveBatchInsert lib topic err r \<noteq> None"
  "IncDLQ lib topic r \<noteq> None" "IncError lib r \<noteq> None"
  using update_ok [of "[]" tickLatency r] update_ok [of "[op, outcome]" lookupDuration r] update_ok [of "[op]" locator_errorsTotal]
    update_ok [of "[topic]" batchInsertDuration r] update_ok [of "[topic]" batchInsertErrors] update_ok [of "[topic]" dlqTotal r]
    update_ok [of "[]" relay_errors r]
  by (auto simp: ObserveTick_def locator_observe_def ObserveBatchInsert_def IncDLQ_def IncError_def labels split: option.split)

text \<open>An error of the locator is counted once, beside its duration.\<close>

lemma locator_observe_counts:
  assumes "locator_observe lib op outcome r = Some r'"
  shows "val r' (mt_Name lookupDuration, [op, outcome]) = val r (mt_Name lookupDuration, [op, outcome]) + 1"
    "val r' (mt_Name locator_errorsTotal, [op]) = val r (mt_Name locator_errorsTotal, [op]) + (if outcome = ''error'' then 1 else 0)"
proof -
  have 1: "length [op, outcome] = length (mt_Labels lookupDuration)" and 2: "length [op] = length (mt_Labels locator_errorsTotal)"
    by (simp_all add: lookupDuration_def locator_errorsTotal_def)
  from update [OF 1, of r] obtain r1 where r1: "Update_p lib lookupDuration [op, outcome] r = Some r1"
    "val r1 = (val r)((mt_Name lookupDuration, [op, outcome]) := val r (mt_Name lookupDuration, [op, outcome]) + 1)" by blast
  from update [OF 2, of r1] obtain r2 where r2: "Update_p lib locator_errorsTotal [op] r1 = Some r2"
    "val r2 = (val r1)((mt_Name locator_errorsTotal, [op]) := val r1 (mt_Name locator_errorsTotal, [op]) + 1)" by blast
  show "val r' (mt_Name lookupDuration, [op, outcome]) = val r (mt_Name lookupDuration, [op, outcome]) + 1"
    "val r' (mt_Name locator_errorsTotal, [op]) = val r (mt_Name locator_errorsTotal, [op]) + (if outcome = ''error'' then 1 else 0)"
    using assms r1 r2 by (auto simp: locator_observe_def split: if_splits)
qed

end

end
