(* ===== verification/Gateway_Shutdown.thy ===== *)
theory Gateway_Shutdown
  imports Race_Hub
begin

text \<open>
  The end of a gateway process (\<^verbatim>\<open>cmd/ws-gateway/run.go\<close>): the signal, the readiness gate
  (\<^verbatim>\<open>healthz.go\<close>), the pause, \<^verbatim>\<open>hubs.Shutdown\<close> and the shutdown of the HTTP server, while
  the hubs and the connections go on. \<^verbatim>\<open>http.Server.Shutdown\<close> closes the listener and waits for
  the requests that are being served, but, as net/http documents, neither closes nor waits for a
  connection that has been hijacked, which is what \<^verbatim>\<open>websocket.Accept\<close> does.
\<close>

section \<open>The process\<close>

definition connFlushWindow :: duration where
  "connFlushWindow = 500 * millisecond"

definition gateway_shutdownTimeout :: duration where
  "gateway_shutdownTimeout = 25 * second"

text \<open>\<open>GwDisconnecting\<close>: the hubs that \<^verbatim>\<open>hubs.Shutdown\<close> has copied and not yet asked.
  \<open>GwReturned True\<close>: the HTTP server was down before its deadline.\<close>

datatype gateway_phase = GwServing | GwFlushing time | GwDisconnecting "nat list" | GwDraining time | GwReturned bool

text \<open>\<open>gr_requests\<close>: the requests whose handlers run over a connection of the server;
  \<open>gr_upgraded\<close>: those whose connection has been hijacked and that have not come to
  \<^verbatim>\<open>serveConn\<close> yet.\<close>

record 'p gateway_run =
  gr_phase :: gateway_phase
  gr_shuttingDown :: bool
  gr_now :: time
  gr_requests :: nat
  gr_upgraded :: nat
  gr_hubs :: "'p hub_sys"

definition MarkShuttingDown :: "'p gateway_run \<Rightarrow> 'p gateway_run" where
  "MarkShuttingDown g = g\<lparr>gr_shuttingDown := True\<rparr>"

definition ShuttingDown :: "'p gateway_run \<Rightarrow> bool" where
  "ShuttingDown g = gr_shuttingDown g"

definition new_gateway :: "time \<Rightarrow> 'p gateway_run" where
  "new_gateway now = \<lparr>gr_phase = GwServing, gr_shuttingDown = False, gr_now = now, gr_requests = 0, gr_upgraded = 0,
     gr_hubs = NewRaceHubRegistry\<rparr>"

definition returned :: "gateway_phase \<Rightarrow> bool" where
  "returned p = (case p of GwReturned _ \<Rightarrow> True | _ \<Rightarrow> False)"

text \<open>The listener is open until \<^verbatim>\<open>httpSrv.Shutdown\<close>.\<close>

definition listening :: "gateway_phase \<Rightarrow> bool" where
  "listening p = (case p of GwDraining _ \<Rightarrow> False | GwReturned _ \<Rightarrow> False | _ \<Rightarrow> True)"

text \<open>The part of \<^verbatim>\<open>RaceHubRegistry.Shutdown\<close> under the mutex.\<close>

definition copied_hubs :: "'p hub_sys \<Rightarrow> nat list" where
  "copied_hubs s = map (fst \<circ> snd) (hs_hubs s)"

lemma Shutdown_copied: "Shutdown s = fold disconnectAll (copied_hubs s) s"
proof -
  have "fold (\<lambda>(_, (h, _)). disconnectAll h) tbl s = fold disconnectAll (map (fst \<circ> snd) tbl) s"
    for tbl :: "(race_id \<times> nat \<times> int) list" and s :: "'p hub_sys"
    by (induction tbl arbitrary: s) auto
  then show ?thesis by (simp add: Shutdown_def copied_hubs_def)
qed

text \<open>First what goes on beside \<^verbatim>\<open>Run\<close>, then \<^verbatim>\<open>Run\<close> itself from the signal on.\<close>

inductive gateway_step :: "'p gateway_run \<Rightarrow> 'p gateway_run \<Rightarrow> bool" where
  time: "\<not> returned (gr_phase g) \<Longrightarrow> 0 \<le> dt \<Longrightarrow> gateway_step g (g\<lparr>gr_now := gr_now g + dt\<rparr>)"
| request: "listening (gr_phase g) \<Longrightarrow> gateway_step g (g\<lparr>gr_requests := Suc (gr_requests g)\<rparr>)"
| reply: "\<not> returned (gr_phase g) \<Longrightarrow> gr_requests g = Suc n \<Longrightarrow> gateway_step g (g\<lparr>gr_requests := n\<rparr>)"
| upgrade: "\<not> returned (gr_phase g) \<Longrightarrow> gr_requests g = Suc n \<Longrightarrow>
    gateway_step g (g\<lparr>gr_requests := n, gr_upgraded := Suc (gr_upgraded g)\<rparr>)"
| serve: "\<not> returned (gr_phase g) \<Longrightarrow> gr_upgraded g = Suc n \<Longrightarrow>
    gateway_step g (g\<lparr>gr_upgraded := n, gr_hubs := serveConn_attach sub i (gr_hubs g)\<rparr>)"
| fan: "\<not> returned (gr_phase g) \<Longrightarrow> fan_step (gr_hubs g) s \<Longrightarrow> gateway_step g (g\<lparr>gr_hubs := s\<rparr>)"
| signal: "gr_phase g = GwServing \<Longrightarrow>
    gateway_step g ((MarkShuttingDown g)\<lparr>gr_phase := GwFlushing (gr_now g + connFlushWindow)\<rparr>)"
| copy: "gr_phase g = GwFlushing due \<Longrightarrow> due \<le> gr_now g \<Longrightarrow>
    gateway_step g (g\<lparr>gr_phase := GwDisconnecting (copied_hubs (gr_hubs g))\<rparr>)"
| disconnect: "gr_phase g = GwDisconnecting (h # hs) \<Longrightarrow>
    gateway_step g (g\<lparr>gr_phase := GwDisconnecting hs, gr_hubs := disconnectAll h (gr_hubs g)\<rparr>)"
| shutdown: "gr_phase g = GwDisconnecting [] \<Longrightarrow>
    gateway_step g (g\<lparr>gr_phase := GwDraining (gr_now g + gateway_shutdownTimeout)\<rparr>)"
| drained: "gr_phase g = GwDraining dl \<Longrightarrow> gr_requests g = 0 \<Longrightarrow> gateway_step g (g\<lparr>gr_phase := GwReturned True\<rparr>)"
| late: "gr_phase g = GwDraining dl \<Longrightarrow> dl \<le> gr_now g \<Longrightarrow> gateway_step g (g\<lparr>gr_phase := GwReturned False\<rparr>)"

inductive reachable_gateway :: "'p gateway_run \<Rightarrow> bool" where
  start: "reachable_gateway (new_gateway now)"
| step: "reachable_gateway g \<Longrightarrow> gateway_step g g' \<Longrightarrow> reachable_gateway g'"

section \<open>What a connection has been told\<close>

text \<open>A connection that is on its way out: its context is cancelled, its hub has closed, or it has
  left.\<close>

definition told :: "'p hub_sys \<Rightarrow> nat \<Rightarrow> bool" where
  "told s c \<longleftrightarrow> cn_cancelled (hs_conn s c) \<or> rh_phase (hs_hub s (cn_hub (hs_conn s c))) \<noteq> HubRunning
     \<or> cn_phase (hs_conn s c) \<in> {ConnUnregistered, ConnDetached}"

definition in_hub :: "'p hub_sys \<Rightarrow> nat \<Rightarrow> nat \<Rightarrow> bool" where
  "in_hub s h c \<longleftrightarrow> c < hs_next_conn s \<and> cn_hub (hs_conn s c) = h \<and> c \<in> set (rh_conns (hs_hub s h))"

text \<open>Either told or still in the hands of its hub.\<close>

definition pending :: "nat list \<Rightarrow> 'p hub_sys \<Rightarrow> nat \<Rightarrow> bool" where
  "pending hs s c \<longleftrightarrow> told s c \<or> cn_hub (hs_conn s c) \<in> set hs \<and> c \<in> set (rh_conns (hs_hub s (cn_hub (hs_conn s c))))"

text \<open>What one step leaves of that for a connection.\<close>

definition keeps :: "'p hub_sys \<Rightarrow> 'p hub_sys \<Rightarrow> nat \<Rightarrow> bool" where
  "keeps s s' c \<longleftrightarrow> c < hs_next_conn s' \<and> cn_hub (hs_conn s' c) = cn_hub (hs_conn s c)
     \<and> (told s c \<longrightarrow> told s' c)
     \<and> (c \<in> set (rh_conns (hs_hub s (cn_hub (hs_conn s c)))) \<longrightarrow>
          c \<in> set (rh_conns (hs_hub s' (cn_hub (hs_conn s c)))) \<or> told s' c)"

lemmas keeps_defs = keeps_def told_def

lemma keeps_pending: "keeps s s' c \<Longrightarrow> pending hs s c \<Longrightarrow> pending hs s' c"
  by (auto simp: keeps_def pending_def)

lemma keeps_conn:
  assumes "c < hs_next_conn s" "\<And>x. cn_hub (f x) = cn_hub x" "\<And>x. cn_cancelled x \<Longrightarrow> cn_cancelled (f x)"
    "\<And>x. x = hs_conn s k \<Longrightarrow> cn_phase x \<in> {ConnUnregistered, ConnDetached} \<Longrightarrow> cn_phase (f x) \<in> {ConnUnregistered, ConnDetached}"
  shows "keeps s (upd_conn k f s) c"
  using assms by (auto simp: keeps_defs)

lemma keeps_hub:
  assumes "c < hs_next_conn s" "\<And>hub. rh_phase (f hub) = HubRunning \<Longrightarrow> rh_phase hub = HubRunning" "\<And>hub. rh_conns (f hub) = rh_conns hub"
  shows "keeps s (upd_hub h f s) c"
  using assms by (auto simp: keeps_defs)

lemma keeps_trans: "keeps s1 s2 c \<Longrightarrow> keeps s2 s3 c \<Longrightarrow> keeps s1 s3 c"
  unfolding keeps_def by metis

lemma keeps_detach: "c < hs_next_conn s \<Longrightarrow> keeps s (detach i s) c"
  by (auto simp: detach_def signalStop_def keeps_defs split: option.split)

lemma keeps_receive: "c < hs_next_conn s \<Longrightarrow> keeps s (hub_receive h env (upd_hub h (\<lambda>hub. hub\<lparr>rh_in := envs\<rparr>) s)) c"
  by (auto simp: hub_receive_def keeps_defs fan_out_def offer_def split: outbound_kind.split)

lemma keeps_register: "c < hs_next_conn s \<Longrightarrow> cn_phase (hs_conn s k) = ConnAttached \<Longrightarrow> keeps s (serveConn_register k s) c"
  by (auto simp: serveConn_register_def registerConn_def keeps_defs)

lemma keeps_unregister: "c < hs_next_conn s \<Longrightarrow> keeps s (serveConn_unregister k s) c"
  by (auto simp: serveConn_unregister_def unregisterConn_def keeps_defs)

lemma keeps_disconnect: "c < hs_next_conn s \<Longrightarrow> keeps s (disconnectAll h s) c"
  by (auto simp: disconnectAll_def keeps_defs)

lemma keeps_fan: "fan_step s s' \<Longrightarrow> c < hs_next_conn s \<Longrightarrow> keeps s s' c"
proof (induction rule: fan_step.induct)
  case (onClose h s)
  have "keeps s (hub_onClose h s) c" using onClose.prems by (auto simp: hub_onClose_def keeps_defs)
  moreover have "c < hs_next_conn (hub_onClose h s)" using onClose.prems by (simp add: hub_onClose_def)
  note keeps_hub [OF this, of "\<lambda>hub. hub\<lparr>rh_phase := HubGone\<rparr>" h]
  ultimately show ?case by (auto intro: keeps_trans)
next
  case (conn_detach s k)
  have "c < hs_next_conn (detach (cn_race (hs_conn s k)) s)"
    using conn_detach.prems by (auto simp: detach_def split: option.split)
  from keeps_conn [OF this, of "\<lambda>x. x\<lparr>cn_phase := ConnDetached\<rparr>" k] keeps_detach [OF conn_detach.prems]
  show ?case by (auto simp: serveConn_detach_def intro: keeps_trans)
next
  case (publish s i env hs)
  then show ?case by (auto simp: bus_publish_def keeps_defs)
next
  case (conn_write s k ok)
  show ?case by (rule keeps_conn [OF conn_write.prems]) (auto simp: writeMsg_def split: list.split)
qed (auto simp: keeps_receive keeps_register keeps_unregister writer_sees_closed_def writer_returns_def reader_returns_def
    intro!: keeps_hub keeps_conn)

lemma keeps_attach:
  assumes "sys_ok s" "c < hs_next_conn s"
  shows "keeps s (serveConn_attach sub i s) c"
proof -
  have "cn_hub (hs_conn s c) < hs_next_hub s" using assms by (simp add: sys_ok_def)
  with assms(2) show ?thesis
    by (auto simp: serveConn_attach_def attach_def Let_def keeps_defs split: option.split)
qed

text \<open>What a hub is asked, its connections are told.\<close>

lemma disconnectAll_tells:
  assumes "pending (h # hs) s c"
  shows "pending hs (disconnectAll h s) c"
  using assms by (cases "rh_phase (hs_hub s h)") (auto simp: pending_def told_def disconnectAll_def)

section \<open>A connection that is told can end\<close>

definition can_end :: "'p hub_sys \<Rightarrow> nat \<Rightarrow> bool" where
  "can_end s c \<longleftrightarrow> (\<exists>s'. fan_step\<^sup>*\<^sup>* s s' \<and> cn_phase (hs_conn s' c) = ConnDetached)"

lemma can_end_step: "fan_step s s' \<Longrightarrow> can_end s' c \<Longrightarrow> can_end s c"
  unfolding can_end_def by (meson converse_rtranclp_into_rtranclp)

lemma can_end_unregistered: "cn_phase (hs_conn s c) = ConnUnregistered \<Longrightarrow> can_end s c"
  by (rule can_end_step [OF fan_step.conn_detach]) (auto simp: can_end_def serveConn_detach_def)

lemma can_end_writer_done:
  assumes "cn_phase (hs_conn s c) = ConnServing" "cn_writer (hs_conn s c) = WriterDone"
  shows "can_end s c"
proof -
  have *: "can_end s c" if "cn_phase (hs_conn s c) = ConnServing" "cn_writer (hs_conn s c) = WriterDone" "\<not> cn_reading (hs_conn s c)"
    for s :: "'a hub_sys"
    by (rule can_end_step [OF fan_step.conn_unregister [OF that(1,3,2)]], rule can_end_unregistered)
      (simp add: serveConn_unregister_def)
  show ?thesis
  proof (cases "cn_reading (hs_conn s c)")
    case True
    show ?thesis by (rule can_end_step [OF fan_step.conn_read_ends [OF assms(1) True]], rule *)
        (simp_all add: reader_returns_def assms)
  qed (use * assms in blast)
qed

lemma can_end_draining:
  "cn_phase (hs_conn s c) = ConnServing \<Longrightarrow> cn_writer (hs_conn s c) = WriterDraining \<Longrightarrow> can_end s c"
proof (induction "cn_ch (hs_conn s c)" arbitrary: s)
  case Nil
  show ?case by (rule can_end_step [OF fan_step.conn_drained [OF Nil.prems Nil.hyps [symmetric]]], rule can_end_writer_done)
      (simp_all add: writer_returns_def Nil.prems)
next
  case (Cons m ms)
  have "fan_step s (upd_conn c (writeMsg True) s)" by (rule fan_step.conn_write) (simp_all add: Cons.prems)
  then show ?case by (rule can_end_step, intro Cons.hyps(1))
      (simp_all add: writeMsg_def Cons.hyps(2) [symmetric] Cons.prems)
qed

lemma can_end_serving:
  assumes "told s c" "cn_phase (hs_conn s c) = ConnServing"
  shows "can_end s c"
proof (cases "cn_writer (hs_conn s c)")
  case Writing
  show ?thesis
  proof (cases "cn_cancelled (hs_conn s c)")
    case True
    show ?thesis by (rule can_end_step [OF fan_step.conn_ctx_done [OF assms(2) Writing True]], rule can_end_writer_done)
        (simp_all add: writer_returns_def assms(2))
  next
    case False
    with assms have closed: "rh_phase (hs_hub s (cn_hub (hs_conn s c))) \<noteq> HubRunning" by (simp add: told_def)
    show ?thesis by (rule can_end_step [OF fan_step.conn_closed [OF assms(2) Writing closed]], rule can_end_draining)
        (simp_all add: writer_sees_closed_def assms(2))
  qed
qed (use assms can_end_draining can_end_writer_done in auto)

lemma told_can_end:
  assumes "told s c" "c < hs_next_conn s"
  shows "can_end s c"
proof (cases "cn_phase (hs_conn s c)")
  case ConnAttached
  note reg = fan_step.conn_register [OF assms(2) ConnAttached]
  have "told (serveConn_register c s) c" using keeps_fan [OF reg assms(2)] assms(1) by (simp add: keeps_def)
  then show ?thesis by (intro can_end_step [OF reg] can_end_serving)
      (simp_all add: serveConn_register_def)
next
  case ConnDetached
  then show ?thesis by (auto simp: can_end_def)
qed (use assms can_end_serving can_end_unregistered in auto)

section \<open>The process keeps its connections\<close>

text \<open>The hubs still to be asked, once \<^verbatim>\<open>hubs.Shutdown\<close> has begun.\<close>

definition to_ask :: "gateway_phase \<Rightarrow> nat list option" where
  "to_ask p = (case p of GwServing \<Rightarrow> None | GwFlushing _ \<Rightarrow> None | GwDisconnecting hs \<Rightarrow> Some hs
     | GwDraining _ \<Rightarrow> Some [] | GwReturned _ \<Rightarrow> Some [])"

lemma gateway_sys_ok_step: "gateway_step g g' \<Longrightarrow> sys_ok (gr_hubs g) \<Longrightarrow> sys_ok (gr_hubs g')"
  by (induction rule: gateway_step.induct)
    (auto simp: sys_ok_fan sys_ok_attach sys_ok_disconnect MarkShuttingDown_def)

lemma gateway_sys_ok: "reachable_gateway g \<Longrightarrow> sys_ok (gr_hubs g)"
proof (induction rule: reachable_gateway.induct)
  case (start now)
  show ?case by (simp add: new_gateway_def sys_ok_def NewRaceHubRegistry_def)
qed (rule gateway_sys_ok_step)

lemma pending_step:
  assumes "gateway_step g g'" "sys_ok (gr_hubs g)" "c < hs_next_conn (gr_hubs g)" "to_ask (gr_phase g) = Some hs" "pending hs (gr_hubs g) c"
  shows "c < hs_next_conn (gr_hubs g') \<and> (\<exists>hs'. to_ask (gr_phase g') = Some hs' \<and> pending hs' (gr_hubs g') c)"
  using assms
proof (induction rule: gateway_step.induct)
  case (serve g n sub i)
  from keeps_attach [OF serve.prems(1,2), of sub i] serve.prems(3,4) keeps_pending show ?case
    by (auto simp: keeps_def)
next
  case (fan g s)
  from keeps_fan [OF fan.hyps(2) fan.prems(2)] fan.prems(3,4) keeps_pending show ?case
    by (auto simp: keeps_def)
next
  case (disconnect g h hs)
  with keeps_disconnect [OF disconnect.prems(2), of h] show ?case
    by (auto simp: to_ask_def keeps_def intro: disconnectAll_tells)
qed (auto simp: to_ask_def)

lemma pending_run:
  assumes "gateway_step\<^sup>*\<^sup>* g g'" "sys_ok (gr_hubs g)" "c < hs_next_conn (gr_hubs g)" "to_ask (gr_phase g) = Some hs" "pending hs (gr_hubs g) c"
  shows "c < hs_next_conn (gr_hubs g') \<and> (\<exists>hs'. to_ask (gr_phase g') = Some hs' \<and> pending hs' (gr_hubs g') c)"
  using assms
proof (induction arbitrary: hs rule: converse_rtranclp_induct)
  case (step g g1)
  from pending_step [OF step.hyps(1) step.prems] gateway_sys_ok_step [OF step.hyps(1) step.prems(1)] step.IH
  show ?case by blast
qed auto

lemma gate_iff: "reachable_gateway g \<Longrightarrow> ShuttingDown g \<longleftrightarrow> gr_phase g \<noteq> GwServing"
proof (induction rule: reachable_gateway.induct)
  case (step g g')
  from step.hyps(2) step.IH show ?case
    by (induction rule: gateway_step.induct) (auto simp: ShuttingDown_def MarkShuttingDown_def)
qed (simp add: new_gateway_def ShuttingDown_def)

text \<open>A request that is being served when the server is down would have kept it.\<close>

lemma clean_return: "reachable_gateway g \<Longrightarrow> gr_phase g = GwReturned True \<Longrightarrow> gr_requests g = 0"
proof (induction rule: reachable_gateway.induct)
  case (step g g')
  from step.hyps(2) step.IH step.prems show ?case
    by (induction rule: gateway_step.induct) (auto simp: returned_def listening_def MarkShuttingDown_def)
qed (simp add: new_gateway_def)

text \<open>The pause: no hub is asked before it is over.\<close>

definition paused :: "time \<Rightarrow> 'p gateway_run \<Rightarrow> bool" where
  "paused due g \<longleftrightarrow> gr_phase g = GwFlushing due \<or> gr_phase g \<noteq> GwServing \<and> (\<forall>d. gr_phase g \<noteq> GwFlushing d) \<and> due \<le> gr_now g"

lemma paused_run: "gateway_step\<^sup>*\<^sup>* g g' \<Longrightarrow> paused due g \<Longrightarrow> paused due g'"
proof (induction rule: rtranclp_induct)
  case (step g1 g2)
  then have "paused due g1" by blast
  with step.hyps(2) show ?case
    by (induction rule: gateway_step.induct) (auto simp: paused_def)
qed

lemma can_return_from:
  assumes "to_ask (gr_phase g) = Some hs" 
  shows "\<exists>g1 b. gateway_step\<^sup>*\<^sup>* g g1 \<and> gr_phase g1 = GwReturned b"
proof -
  have drain: "\<exists>g1 b. gateway_step\<^sup>*\<^sup>* g g1 \<and> gr_phase g1 = GwReturned b" if "gr_phase g = GwDraining dl" for g :: "'a gateway_run" and dl
  proof -
    let ?t = "g\<lparr>gr_now := gr_now g + max 0 (dl - gr_now g)\<rparr>"
    have "gateway_step g ?t" by (rule gateway_step.time) (simp_all add: that returned_def max_def)
    moreover have "gateway_step ?t (?t\<lparr>gr_phase := GwReturned False\<rparr>)" by (rule gateway_step.late [where dl = dl]) (auto simp: that max_def)
    ultimately have "gateway_step\<^sup>*\<^sup>* g (?t\<lparr>gr_phase := GwReturned False\<rparr>)" by (meson r_into_rtranclp rtranclp.rtrancl_into_rtrancl)
    then show ?thesis by (intro exI conjI) auto
  qed
  have ask: "\<exists>g1 b. gateway_step\<^sup>*\<^sup>* g g1 \<and> gr_phase g1 = GwReturned b" if "gr_phase g = GwDisconnecting hs" for g :: "'a gateway_run" and hs
    using that
  proof (induction hs arbitrary: g)
    case Nil
    obtain g1 b where "gateway_step\<^sup>*\<^sup>* (g\<lparr>gr_phase := GwDraining (gr_now g + gateway_shutdownTimeout)\<rparr>) g1" "gr_phase g1 = GwReturned b"
      using drain [of "g\<lparr>gr_phase := GwDraining (gr_now g + gateway_shutdownTimeout)\<rparr>"] by auto
    with gateway_step.shutdown [OF Nil.prems] show ?case by (meson converse_rtranclp_into_rtranclp)
  next
    case (Cons h hs)
    let ?g = "g\<lparr>gr_phase := GwDisconnecting hs, gr_hubs := disconnectAll h (gr_hubs g)\<rparr>"
    obtain g1 b where "gateway_step\<^sup>*\<^sup>* ?g g1" "gr_phase g1 = GwReturned b" using Cons.IH [of ?g] by auto
    with gateway_step.disconnect [OF Cons.prems] show ?case by (meson converse_rtranclp_into_rtranclp)
  qed
  from assms show ?thesis
    by (cases "gr_phase g") (use ask drain in \<open>auto simp: to_ask_def intro: exI [of _ g]\<close>)
qed

lemma can_return:
  assumes "gr_phase g \<noteq> GwServing"
  shows "\<exists>g1 b. gateway_step\<^sup>*\<^sup>* g g1 \<and> gr_phase g1 = GwReturned b"
proof (cases "gr_phase g")
  case (GwFlushing due)
  let ?t = "g\<lparr>gr_now := gr_now g + max 0 (due - gr_now g)\<rparr>"
  have t: "gateway_step g ?t" by (rule gateway_step.time) (simp_all add: GwFlushing returned_def max_def)
  have c: "gateway_step ?t (?t\<lparr>gr_phase := GwDisconnecting (copied_hubs (gr_hubs ?t))\<rparr>)"
    by (rule gateway_step.copy [where due = due]) (auto simp: GwFlushing max_def)
  obtain g1 b where "gateway_step\<^sup>*\<^sup>* (?t\<lparr>gr_phase := GwDisconnecting (copied_hubs (gr_hubs ?t))\<rparr>) g1" "gr_phase g1 = GwReturned b"
    using can_return_from [of "?t\<lparr>gr_phase := GwDisconnecting (copied_hubs (gr_hubs ?t))\<rparr>"] by (auto simp: to_ask_def)
  with t c show ?thesis by (meson converse_rtranclp_into_rtranclp)
qed (use assms can_return_from [of g] in \<open>simp_all add: to_ask_def\<close>)

section \<open>Properties\<close>

text \<open>C36: A gateway that shuts down tells its connections. The probes see it unready exactly from the
  signal on; no connection is disconnected before the pause of 500 ms is over; after the listener is
  closed no new request comes, and a return before the deadline leaves no request unanswered; and
  from the signal on the process can always go on to its return. Every connection that is registered
  with a hub of the registry when \<^verbatim>\<open>hubs.Shutdown\<close> begins has been told to end - its context is
  cancelled, its hub has closed or it has left already - when \<^verbatim>\<open>httpSrv.Shutdown\<close> begins,
  whatever the hubs, the bus and the other connections do meanwhile, and it can end by steps of
  its own.\<close>

theorem gateway_shutdown_tells:
  assumes "reachable_gateway g"
  shows "(ShuttingDown g \<longleftrightarrow> gr_phase g \<noteq> GwServing)
    \<and> (\<forall>g1 g2. gr_phase g = GwServing \<and> gateway_step g g1 \<and> gr_phase g1 \<noteq> GwServing \<and> gateway_step\<^sup>*\<^sup>* g1 g2
          \<and> to_ask (gr_phase g2) \<noteq> None \<longrightarrow> gr_now g + 500 * millisecond \<le> gr_now g2)
    \<and> (\<forall>g1. \<not> listening (gr_phase g) \<and> gateway_step g g1 \<longrightarrow> gr_requests g1 \<le> gr_requests g)
    \<and> (gr_phase g = GwReturned True \<longrightarrow> gr_requests g = 0)
    \<and> (ShuttingDown g \<longrightarrow> (\<exists>g1 b. gateway_step\<^sup>*\<^sup>* g g1 \<and> gr_phase g1 = GwReturned b))
    \<and> (\<forall>g0 g1 h c. to_ask (gr_phase g) = None \<and> gateway_step g g0 \<and> to_ask (gr_phase g0) \<noteq> None \<and> gateway_step\<^sup>*\<^sup>* g0 g1
          \<and> h \<in> set (copied_hubs (gr_hubs g)) \<and> in_hub (gr_hubs g) h c \<and> to_ask (gr_phase g1) = Some []
        \<longrightarrow> told (gr_hubs g1) c \<and> can_end (gr_hubs g1) c)"
proof (intro conjI allI impI)
  fix g1 g2 assume a: "gr_phase g = GwServing \<and> gateway_step g g1 \<and> gr_phase g1 \<noteq> GwServing \<and> gateway_step\<^sup>*\<^sup>* g1 g2
    \<and> to_ask (gr_phase g2) \<noteq> None"
  then have "gateway_step g g1" by blast
  then have "paused (gr_now g + connFlushWindow) g1"
    using a by (induction rule: gateway_step.induct) (auto simp: paused_def)
  with a have "paused (gr_now g + connFlushWindow) g2" by (intro paused_run [of g1 g2]) auto
  with a show "gr_now g + 500 * millisecond \<le> gr_now g2"
    by (cases "gr_phase g2") (auto simp: paused_def connFlushWindow_def to_ask_def)
next
  fix g1 assume a: "\<not> listening (gr_phase g) \<and> gateway_step g g1"
  then have "gateway_step g g1" by blast
  then show "gr_requests g1 \<le> gr_requests g"
    using a by (induction rule: gateway_step.induct) (auto simp: MarkShuttingDown_def)
next
  fix g0 g1 h c
  assume a: "to_ask (gr_phase g) = None \<and> gateway_step g g0 \<and> to_ask (gr_phase g0) \<noteq> None \<and> gateway_step\<^sup>*\<^sup>* g0 g1
    \<and> h \<in> set (copied_hubs (gr_hubs g)) \<and> in_hub (gr_hubs g) h c \<and> to_ask (gr_phase g1) = Some []"
  then have "gateway_step g g0" and run: "gateway_step\<^sup>*\<^sup>* g0 g1" and last: "to_ask (gr_phase g1) = Some []" by blast+
  then have "to_ask (gr_phase g0) = Some (copied_hubs (gr_hubs g)) \<and> gr_hubs g0 = gr_hubs g"
    using a by (induction rule: gateway_step.induct) (auto simp: to_ask_def MarkShuttingDown_def)
  moreover have "pending (copied_hubs (gr_hubs g)) (gr_hubs g) c" "c < hs_next_conn (gr_hubs g)"
    using a by (auto simp: pending_def in_hub_def)
  ultimately have "told (gr_hubs g1) c" "c < hs_next_conn (gr_hubs g1)"
    using pending_run [OF run, of c "copied_hubs (gr_hubs g)"] gateway_sys_ok [OF assms] last by (auto simp: pending_def)
  with told_can_end show "told (gr_hubs g1) c" "can_end (gr_hubs g1) c" by blast+
qed (use gate_iff [OF assms] clean_return [OF assms] can_return in auto)

text \<open>A gateway with one connection of race r1: attached, and from there on in the shutdown.\<close>

definition demo_hubs :: "nat hub_sys" where
  "demo_hubs = serveConn_attach None ''r1'' NewRaceHubRegistry"

definition demo_gateway :: "gateway_phase \<Rightarrow> nat hub_sys \<Rightarrow> nat gateway_run" where
  "demo_gateway p s = \<lparr>gr_phase = p, gr_shuttingDown = True, gr_now = connFlushWindow, gr_requests = 0, gr_upgraded = 0, gr_hubs = s\<rparr>"

lemma demo_gateway_flushing: "reachable_gateway (demo_gateway (GwFlushing connFlushWindow) demo_hubs)"
proof -
  let ?g0 = "new_gateway 0 :: nat gateway_run"
  let ?g1 = "?g0\<lparr>gr_requests := 1\<rparr>"
  let ?g2 = "?g0\<lparr>gr_upgraded := 1\<rparr>"
  let ?g3 = "?g0\<lparr>gr_hubs := demo_hubs\<rparr>"
  let ?g4 = "?g3\<lparr>gr_shuttingDown := True, gr_phase := GwFlushing connFlushWindow\<rparr>"
  note simps = new_gateway_def returned_def listening_def demo_hubs_def MarkShuttingDown_def demo_gateway_def connFlushWindow_def
  have "gateway_step ?g0 ?g1" using gateway_step.request [of ?g0] by (simp add: simps)
  moreover have "gateway_step ?g1 ?g2" using gateway_step.upgrade [of ?g1 0] by (simp add: simps)
  moreover have "gateway_step ?g2 ?g3" using gateway_step.serve [of ?g2 0 None "''r1''"] by (simp add: simps)
  moreover have "gateway_step ?g3 ?g4" using gateway_step.signal [of ?g3] by (simp add: simps)
  moreover have "gateway_step ?g4 (demo_gateway (GwFlushing connFlushWindow) demo_hubs)"
    using gateway_step.time [of ?g4 connFlushWindow] by (simp add: simps)
  ultimately show ?thesis by (meson reachable_gateway.intros)
qed

lemma demo_hubs_simps:
  "hs_next_conn demo_hubs = 1" "cn_phase (hs_conn demo_hubs 0) = ConnAttached" "cn_reading (hs_conn demo_hubs 0)"
  "\<not> cn_cancelled (hs_conn demo_hubs 0)" "cn_hub (hs_conn demo_hubs 0) = 0" "rh_phase (hs_hub demo_hubs 0) = HubRunning"
  "rh_conns (hs_hub demo_hubs 0) = []" "copied_hubs demo_hubs = [0]"
  by (simp_all add: demo_hubs_def serveConn_attach_def attach_def NewRaceHubRegistry_def newRaceHub_def new_conn_def Let_def copied_hubs_def)

lemma demo_register: "fan_step demo_hubs (serveConn_register 0 demo_hubs)"
  by (rule fan_step.conn_register) (simp_all add: demo_hubs_simps)

lemma demo_shutdown:
  assumes "copied_hubs s = [0]"
  shows "gateway_step (demo_gateway (GwFlushing connFlushWindow) s) (demo_gateway (GwDisconnecting [0]) s)"
    "gateway_step (demo_gateway (GwDisconnecting [0]) s) (demo_gateway (GwDisconnecting []) (disconnectAll 0 s))"
    "gateway_step (demo_gateway (GwDisconnecting []) s) (demo_gateway (GwDraining (connFlushWindow + gateway_shutdownTimeout)) s)"
    "gateway_step (demo_gateway (GwDraining dl) s) (demo_gateway (GwReturned True) s)"
  using assms gateway_step.copy [of "demo_gateway (GwFlushing connFlushWindow) s" connFlushWindow]
    gateway_step.disconnect [of "demo_gateway (GwDisconnecting [0]) s" 0 "[]"]
    gateway_step.shutdown [of "demo_gateway (GwDisconnecting []) s"]
    gateway_step.drained [of "demo_gateway (GwDraining dl) s" dl]
  by (simp_all add: demo_gateway_def)

lemma demo_gateway_fan:
  "\<not> returned p \<Longrightarrow> fan_step s s' \<Longrightarrow> gateway_step (demo_gateway p s) (demo_gateway p s')"
  using gateway_step.fan [of "demo_gateway p s" s'] by (simp add: demo_gateway_def)

lemma demo_gateway_registered:
  "reachable_gateway (demo_gateway (GwFlushing connFlushWindow) (serveConn_register 0 demo_hubs))"
  by (rule reachable_gateway.step [OF demo_gateway_flushing demo_gateway_fan [OF _ demo_register]]) (simp add: returned_def)

theorem gateway_shutdown_tells_witness:
  "told (disconnectAll 0 (serveConn_register 0 demo_hubs)) 0 \<and> can_end (disconnectAll 0 (serveConn_register 0 demo_hubs)) 0"
proof -
  let ?s = "serveConn_register 0 demo_hubs"
  have c: "copied_hubs ?s = [0]"
    using demo_hubs_simps by (simp add: copied_hubs_def serveConn_register_def registerConn_def)
  have reg: "in_hub ?s 0 0"
    using demo_hubs_simps by (simp add: in_hub_def serveConn_register_def registerConn_def)
  let ?g = "demo_gateway (GwFlushing connFlushWindow) ?s" and ?g0 = "demo_gateway (GwDisconnecting [0]) ?s"
    and ?g1 = "demo_gateway (GwDisconnecting []) (disconnectAll 0 ?s)"
  have "gateway_step\<^sup>*\<^sup>* ?g0 ?g1" using demo_shutdown(2) [OF c] by blast
  with demo_shutdown(1) [OF c] gateway_shutdown_tells [OF demo_gateway_registered] c reg show ?thesis
    by (fastforce simp: demo_gateway_def to_ask_def)
qed

section \<open>Connections the return does not wait for\<close>

text \<open>\<^verbatim>\<open>Run\<close> returns, with the shutdown complete, over a connection that has been told and
  whose reader has not yet published its departure: no request is left to wait for, the connection
  having been hijacked.\<close>

lemma returns_over_open_connections:
  "\<exists>g :: nat gateway_run. reachable_gateway g \<and> gr_phase g = GwReturned True
     \<and> cn_phase (hs_conn (gr_hubs g) 0) = ConnServing \<and> cn_reading (hs_conn (gr_hubs g) 0) \<and> told (gr_hubs g) 0"
proof -
  let ?s = "serveConn_register 0 demo_hubs"
  have c: "copied_hubs ?s = [0]" "copied_hubs (disconnectAll 0 ?s) = [0]"
    using demo_hubs_simps by (simp_all add: copied_hubs_def serveConn_register_def registerConn_def disconnectAll_def)
  note run = demo_shutdown(1,2) [OF c(1)] demo_shutdown(3,4) [OF c(2)]
  have "reachable_gateway (demo_gateway (GwReturned True) (disconnectAll 0 ?s))"
    using demo_gateway_registered run by (meson reachable_gateway.step)
  moreover have "cn_phase (hs_conn (disconnectAll 0 ?s) 0) = ConnServing" "cn_reading (hs_conn (disconnectAll 0 ?s) 0)"
      "told (disconnectAll 0 ?s) 0"
    by (simp_all add: told_def disconnectAll_def serveConn_register_def registerConn_def demo_hubs_simps)
  ultimately show ?thesis by (intro exI conjI) (assumption, simp_all add: demo_gateway_def)
qed

text \<open>A connection between \<^verbatim>\<open>attach\<close> and \<^verbatim>\<open>registerConn\<close> while its hub is asked is not
  told at all.\<close>

lemma late_connection_missed:
  "\<exists>g :: nat gateway_run. reachable_gateway g \<and> gr_phase g = GwReturned True
     \<and> cn_phase (hs_conn (gr_hubs g) 0) = ConnServing \<and> \<not> told (gr_hubs g) 0"
proof -
  have same: "disconnectAll 0 demo_hubs = demo_hubs" by (simp add: disconnectAll_def demo_hubs_simps)
  let ?s = "serveConn_register 0 demo_hubs"
  have c: "copied_hubs ?s = [0]"
    using demo_hubs_simps by (simp add: copied_hubs_def serveConn_register_def registerConn_def)
  have reg: "gateway_step (demo_gateway (GwDisconnecting []) demo_hubs) (demo_gateway (GwDisconnecting []) ?s)"
    by (rule demo_gateway_fan [OF _ demo_register]) (simp add: returned_def)
  have "reachable_gateway (demo_gateway (GwReturned True) ?s)"
    using demo_gateway_flushing demo_shutdown(1,2) [OF demo_hubs_simps(8), unfolded same] reg demo_shutdown(3,4) [OF c]
    by (meson reachable_gateway.step)
  moreover have "cn_phase (hs_conn ?s 0) = ConnServing" "\<not> told ?s 0"
    by (simp_all add: told_def serveConn_register_def registerConn_def demo_hubs_simps)
  ultimately show ?thesis by (intro exI conjI) (assumption, simp_all add: demo_gateway_def)
qed

end
