(* ===== verification/Binaries.thy ===== *)
theory Binaries
  imports Metrics_Registry Discovery Gateway_Shutdown
begin

text \<open>
  The four binaries from their start to their return (\<^verbatim>\<open>cmd/*/run.go\<close>): what they open
  (\<^verbatim>\<open>internal/tracing\<close>, \<^verbatim>\<open>internal/db\<close>, \<^verbatim>\<open>internal/redisclient\<close>, the Kafka writer
  and NATS), the metrics they register on the way, the end of their serving and the deferred calls.
  \<^verbatim>\<open>log.Fatalf\<close> ends a process at once, without its deferred calls; a panic runs them. The outcome
  of each library call is a field of \<open>services\<close>.
\<close>

section \<open>Processes\<close>

datatype resource = SpanExporter | PgPool | SqlDB | RedisClient | KafkaWriter | NatsConn | SignalContext | MetricsServer | ShutdownTimer

datatype action = Acquire resource | Release resource | StartServing | SignalReceived | MarkUnready | Sleep duration
  | HubsShutdown | HttpServerShutdown | WaitForRooms | ConsumerRun

datatype stop = Fatal string | Panics

record 'r process =
  ps_registry :: 'r
  ps_deferred :: "resource list"
  ps_log :: "action list"

type_synonym 'r stage = "'r process \<Rightarrow> stop option \<times> 'r process"

fun run_stages :: "'r stage list \<Rightarrow> 'r stage" where
  "run_stages [] p = (None, p)"
| "run_stages (f # fs) p = (case f p of (None, p1) \<Rightarrow> run_stages fs p1 | (Some e, p1) \<Rightarrow> (Some e, p1))"

definition run_deferred :: "'r process \<Rightarrow> 'r process" where
  "run_deferred p = p\<lparr>ps_log := ps_log p @ map Release (ps_deferred p), ps_deferred := []\<rparr>"

definition run_process :: "'r prometheus \<Rightarrow> 'r stage list \<Rightarrow> stop option \<times> 'r process" where
  "run_process lib fs =
     (case run_stages fs \<lparr>ps_registry = NewRegistry_p lib, ps_deferred = [], ps_log = []\<rparr> of
        (Some (Fatal m), p) \<Rightarrow> (Some (Fatal m), p)
      | (e, p) \<Rightarrow> (e, run_deferred p))"

text \<open>The kinds of stages: a call whose error is fatal, one whose result is closed by a deferred call,
  the registration of metrics, and what cannot fail.\<close>

definition calls :: "string \<Rightarrow> action list \<times> go_error option \<Rightarrow> 'r stage" where
  "calls name = (\<lambda>(acts, err) p. (case err of None \<Rightarrow> None | Some _ \<Rightarrow> Some (Fatal name), p\<lparr>ps_log := ps_log p @ acts\<rparr>))"

definition opens :: "resource \<Rightarrow> string \<Rightarrow> action list \<times> go_error option \<Rightarrow> 'r stage" where
  "opens res name r p = (case calls name r p of
       (None, p1) \<Rightarrow> (None, p1\<lparr>ps_deferred := res # ps_deferred p1\<rparr>)
     | (Some e, p1) \<Rightarrow> (Some e, p1))"

definition creates :: "'r option \<Rightarrow> 'r stage" where
  "creates reg p = (case reg of None \<Rightarrow> (Some Panics, p) | Some r \<Rightarrow> (None, p\<lparr>ps_registry := r\<rparr>))"

definition registers :: "('r \<Rightarrow> 'r option) \<Rightarrow> 'r stage" where
  "registers f p = creates (f (ps_registry p)) p"

definition does :: "action list \<Rightarrow> 'r stage" where
  "does acts p = (None, p\<lparr>ps_log := ps_log p @ acts\<rparr>)"

section \<open>What the binaries open\<close>

datatype up_result = UpApplied | UpNoChange | UpFailed

record services =
  sv_exporter :: bool
  sv_resource :: bool
  sv_pgParse :: bool
  sv_pgCreate :: bool
  sv_pgPing :: bool
  sv_sqlOpen :: bool
  sv_migrateDriver :: bool
  sv_migrateInit :: bool
  sv_migrateUp :: up_result
  sv_redisParse :: bool
  sv_redisPing :: bool
  sv_nats :: bool
  sv_discovery :: "go_error + backend_discovery"
  sv_listen :: bool

definition tracing_Init :: "services \<Rightarrow> action list \<times> go_error option" where
  "tracing_Init sv =
     (if \<not> sv_exporter sv then ([], Some (ErrOther ''tracing: create otlp exporter''))
      else if \<not> sv_resource sv then ([Acquire SpanExporter], Some (ErrOther ''tracing: build resource''))
      else ([Acquire SpanExporter], None))"

definition NewPool :: "services \<Rightarrow> action list \<times> go_error option" where
  "NewPool sv =
     (if \<not> sv_pgParse sv then ([], Some (ErrOther ''db: parse config''))
      else if \<not> sv_pgCreate sv then ([], Some (ErrOther ''db: create pool''))
      else if \<not> sv_pgPing sv then ([Acquire PgPool, Release PgPool], Some (ErrOther ''db: ping''))
      else ([Acquire PgPool], None))"

definition Migrate :: "services \<Rightarrow> action list \<times> go_error option" where
  "Migrate sv =
     (if \<not> sv_sqlOpen sv then ([], Some (ErrOther ''migrate: open''))
      else
        ([Acquire SqlDB, Release SqlDB],
         if \<not> sv_migrateDriver sv then Some (ErrOther ''migrate: driver'')
         else if \<not> sv_migrateInit sv then Some (ErrOther ''migrate: init'')
         else (case sv_migrateUp sv of UpFailed \<Rightarrow> Some (ErrOther ''migrate: up'') | _ \<Rightarrow> None)))"

definition NewClient :: "services \<Rightarrow> action list \<times> go_error option" where
  "NewClient sv =
     (if \<not> sv_redisParse sv then ([], Some (ErrOther ''redisclient: parse url''))
      else if \<not> sv_redisPing sv then ([Acquire RedisClient, Release RedisClient], Some (ErrOther ''redisclient: ping''))
      else ([Acquire RedisClient], None))"

definition nats_Connect :: "services \<Rightarrow> action list \<times> go_error option" where
  "nats_Connect sv = (if sv_nats sv then ([Acquire NatsConn], None) else ([], Some (ErrOther ''nats'')))"

text \<open>A server that cannot listen ends the process from its goroutine; otherwise it serves until the signal.\<close>

definition serve_until_signal :: "services \<Rightarrow> action list \<times> go_error option" where
  "serve_until_signal sv = (if sv_listen sv then ([StartServing, SignalReceived], None) else ([], Some (ErrOther ''listen'')))"

abbreviation opened :: "resource \<Rightarrow> action list \<times> go_error option" where
  "opened res \<equiv> ([Acquire res], None)"

section \<open>The binaries\<close>

definition server_main :: "'r prometheus \<Rightarrow> services \<Rightarrow> 'r stage list" where
  "server_main lib sv =
     [opens SpanExporter ''tracing'' (tracing_Init sv),
      opens PgPool ''db'' (NewPool sv),
      calls ''migrate'' (Migrate sv),
      creates (NewMetrics lib),
      registers (RegisterPgPoolGauges lib),
      opens RedisClient ''redisclient'' (NewClient sv),
      registers (NewLocator lib),
      opens KafkaWriter ''kafka'' (opened KafkaWriter),
      registers (RegisterNATSReconnectCounter lib),
      opens NatsConn ''nats'' (nats_Connect sv),
      registers (bus_metrics lib),
      registers (RegisterRoomGauges lib),
      opens SignalContext ''signal'' (opened SignalContext),
      calls ''listen'' (serve_until_signal sv),
      does [MarkUnready],
      opens ShutdownTimer ''shutdown'' (opened ShutdownTimer),
      does [HttpServerShutdown, WaitForRooms]]"

definition gateway_main :: "'r prometheus \<Rightarrow> services \<Rightarrow> 'r stage list" where
  "gateway_main lib sv =
     [opens SpanExporter ''tracing'' (tracing_Init sv),
      creates (NewGatewayMetrics lib),
      opens RedisClient ''redisclient'' (NewClient sv),
      registers (NewLocator lib),
      registers (RegisterNATSReconnectCounter lib),
      opens NatsConn ''nats'' (nats_Connect sv),
      registers (bus_metrics lib),
      calls ''backend discovery'' ([], case sv_discovery sv of Inl e \<Rightarrow> Some e | Inr _ \<Rightarrow> None),
      registers (RegisterConnectionGauge lib),
      opens SignalContext ''signal'' (opened SignalContext),
      calls ''listen'' (serve_until_signal sv),
      does [MarkUnready, Sleep connFlushWindow, HubsShutdown],
      opens ShutdownTimer ''shutdown'' (opened ShutdownTimer),
      does [HttpServerShutdown]]"

definition consumer_main :: "'r prometheus \<Rightarrow> services \<Rightarrow> 'r stage list" where
  "consumer_main lib sv =
     [opens SignalContext ''signal'' (opened SignalContext),
      opens SpanExporter ''tracing'' (tracing_Init sv),
      opens PgPool ''db'' (NewPool sv),
      opens KafkaWriter ''kafka'' (opened KafkaWriter),
      creates (NewConsumerMetrics lib),
      registers (RegisterLagGauge lib),
      calls ''consumer metrics listen'' (if sv_listen sv then ([StartServing], None) else ([], Some (ErrOther ''listen''))),
      opens MetricsServer ''metrics'' (opened MetricsServer),
      does [ConsumerRun]]"

definition relay_main :: "'r prometheus \<Rightarrow> services \<Rightarrow> 'r stage list" where
  "relay_main lib sv =
     [opens SignalContext ''signal'' (opened SignalContext),
      creates (NewTelegramRelayMetrics lib),
      calls ''listen'' (serve_until_signal sv),
      opens ShutdownTimer ''shutdown'' (opened ShutdownTimer),
      does [HttpServerShutdown]]"

datatype binary = Server | WsGateway | ConsumerBinary | TelegramRelay

definition binary_Run :: "'r prometheus \<Rightarrow> binary \<Rightarrow> services \<Rightarrow> stop option \<times> 'r process" where
  "binary_Run lib b sv = run_process lib
     (case b of Server \<Rightarrow> server_main lib sv | WsGateway \<Rightarrow> gateway_main lib sv
      | ConsumerBinary \<Rightarrow> consumer_main lib sv | TelegramRelay \<Rightarrow> relay_main lib sv)"

section \<open>What is open\<close>

text \<open>The resources that are open after a log, the last first; \<open>None\<close> when one is closed that is not
  the last one opened.\<close>

fun still_open :: "action list \<Rightarrow> resource list \<Rightarrow> resource list option" where
  "still_open [] rs = Some rs"
| "still_open (Acquire r # as) rs = still_open as (r # rs)"
| "still_open (Release r # as) rs = (case rs of [] \<Rightarrow> None | q # qs \<Rightarrow> if q = r then still_open as qs else None)"
| "still_open (_ # as) rs = still_open as rs"

lemma still_open_append:
  "still_open (as @ bs) rs = (case still_open as rs of None \<Rightarrow> None | Some qs \<Rightarrow> still_open bs qs)"
  by (induction as rs rule: still_open.induct) (auto split: list.split)

lemma still_open_releases: "still_open (map Release rs) rs = Some []"
  by (induction rs) auto

text \<open>A process whose deferred calls are for what is open.\<close>

definition tidy :: "'r process \<Rightarrow> bool" where
  "tidy p \<longleftrightarrow> still_open (ps_log p) [] = Some (ps_deferred p)"

definition keeps_tidy :: "'r stage \<Rightarrow> bool" where
  "keeps_tidy f \<longleftrightarrow> (\<forall>p p'. tidy p \<and> f p = (None, p') \<longrightarrow> tidy p')"

lemma tidy_stages: "list_all keeps_tidy fs \<Longrightarrow> tidy p \<Longrightarrow> run_stages fs p = (None, p') \<Longrightarrow> tidy p'"
proof (induction fs arbitrary: p)
  case (Cons f fs)
  then obtain p1 where "f p = (None, p1)" "run_stages fs p1 = (None, p')" by (auto split: prod.splits option.splits)
  with Cons show ?case by (auto simp: keeps_tidy_def)
qed simp

lemma tidy_deferred: "tidy p \<Longrightarrow> still_open (ps_log (run_deferred p)) [] = Some []"
  by (simp add: tidy_def run_deferred_def still_open_append still_open_releases)

lemma keeps_tidy_calls: "(\<And>rs. snd r = None \<Longrightarrow> still_open (fst r) rs = Some rs) \<Longrightarrow> keeps_tidy (calls name r)"
  by (cases r) (auto simp: keeps_tidy_def calls_def tidy_def still_open_append split: option.splits)

lemma keeps_tidy_opens: "(\<And>rs. snd r = None \<Longrightarrow> still_open (fst r) rs = Some (res # rs)) \<Longrightarrow> keeps_tidy (opens res name r)"
  by (cases r) (auto simp: keeps_tidy_def opens_def calls_def tidy_def still_open_append split: option.splits)

lemma keeps_tidy_does: "(\<And>rs. still_open acts rs = Some rs) \<Longrightarrow> keeps_tidy (does acts)"
  by (auto simp: keeps_tidy_def does_def tidy_def still_open_append)

lemma keeps_tidy_registers: "keeps_tidy (registers f)" "keeps_tidy (creates reg)"
  by (auto simp: keeps_tidy_def registers_def creates_def tidy_def split: option.splits)

lemma keeps_tidy_services [simp]:
  "keeps_tidy (opens SpanExporter name (tracing_Init sv))" "keeps_tidy (opens PgPool name (NewPool sv))"
  "keeps_tidy (calls name (Migrate sv))" "keeps_tidy (opens RedisClient name (NewClient sv))"
  "keeps_tidy (opens NatsConn name (nats_Connect sv))" "keeps_tidy (calls name (serve_until_signal sv))"
  "keeps_tidy (opens res name (opened res))" "keeps_tidy (calls name ([], e))" "keeps_tidy (registers f)" "keeps_tidy (creates reg)"
  by (rule keeps_tidy_opens keeps_tidy_calls keeps_tidy_registers;
      simp add: tracing_Init_def NewPool_def Migrate_def NewClient_def nats_Connect_def serve_until_signal_def split: if_splits)+

lemma binaries_tidy:
  "list_all keeps_tidy (server_main lib sv)" "list_all keeps_tidy (gateway_main lib sv)"
  "list_all keeps_tidy (consumer_main lib sv)" "list_all keeps_tidy (relay_main lib sv)"
  by (simp_all add: server_main_def gateway_main_def consumer_main_def relay_main_def keeps_tidy_does keeps_tidy_calls)

section \<open>The metrics of a binary\<close>

definition own_metrics :: "binary \<Rightarrow> metric list" where
  "own_metrics b = (case b of
     Server \<Rightarrow> tickLatency # map fst PgPoolGauges @ [lookupDuration, locator_errorsTotal, natsReconnects, publishTotal,
       publishErrors, publishDuration] @ map fst (RoomGauges :: (metric \<times> (unit registry \<Rightarrow> nat)) list)
   | WsGateway \<Rightarrow> [lookupDuration, locator_errorsTotal, natsReconnects, publishTotal, publishErrors, publishDuration,
       fst (ConnectionGauge :: metric \<times> (unit hub_sys \<Rightarrow> nat))]
   | ConsumerBinary \<Rightarrow> [batchInsertDuration, batchInsertErrors, dlqTotal] @ map fst LagGauges
   | TelegramRelay \<Rightarrow> [relay_errors])"

lemmas metric_defs = tickLatency_def PgPoolGauges_def lookupDuration_def locator_errorsTotal_def natsReconnects_def
  publishTotal_def publishErrors_def publishDuration_def RoomGauges_def ConnectionGauge_def batchInsertDuration_def
  batchInsertErrors_def dlqTotal_def LagGauges_def relay_errors_def

lemma own_metrics_consistent: "consistent (own_metrics b)"
  by (cases b) (simp_all add: own_metrics_def metric_defs compatible_def TopicWorkoutSample_def TopicRaceFinished_def)

lemma own_metrics_prefix: "list_all (\<lambda>m. go_HasPrefix (mt_Name m) ''aviron_'') (own_metrics b)"
  by (cases b) (simp_all add: own_metrics_def metric_defs go_HasPrefix_def)

lemma own_metrics_valid: "list_all valid_metric (own_metrics b)"
  by (cases b) (simp_all add: own_metrics_def metric_defs valid_metric_def valid_name_def letter_char_def digit_char_def)

section \<open>Starting\<close>

fun first_failure :: "(bool \<times> string) list \<Rightarrow> string option" where
  "first_failure [] = None"
| "first_failure ((ok, name) # cs) = (if ok then first_failure cs else Some name)"

text \<open>What a binary needs, in the order in which it asks for it.\<close>

definition needs :: "binary \<Rightarrow> services \<Rightarrow> (bool \<times> string) list" where
  "needs b sv =
     (let tracing = (sv_exporter sv \<and> sv_resource sv, ''tracing'');
          pool = (sv_pgParse sv \<and> sv_pgCreate sv \<and> sv_pgPing sv, ''db'');
          redis = (sv_redisParse sv \<and> sv_redisPing sv, ''redisclient'');
          nats = (sv_nats sv, ''nats'')
      in case b of
        Server \<Rightarrow> [tracing, pool,
          (sv_sqlOpen sv \<and> sv_migrateDriver sv \<and> sv_migrateInit sv \<and> sv_migrateUp sv \<noteq> UpFailed, ''migrate''),
          redis, nats, (sv_listen sv, ''listen'')]
      | WsGateway \<Rightarrow> [tracing, redis, nats, (\<exists>d. sv_discovery sv = Inr d, ''backend discovery''), (sv_listen sv, ''listen'')]
      | ConsumerBinary \<Rightarrow> [tracing, pool, (sv_listen sv, ''consumer metrics listen'')]
      | TelegramRelay \<Rightarrow> [(sv_listen sv, ''listen'')])"

context prometheus_registry
begin

text \<open>The stages come to this end; on the way they register these metrics: after what is registered, or
  from an empty registry.\<close>

definition ends :: "'r stage list \<Rightarrow> metric list \<Rightarrow> string option \<Rightarrow> bool" where
  "ends fs ms fl \<longleftrightarrow> (\<forall>p. consistent (registered (ps_registry p) @ ms) \<longrightarrow> (\<exists>p'. run_stages fs p = (map_option Fatal fl, p') \<and>
     (fl = None \<longrightarrow> registered (ps_registry p') = registered (ps_registry p) @ ms)))"

definition starts :: "'r stage list \<Rightarrow> metric list \<Rightarrow> string option \<Rightarrow> bool" where
  "starts fs ms fl \<longleftrightarrow> (\<forall>p. \<exists>p'. run_stages fs p = (map_option Fatal fl, p') \<and> (fl = None \<longrightarrow> registered (ps_registry p') = ms))"

lemma ends_nil: "ends [] [] (first_failure [])"
  by (simp add: ends_def)

lemma ends_step:
  assumes "ends fs ms fl" "\<And>p. \<exists>q. run_stages (f # fs) p = run_stages fs q \<and> ps_registry q = ps_registry p"
  shows "ends (f # fs) ms fl"
  unfolding ends_def by (metis assms ends_def)

lemma ends_does: "ends fs ms fl \<Longrightarrow> ends (does acts # fs) ms fl"
  by (erule ends_step) (auto simp: does_def)

lemma ends_opened: "ends fs ms fl \<Longrightarrow> ends (opens res name (opened r) # fs) ms fl"
  by (erule ends_step) (auto simp: opens_def calls_def)

lemma ends_calls:
  "(snd r = None) = ok \<Longrightarrow> ends fs ms (first_failure cs) \<Longrightarrow> ends (calls name r # fs) ms (first_failure ((ok, name) # cs))"
proof (cases ok)
  case True
  assume "(snd r = None) = ok" "ends fs ms (first_failure cs)"
  with True show ?thesis by (cases r) (auto intro!: ends_step simp: calls_def)
next
  case False
  assume "(snd r = None) = ok"
  with False show ?thesis by (cases r) (auto simp: ends_def calls_def)
qed

lemma ends_opens:
  "(snd r = None) = ok \<Longrightarrow> ends fs ms (first_failure cs) \<Longrightarrow> ends (opens res name r # fs) ms (first_failure ((ok, name) # cs))"
proof (cases ok)
  case True
  assume "(snd r = None) = ok" "ends fs ms (first_failure cs)"
  with True show ?thesis by (cases r) (auto intro!: ends_step simp: opens_def calls_def)
next
  case False
  assume "(snd r = None) = ok"
  with False show ?thesis by (cases r) (auto simp: ends_def opens_def calls_def)
qed

lemma ends_registers:
  assumes "list_all valid_metric (concat cs)" "ends fs ms fl"
  shows "ends (registers (MustRegister lib cs) # fs) (concat cs @ ms) fl"
  unfolding ends_def
proof (intro allI impI)
  fix p :: "'r process" assume c: "consistent (registered (ps_registry p) @ concat cs @ ms)"
  then have "consistent (registered (ps_registry p) @ concat cs)"
    using consistent_append [of "registered (ps_registry p) @ concat cs" ms] by simp
  from MustRegister_ok [OF this assms(1)] obtain r where r: "MustRegister lib cs (ps_registry p) = Some r"
      "registered r = registered (ps_registry p) @ concat cs" by blast
  from assms(2) c obtain p' where "run_stages fs (p\<lparr>ps_registry := r\<rparr>) = (map_option Fatal fl, p')"
      "fl = None \<longrightarrow> registered (ps_registry p') = registered r @ ms"
    unfolding ends_def by (metis append.assoc process.select_convs(1) process.surjective process.update_convs(1) r(2))
  with r show "\<exists>p'. run_stages (registers (MustRegister lib cs) # fs) p = (map_option Fatal fl, p') \<and>
      (fl = None \<longrightarrow> registered (ps_registry p') = registered (ps_registry p) @ concat cs @ ms)"
    by (simp add: registers_def creates_def)
qed

lemma starts_step:
  assumes "starts fs ms fl" "\<And>p. \<exists>q. run_stages (f # fs) p = run_stages fs q"
  shows "starts (f # fs) ms fl"
  unfolding starts_def by (metis assms starts_def)

lemma starts_opened: "starts fs ms fl \<Longrightarrow> starts (opens res name (opened r) # fs) ms fl"
  by (erule starts_step) (auto simp: opens_def calls_def)

lemma starts_calls:
  "(snd r = None) = ok \<Longrightarrow> starts fs ms (first_failure cs) \<Longrightarrow> starts (calls name r # fs) ms (first_failure ((ok, name) # cs))"
proof (cases ok)
  case True
  assume "(snd r = None) = ok" "starts fs ms (first_failure cs)"
  with True show ?thesis by (cases r) (auto intro!: starts_step simp: calls_def)
next
  case False
  assume "(snd r = None) = ok"
  with False show ?thesis by (cases r) (auto simp: starts_def calls_def)
qed

lemma starts_opens:
  "(snd r = None) = ok \<Longrightarrow> starts fs ms (first_failure cs) \<Longrightarrow> starts (opens res name r # fs) ms (first_failure ((ok, name) # cs))"
proof (cases ok)
  case True
  assume "(snd r = None) = ok" "starts fs ms (first_failure cs)"
  with True show ?thesis by (cases r) (auto intro!: starts_step simp: opens_def calls_def)
next
  case False
  assume "(snd r = None) = ok"
  with False show ?thesis by (cases r) (auto simp: starts_def opens_def calls_def)
qed

lemma starts_creates:
  assumes "list_all valid_metric (concat cs)" "consistent (concat cs @ ms)" "ends fs ms fl"
  shows "starts (creates (MustRegister lib cs (NewRegistry_p lib)) # fs) (concat cs @ ms) fl"
proof -
  have "consistent (registered (NewRegistry_p lib) @ concat cs)"
    using assms(2) consistent_append [of "concat cs" ms] by (simp add: new_empty)
  from MustRegister_ok [OF this assms(1)] obtain r where r: "MustRegister lib cs (NewRegistry_p lib) = Some r" "registered r = concat cs"
    by (auto simp: new_empty)
  show ?thesis unfolding starts_def
  proof
    fix p :: "'r process"
    from assms(2,3) r(2) obtain p' where "run_stages fs (p\<lparr>ps_registry := r\<rparr>) = (map_option Fatal fl, p')"
        "fl = None \<longrightarrow> registered (ps_registry p') = registered r @ ms"
      unfolding ends_def by (metis process.select_convs(1) process.surjective process.update_convs(1))
    with r show "\<exists>p'. run_stages (creates (MustRegister lib cs (NewRegistry_p lib)) # fs) p = (map_option Fatal fl, p') \<and>
        (fl = None \<longrightarrow> registered (ps_registry p') = concat cs @ ms)"
      by (simp add: creates_def)
  qed
qed

end

section \<open>Properties\<close>

lemma service_calls:
  "(snd (tracing_Init sv) = None) = (sv_exporter sv \<and> sv_resource sv)"
  "(snd (NewPool sv) = None) = (sv_pgParse sv \<and> sv_pgCreate sv \<and> sv_pgPing sv)"
  "(snd (Migrate sv) = None) = (sv_sqlOpen sv \<and> sv_migrateDriver sv \<and> sv_migrateInit sv \<and> sv_migrateUp sv \<noteq> UpFailed)"
  "(snd (NewClient sv) = None) = (sv_redisParse sv \<and> sv_redisPing sv)"
  "(snd (nats_Connect sv) = None) = sv_nats sv"
  "(snd (serve_until_signal sv) = None) = sv_listen sv"
  by (auto simp: tracing_Init_def NewPool_def Migrate_def NewClient_def nats_Connect_def serve_until_signal_def split: up_result.split)

lemmas metrics_constructors = NewMetrics_def RegisterPgPoolGauges_def NewLocator_def RegisterNATSReconnectCounter_def bus_metrics_def
  RegisterRoomGauges_def NewGatewayMetrics_def RegisterConnectionGauge_def NewConsumerMetrics_def RegisterLagGauge_def
  NewTelegramRelayMetrics_def

context prometheus_registry
begin

lemma collectors_with_own:
  "consistent (GoCollector lib @ ProcessCollector lib @ own_metrics b)"
  "list_all valid_metric (GoCollector lib)" "list_all valid_metric (ProcessCollector lib)"
  using own_beside_collectors [OF own_metrics_consistent own_metrics_prefix, of b] collectors(2) by auto

lemma own_metrics_sub: "set ms \<subseteq> set (own_metrics b) \<Longrightarrow> list_all valid_metric ms"
  using own_metrics_valid [of b] by (auto simp: list_all_iff)

lemmas stages_end = starts_opens starts_calls starts_opened starts_creates ends_opens ends_calls ends_opened ends_registers
  ends_does ends_nil

lemma server_starts:
  "starts (server_main lib sv) (GoCollector lib @ ProcessCollector lib @ own_metrics Server) (first_failure (needs Server sv))"
proof -
  let ?ms = "concat [GoCollector lib, ProcessCollector lib, [tickLatency]] @
      concat (map (\<lambda>g. [fst g]) PgPoolGauges) @ concat [[lookupDuration], [locator_errorsTotal]] @ concat [[natsReconnects]] @
      concat [[publishTotal], [publishErrors], [publishDuration]] @
      concat (map (\<lambda>g. [fst g]) (RoomGauges :: (metric \<times> (unit registry \<Rightarrow> nat)) list)) @ []"
  have eq: "?ms = GoCollector lib @ ProcessCollector lib @ own_metrics Server"
    by (simp add: own_metrics_def PgPoolGauges_def RoomGauges_def)
  have v: "list_all valid_metric (concat [GoCollector lib, ProcessCollector lib, [tickLatency]])"
      "list_all valid_metric (concat (map (\<lambda>g. [fst g]) PgPoolGauges))"
      "list_all valid_metric (concat [[lookupDuration], [locator_errorsTotal]])" "list_all valid_metric (concat [[natsReconnects]])"
      "list_all valid_metric (concat [[publishTotal], [publishErrors], [publishDuration]])"
      "list_all valid_metric (concat (map (\<lambda>g. [fst g]) (RoomGauges :: (metric \<times> (unit registry \<Rightarrow> nat)) list)))"
    using own_metrics_valid [of Server] collectors_with_own(2,3) by (simp_all add: own_metrics_def PgPoolGauges_def RoomGauges_def)
  have "starts (server_main lib sv) ?ms (first_failure (needs Server sv))"
    unfolding server_main_def needs_def Let_def binary.case metrics_constructors
    by (intro stages_end service_calls v) (use collectors_with_own(1) [of Server] eq in simp)
  then show ?thesis unfolding eq .
qed

lemma gateway_starts:
  "starts (gateway_main lib sv) (GoCollector lib @ ProcessCollector lib @ own_metrics WsGateway) (first_failure (needs WsGateway sv))"
proof -
  let ?ms = "concat [GoCollector lib, ProcessCollector lib] @ concat [[lookupDuration], [locator_errorsTotal]] @
      concat [[natsReconnects]] @ concat [[publishTotal], [publishErrors], [publishDuration]] @
      concat [[fst (ConnectionGauge :: metric \<times> (unit hub_sys \<Rightarrow> nat))]] @ []"
  have eq: "?ms = GoCollector lib @ ProcessCollector lib @ own_metrics WsGateway"
    by (simp add: own_metrics_def)
  have v: "list_all valid_metric (concat [GoCollector lib, ProcessCollector lib])"
      "list_all valid_metric (concat [[lookupDuration], [locator_errorsTotal]])" "list_all valid_metric (concat [[natsReconnects]])"
      "list_all valid_metric (concat [[publishTotal], [publishErrors], [publishDuration]])"
      "list_all valid_metric (concat [[fst (ConnectionGauge :: metric \<times> (unit hub_sys \<Rightarrow> nat))]])"
    using own_metrics_valid [of WsGateway] collectors_with_own(2,3) by (simp_all add: own_metrics_def)
  have d: "(snd ([], case sv_discovery sv of Inl e \<Rightarrow> Some e | Inr _ \<Rightarrow> None) = None) = (\<exists>d. sv_discovery sv = Inr d)"
    by (simp split: sum.split)
  have "starts (gateway_main lib sv) ?ms (first_failure (needs WsGateway sv))"
    unfolding gateway_main_def needs_def Let_def binary.case metrics_constructors
    by (intro stages_end service_calls v d) (use collectors_with_own(1) [of WsGateway] eq in simp)
  then show ?thesis unfolding eq .
qed

lemma consumer_starts:
  "starts (consumer_main lib sv) (GoCollector lib @ ProcessCollector lib @ own_metrics ConsumerBinary)
     (first_failure (needs ConsumerBinary sv))"
proof -
  let ?ms = "concat [GoCollector lib, ProcessCollector lib, [batchInsertDuration], [batchInsertErrors], [dlqTotal]] @
      concat (map (\<lambda>g. [fst g]) LagGauges) @ []"
  have eq: "?ms = GoCollector lib @ ProcessCollector lib @ own_metrics ConsumerBinary"
    by (simp add: own_metrics_def LagGauges_def)
  have v: "list_all valid_metric (concat [GoCollector lib, ProcessCollector lib, [batchInsertDuration], [batchInsertErrors], [dlqTotal]])"
      "list_all valid_metric (concat (map (\<lambda>g. [fst g]) LagGauges))"
    using own_metrics_valid [of ConsumerBinary] collectors_with_own(2,3) by (simp_all add: own_metrics_def LagGauges_def)
  have l: "(snd (if sv_listen sv then ([StartServing], None) else ([], Some (ErrOther ''listen''))) = None) = sv_listen sv"
    by simp
  have "starts (consumer_main lib sv) ?ms (first_failure (needs ConsumerBinary sv))"
    unfolding consumer_main_def needs_def Let_def binary.case metrics_constructors
    by (intro stages_end service_calls v l) (use collectors_with_own(1) [of ConsumerBinary] eq in simp)
  then show ?thesis unfolding eq .
qed

lemma relay_starts:
  "starts (relay_main lib sv) (GoCollector lib @ ProcessCollector lib @ own_metrics TelegramRelay) (first_failure (needs TelegramRelay sv))"
proof -
  let ?ms = "concat [GoCollector lib, ProcessCollector lib, [relay_errors]] @ []"
  have eq: "?ms = GoCollector lib @ ProcessCollector lib @ own_metrics TelegramRelay"
    by (simp add: own_metrics_def)
  have v: "list_all valid_metric (concat [GoCollector lib, ProcessCollector lib, [relay_errors]])"
    using own_metrics_valid [of TelegramRelay] collectors_with_own(2,3) by (simp add: own_metrics_def)
  have "starts (relay_main lib sv) ?ms (first_failure (needs TelegramRelay sv))"
    unfolding relay_main_def needs_def Let_def binary.case metrics_constructors
    by (intro stages_end service_calls v) (use collectors_with_own(1) [of TelegramRelay] eq in simp)
  then show ?thesis unfolding eq .
qed

lemma run_ends:
  assumes "starts fs ms fl" "list_all keeps_tidy fs" "run_process lib fs = (stop, p)"
  shows "stop = map_option Fatal fl \<and> (stop = None \<longrightarrow> registered (ps_registry p) = ms \<and> still_open (ps_log p) [] = Some [])"
proof -
  let ?p0 = "\<lparr>ps_registry = NewRegistry_p lib, ps_deferred = [], ps_log = []\<rparr>"
  from assms(1) obtain q where q: "run_stages fs ?p0 = (map_option Fatal fl, q)" "fl = None \<longrightarrow> registered (ps_registry q) = ms"
    unfolding starts_def by blast
  have t: "tidy ?p0" by (simp add: tidy_def)
  show ?thesis
  proof (cases fl)
    case None
    with q tidy_stages [OF assms(2) t] have "tidy q" by simp
    with None q assms(3) tidy_deferred [of q] show ?thesis by (auto simp: run_process_def run_deferred_def)
  next
    case (Some m)
    with q assms(3) show ?thesis by (auto simp: run_process_def)
  qed
qed

lemma binary_ends:
  assumes "binary_Run lib b sv = (stop, p)"
  shows "stop = map_option Fatal (first_failure (needs b sv)) \<and> (stop = None \<longrightarrow>
    registered (ps_registry p) = GoCollector lib @ ProcessCollector lib @ own_metrics b \<and> still_open (ps_log p) [] = Some [])"
  using assms run_ends [OF server_starts binaries_tidy(1)] run_ends [OF gateway_starts binaries_tidy(2)]
    run_ends [OF consumer_starts binaries_tidy(3)] run_ends [OF relay_starts binaries_tidy(4)]
  by (cases b) (simp_all add: binary_Run_def)

end

lemma consistent_distinct: "consistent ms \<Longrightarrow> distinct ms"
  by (induction ms) (auto simp: list_all_iff compatible_def)

section \<open>Properties\<close>

text \<open>C35: The binaries start and stop cleanly. Each of the four gets through its start exactly when all the
  services it needs are there; otherwise it ends with the name of the first one, in the order of its
  start, that is not. It never panics on its metrics: everything it registers, directly or through the
  locator and the bus, has a valid descriptor consistent with the rest, and once it has started its registry holds
  the collectors of the library and its own metrics, each once. And when it returns, everything it opened
  is closed, in the reverse order.\<close>

theorem binaries_start_and_stop:
  assumes "prometheus_registry lib registered val" "binary_Run lib b sv = (stop, p)"
  shows "stop = map_option Fatal (first_failure (needs b sv))
    \<and> (stop = None \<longrightarrow> registered (ps_registry p) = GoCollector lib @ ProcessCollector lib @ own_metrics b
        \<and> distinct (own_metrics b) \<and> still_open (ps_log p) [] = Some [])"
  using prometheus_registry.binary_ends [OF assms] consistent_distinct [OF own_metrics_consistent] by blast

text \<open>With all its services the server starts.\<close>

definition demo_services :: services where
  "demo_services = \<lparr>sv_exporter = True, sv_resource = True, sv_pgParse = True, sv_pgCreate = True, sv_pgPing = True,
     sv_sqlOpen = True, sv_migrateDriver = True, sv_migrateInit = True, sv_migrateUp = UpNoChange, sv_redisParse = True,
     sv_redisPing = True, sv_nats = True, sv_discovery = Inr (StaticBackends [''i1'']), sv_listen = True\<rparr>"

theorem binaries_start_and_stop_witness:
  "fst (binary_Run mem_prometheus Server demo_services) = None
   \<and> fst (binary_Run mem_prometheus Server (demo_services\<lparr>sv_redisPing := False, sv_nats := False\<rparr>)) = Some (Fatal ''redisclient'')
   \<and> still_open (ps_log (snd (binary_Run mem_prometheus Server demo_services))) [] = Some []"
  using binaries_start_and_stop [OF memory.prometheus_registry_axioms prod.collapse [symmetric], of Server demo_services]
    binaries_start_and_stop [OF memory.prometheus_registry_axioms prod.collapse [symmetric], of Server
      "demo_services\<lparr>sv_redisPing := False, sv_nats := False\<rparr>"]
  by (simp add: needs_def demo_services_def)

end
