(* ===== verification/Metered_Consumer.thy ===== *)
theory Metered_Consumer
  imports Metrics_Registry
begin

text \<open>
  The consumer with its metrics (\<^verbatim>\<open>MetricsRecorder\<close> of \<^verbatim>\<open>internal/consumer/consumer.go\<close> and its
  calls in the loops). \<open>metered\<close> adds to the calls of \<^verbatim>\<open>Consumer\<close> what the code reports around
  them; \<open>logged\<close> records which calls were made, so that what the counters should show can be said.
\<close>

section \<open>Reporting\<close>

text \<open>The second component of the world is the registry, \<open>None\<close> after a panic of the Prometheus
  client.\<close>

definition metered :: "'r prometheus \<Rightarrow> 'w consumer_deps \<Rightarrow> ('w \<times> 'r option) consumer_deps" where
  "metered lib cd =
     \<lparr>InsertBatch = (\<lambda>c ss (w, r). case InsertBatch cd c ss w of (e, w1) \<Rightarrow>
        (e, w1, Option.bind r (ObserveBatchInsert lib TopicWorkoutSample e))),
      Reconcile = (\<lambda>c i rs (w, r). case Reconcile cd c i rs w of (e, w1) \<Rightarrow>
        (e, w1, Option.bind r (ObserveBatchInsert lib TopicRaceFinished e))),
      PublishRaw = (\<lambda>c topic key payload (w, r). let r1 = Option.bind r (IncDLQ lib topic) in
        case PublishRaw cd c topic key payload w of (e, w1) \<Rightarrow> (e, w1, r1)),
      CommitMessages = (\<lambda>c ms (w, r). case CommitMessages cd c ms w of (e, w1) \<Rightarrow> (e, w1, r)),
      FetchMessage = (\<lambda>(w, r). case FetchMessage cd w of (out, w1) \<Rightarrow> (out, w1, r)),
      CtxErr = (\<lambda>(w, r). case CtxErr cd w of (d, w1) \<Rightarrow> (d, w1, r)),
      consumer_Now = (\<lambda>(w, r). case consumer_Now cd w of (t, w1) \<Rightarrow> (t, w1, r)),
      ParseTime = ParseTime cd\<rparr>"

section \<open>What was called\<close>

datatype consumer_call = BatchWrite string bool | DeadLetter string

definition logged :: "'w consumer_deps \<Rightarrow> ('w \<times> consumer_call list) consumer_deps" where
  "logged cd =
     \<lparr>InsertBatch = (\<lambda>c ss (w, l). case InsertBatch cd c ss w of (e, w1) \<Rightarrow> (e, w1, l @ [BatchWrite TopicWorkoutSample (e \<noteq> None)])),
      Reconcile = (\<lambda>c i rs (w, l). case Reconcile cd c i rs w of (e, w1) \<Rightarrow> (e, w1, l @ [BatchWrite TopicRaceFinished (e \<noteq> None)])),
      PublishRaw = (\<lambda>c topic key payload (w, l). case PublishRaw cd c topic key payload w of (e, w1) \<Rightarrow> (e, w1, l @ [DeadLetter topic])),
      CommitMessages = (\<lambda>c ms (w, l). case CommitMessages cd c ms w of (e, w1) \<Rightarrow> (e, w1, l)),
      FetchMessage = (\<lambda>(w, l). case FetchMessage cd w of (out, w1) \<Rightarrow> (out, w1, l)),
      CtxErr = (\<lambda>(w, l). case CtxErr cd w of (d, w1) \<Rightarrow> (d, w1, l)),
      consumer_Now = (\<lambda>(w, l). case consumer_Now cd w of (t, w1) \<Rightarrow> (t, w1, l)),
      ParseTime = ParseTime cd\<rparr>"

fun updates :: "consumer_call \<Rightarrow> (string \<times> string list) list" where
  "updates (BatchWrite topic failed) =
     (mt_Name batchInsertDuration, [topic]) # (if failed then [(mt_Name batchInsertErrors, [topic])] else [])"
| "updates (DeadLetter topic) = [(mt_Name dlqTotal, [topic])]"

definition tally :: "consumer_call list \<Rightarrow> string \<times> string list \<Rightarrow> nat" where
  "tally l k = length (filter ((=) k) (concat (map updates l)))"

lemma tally_snoc: "tally (l @ [c]) k = tally l k + length (filter ((=) k) (updates c))"
  by (simp add: tally_def)

lemma consumer_names:
  "mt_Name batchInsertDuration \<noteq> mt_Name batchInsertErrors" "mt_Name batchInsertDuration \<noteq> mt_Name dlqTotal"
  "mt_Name batchInsertErrors \<noteq> mt_Name dlqTotal"
  by (simp_all add: batchInsertDuration_def batchInsertErrors_def dlqTotal_def)

lemma tally_counts:
  "tally l (mt_Name batchInsertDuration, [topic]) = length (filter (\<lambda>c. \<exists>f. c = BatchWrite topic f) l)
   \<and> tally l (mt_Name batchInsertErrors, [topic]) = length (filter ((=) (BatchWrite topic True)) l)
   \<and> tally l (mt_Name dlqTotal, [topic]) = length (filter ((=) (DeadLetter topic)) l)"
proof (induction l rule: rev_induct)
  case Nil
  then show ?case by (simp add: tally_def)
next
  case (snoc c l)
  then show ?case using consumer_names consumer_names [symmetric] by (cases c) (auto simp: tally_snoc)
qed

section \<open>The simulation\<close>

context prometheus_registry
begin

text \<open>With metrics, log and registry beside the world of the plain consumer.\<close>

definition beside_plain :: "'r \<Rightarrow> ('w \<times> consumer_call list) \<times> 'r option \<Rightarrow> 'w \<Rightarrow> bool" where
  "beside_plain r v w \<longleftrightarrow> (\<exists>l r'. v = ((w, l), Some r') \<and> (\<forall>k. val r' k = val r k + tally l k))"

lemma observe_batch:
  assumes "\<forall>k. val r' k = val r k + tally l k"
  shows "\<exists>r1. ObserveBatchInsert lib topic e r' = Some r1 \<and> (\<forall>k. val r1 k = val r k + tally (l @ [BatchWrite topic (e \<noteq> None)]) k)"
proof -
  have "length [topic] = length (mt_Labels batchInsertDuration)" by (simp add: batchInsertDuration_def)
  from update [OF this, of r'] obtain r1 where r1: "Update_p lib batchInsertDuration [topic] r' = Some r1"
    "val r1 = (val r')((mt_Name batchInsertDuration, [topic]) := val r' (mt_Name batchInsertDuration, [topic]) + 1)" by blast
  have "length [topic] = length (mt_Labels batchInsertErrors)" by (simp add: batchInsertErrors_def)
  from update [OF this, of r1] obtain r2 where r2: "Update_p lib batchInsertErrors [topic] r1 = Some r2"
    "val r2 = (val r1)((mt_Name batchInsertErrors, [topic]) := val r1 (mt_Name batchInsertErrors, [topic]) + 1)" by blast
  show ?thesis
    using assms r1 r2 consumer_names by (cases e) (auto simp: ObserveBatchInsert_def tally_snoc)
qed

lemma count_dead_letter:
  assumes "\<forall>k. val r' k = val r k + tally l k"
  shows "\<exists>r1. IncDLQ lib topic r' = Some r1 \<and> (\<forall>k. val r1 k = val r k + tally (l @ [DeadLetter topic]) k)"
proof -
  have "length [topic] = length (mt_Labels dlqTotal)" by (simp add: dlqTotal_def)
  from update [OF this, of r'] obtain r1 where "Update_p lib dlqTotal [topic] r' = Some r1"
    "val r1 = (val r')((mt_Name dlqTotal, [topic]) := val r' (mt_Name dlqTotal, [topic]) + 1)" by blast
  with assms show ?thesis by (auto simp: IncDLQ_def tally_snoc)
qed

lemma metered_sim: "consumer_sim (metered lib (logged cd)) cd (beside_plain r)"
proof (unfold_locales, goal_cases)
  case (1 v w c ss)
  then obtain l r' where v: "v = ((w, l), Some r')" and k: "\<forall>k. val r' k = val r k + tally l k" by (auto simp: beside_plain_def)
  obtain e w1 where i: "InsertBatch cd c ss w = (e, w1)" by fastforce
  from observe_batch [OF k, of TopicWorkoutSample e] obtain r1 where "ObserveBatchInsert lib TopicWorkoutSample e r' = Some r1"
    "\<forall>k. val r1 k = val r k + tally (l @ [BatchWrite TopicWorkoutSample (e \<noteq> None)]) k" by blast
  with v i show ?case by (auto simp: metered_def logged_def beside_plain_def)
next
  case (2 v w c i rs)
  then obtain l r' where v: "v = ((w, l), Some r')" and k: "\<forall>k. val r' k = val r k + tally l k" by (auto simp: beside_plain_def)
  obtain e w1 where i: "Reconcile cd c i rs w = (e, w1)" by fastforce
  from observe_batch [OF k, of TopicRaceFinished e] obtain r1 where "ObserveBatchInsert lib TopicRaceFinished e r' = Some r1"
    "\<forall>k. val r1 k = val r k + tally (l @ [BatchWrite TopicRaceFinished (e \<noteq> None)]) k" by blast
  with v i show ?case by (auto simp: metered_def logged_def beside_plain_def)
next
  case (3 v w c topic key payload)
  then obtain l r' where v: "v = ((w, l), Some r')" and k: "\<forall>k. val r' k = val r k + tally l k" by (auto simp: beside_plain_def)
  obtain e w1 where i: "PublishRaw cd c topic key payload w = (e, w1)" by fastforce
  from count_dead_letter [OF k, of topic] obtain r1 where "IncDLQ lib topic r' = Some r1"
    "\<forall>k. val r1 k = val r k + tally (l @ [DeadLetter topic]) k" by blast
  with v i show ?case by (auto simp: metered_def logged_def beside_plain_def)
qed (auto simp: metered_def logged_def beside_plain_def split: prod.split)

end

section \<open>Properties\<close>

text \<open>The counters of a consumer after the calls of a log.\<close>

definition counted :: "('r \<Rightarrow> string \<times> string list \<Rightarrow> nat) \<Rightarrow> consumer_call list \<Rightarrow> 'r \<Rightarrow> 'r \<Rightarrow> bool" where
  "counted val l r r' \<longleftrightarrow> (\<forall>topic.
     val r' (mt_Name batchInsertDuration, [topic]) =
       val r (mt_Name batchInsertDuration, [topic]) + length (filter (\<lambda>c. \<exists>f. c = BatchWrite topic f) l)
     \<and> val r' (mt_Name batchInsertErrors, [topic]) =
       val r (mt_Name batchInsertErrors, [topic]) + length (filter ((=) (BatchWrite topic True)) l)
     \<and> val r' (mt_Name dlqTotal, [topic]) = val r (mt_Name dlqTotal, [topic]) + length (filter ((=) (DeadLetter topic)) l))"

text \<open>C12: The metrics of the consumer are exact and change nothing. With them both loops read, store,
  commit and dead-letter exactly as they do without, no observation panics, and afterwards the
  histogram of a topic has counted every batch write of that topic, its error counter every one that failed,
  and the dead-letter counter of a topic every message handed to it.\<close>

theorem consumer_metrics_exact:
  assumes "prometheus_registry lib registered val"
    and "runWorkoutSampleLoop n (metered lib (logged cd)) (b, ((w, []), Some r)) = (e, b', ((w', l), ro))"
    and "runRaceFinishedLoop m (metered lib (logged fd)) ((v, []), Some q) = (e2, ((v', l2), qo))"
  shows "runWorkoutSampleLoop n cd (b, w) = (e, b', w') \<and> (\<exists>r'. ro = Some r' \<and> counted val l r r')
    \<and> runRaceFinishedLoop m fd v = (e2, v') \<and> (\<exists>q'. qo = Some q' \<and> counted val l2 q q')"
proof -
  have start: "prometheus_registry.beside_plain val r ((x, []), Some r) x" for r x
    by (simp add: prometheus_registry.beside_plain_def [OF assms(1)] tally_def)
  have count: "prometheus_registry.beside_plain val r ((x', l), ro) x \<Longrightarrow> x = x' \<and> (\<exists>r'. ro = Some r' \<and> counted val l r r')" for r x x' l ro
    by (auto simp: prometheus_registry.beside_plain_def [OF assms(1)] tally_counts counted_def)
  from consumer_sim.sim_loop [OF prometheus_registry.metered_sim [OF assms(1), where cd = cd and r = r] start [of r w], where n = n and b = b] assms(2)
  obtain y where y: "runWorkoutSampleLoop n cd (b, w) = (e, b', y)" "prometheus_registry.beside_plain val r ((w', l), ro) y"
    by (cases "runWorkoutSampleLoop n cd (b, w)") auto
  from consumer_sim.sim_finished_loop [OF prometheus_registry.metered_sim [OF assms(1), where cd = fd and r = q] start [of q v], where n = m] assms(3)
  obtain z where z: "runRaceFinishedLoop m fd v = (e2, z)" "prometheus_registry.beside_plain val q ((v', l2), qo) z"
    by (cases "runRaceFinishedLoop m fd v") auto
  from y z count [OF y(2)] count [OF z(2)] show ?thesis by simp
qed

text \<open>Two iterations that read a sample and store it when the context ends.\<close>

theorem consumer_metrics_exact_witness:
  "\<exists>r'. snd (snd (snd (runWorkoutSampleLoop 2 (metered mem_prometheus (logged (pg_sink (\<lambda>_. Some 7))))
       (empty_batch, ((demo_sink [demo_sample], []), Some (NewRegistry_p mem_prometheus)))))) = Some r'
     \<and> snd r' (mt_Name batchInsertErrors, [TopicWorkoutSample]) \<le> snd r' (mt_Name batchInsertDuration, [TopicWorkoutSample])"
proof -
  let ?m = "metered mem_prometheus (logged (pg_sink (\<lambda>_. Some 7)))" and ?r = "NewRegistry_p mem_prometheus"
  obtain e b' w' l ro where 1: "runWorkoutSampleLoop 2 ?m (empty_batch, ((demo_sink [demo_sample], []), Some ?r)) = (e, b', ((w', l), ro))"
    by (metis surj_pair)
  obtain e2 v' l2 qo where 2: "runRaceFinishedLoop 0 ?m ((demo_sink [], []), Some ?r) = (e2, ((v', l2), qo))"
    by (metis surj_pair)
  from consumer_metrics_exact [OF memory.prometheus_registry_axioms 1 2] obtain r' where r': "ro = Some r'" "counted snd l ?r r'"
    by blast
  have "length (filter ((=) (BatchWrite TopicWorkoutSample True)) l) \<le> length (filter (\<lambda>c. \<exists>f. c = BatchWrite TopicWorkoutSample f) l)"
    by (induction l) auto
  with r' 1 show ?thesis by (simp add: counted_def memory.new_zero)
qed

end
