(* ===== verification/Telegram_Relay.thy ===== *)
theory Telegram_Relay
  imports Event_Log "HOL-Library.Sublist"
begin

text \<open>
  The alert relay (\<^verbatim>\<open>internal/telegramrelay\<close>): the webhook of Alertmanager with the field rules of
  \<^verbatim>\<open>encoding/json\<close>, the message built from it, the call of the Bot API and the handler. Strings are
  their UTF-8 bytes. The HTTP client is a parameter: it answers with a status and a body or fails with a
  text.
\<close>

section \<open>The webhook\<close>

type_synonym labels = "(string \<times> string) list"

record alert =
  al_Status :: string
  al_Labels :: labels
  al_Annotations :: labels

record alertmanager_webhook =
  aw_Status :: string
  aw_GroupLabels :: labels
  aw_Alerts :: "alert list"

text \<open>A map is decoded into the one that is there; an element \<^verbatim>\<open>null\<close> is the empty string.\<close>

fun label_members :: "(string \<times> json) list \<Rightarrow> labels \<Rightarrow> labels option" where
  "label_members [] m = Some m"
| "label_members ((k, v) # kvs) m = (case string_field v '''' of None \<Rightarrow> None | Some s \<Rightarrow> label_members kvs (mput k s m))"

fun labels_field :: "json \<Rightarrow> labels \<Rightarrow> labels option" where
  "labels_field JNull old = Some []"
| "labels_field (JObject kvs) old = label_members kvs old"
| "labels_field _ old = None"

definition alert_member :: "string \<Rightarrow> json \<Rightarrow> alert \<Rightarrow> alert option" where
  "alert_member k v m =
     (if same_key k ''status'' then map_option (\<lambda>x. m\<lparr>al_Status := x\<rparr>) (string_field v (al_Status m))
      else if same_key k ''labels'' then map_option (\<lambda>x. m\<lparr>al_Labels := x\<rparr>) (labels_field v (al_Labels m))
      else if same_key k ''annotations'' then map_option (\<lambda>x. m\<lparr>al_Annotations := x\<rparr>) (labels_field v (al_Annotations m))
      else Some m)"

fun decode_alerts :: "json list \<Rightarrow> alert list option" where
  "decode_alerts [] = Some []"
| "decode_alerts (v # vs) =
     (case decode_struct alert_member \<lparr>al_Status = '''', al_Labels = [], al_Annotations = []\<rparr> v of
        None \<Rightarrow> None
      | Some a \<Rightarrow> map_option ((#) a) (decode_alerts vs))"

fun alerts_field :: "json \<Rightarrow> alert list option" where
  "alerts_field JNull = Some []"
| "alerts_field (JArray vs) = decode_alerts vs"
| "alerts_field _ = None"

definition webhook_member :: "string \<Rightarrow> json \<Rightarrow> alertmanager_webhook \<Rightarrow> alertmanager_webhook option" where
  "webhook_member k v m =
     (if same_key k ''status'' then map_option (\<lambda>x. m\<lparr>aw_Status := x\<rparr>) (string_field v (aw_Status m))
      else if same_key k ''grouplabels'' then map_option (\<lambda>x. m\<lparr>aw_GroupLabels := x\<rparr>) (labels_field v (aw_GroupLabels m))
      else if same_key k ''alerts'' then map_option (\<lambda>x. m\<lparr>aw_Alerts := x\<rparr>) (alerts_field v)
      else Some m)"

definition decode_webhook :: "frame \<Rightarrow> alertmanager_webhook option" where
  "decode_webhook body = Option.bind body (decode_struct webhook_member \<lparr>aw_Status = '''', aw_GroupLabels = [], aw_Alerts = []\<rparr>)"

section \<open>The message\<close>

text \<open>A key that is missing reads as the empty string.\<close>

definition label :: "labels \<Rightarrow> string \<Rightarrow> string" where
  "label m k = (case mget m k of None \<Rightarrow> '''' | Some v \<Rightarrow> v)"

fun go_Join :: "string list \<Rightarrow> string \<Rightarrow> string" where
  "go_Join [] sep = ''''"
| "go_Join [s] sep = s"
| "go_Join (s # ss) sep = s @ sep @ go_Join ss sep"

definition formatMessage :: "alertmanager_webhook \<Rightarrow> string" where
  "formatMessage w =
     (let icon = (if aw_Status w = ''resolved'' then [CHR 0xE2, CHR 0x9C, CHR 0x85] @ '' RESOLVED''
                  else [CHR 0xF0, CHR 0x9F, CHR 0x94, CHR 0xB4] @ '' FIRING'');
          title = icon @ '': '' @ label (aw_GroupLabels w) ''alertname'';
          app = label (aw_GroupLabels w) ''app'';
          title = (if app \<noteq> '''' then title @ '' ('' @ app @ '')'' else title);
          lines = filter (\<lambda>s. s \<noteq> '''') (map (\<lambda>a. label (al_Annotations a) ''summary'') (aw_Alerts w))
      in if lines = [] then title else title @ [CHR 0x0A] @ go_Join lines [CHR 0x0A])"

section \<open>The call\<close>

record relay =
  botToken :: string
  chatID :: string
  baseURL :: string

definition telegramAPIBaseURL :: string where
  "telegramAPIBaseURL = ''https://api.telegram.org''"

definition NewRelay :: "string \<Rightarrow> string \<Rightarrow> relay" where
  "NewRelay token chat = \<lparr>botToken = token, chatID = chat, baseURL = telegramAPIBaseURL\<rparr>"

record post =
  po_URL :: string
  po_Body :: json

text \<open>The HTTP client: which URLs a request can be built for, and the call. The reply is a status with
  the first bytes of its body, without the white space around them.\<close>

record 'w http_client =
  NewRequest_ok :: "string \<Rightarrow> bool"
  Do :: "post \<Rightarrow> 'w \<Rightarrow> (string + int \<times> string) \<times> 'w"

definition sendMessage_url :: "relay \<Rightarrow> string" where
  "sendMessage_url r = baseURL r @ ''/bot'' @ botToken r @ ''/sendMessage''"

definition Notify :: "'w http_client \<Rightarrow> relay \<Rightarrow> alertmanager_webhook \<Rightarrow> 'w \<Rightarrow> string option \<times> 'w" where
  "Notify cl r w s =
     (let url = sendMessage_url r;
          body = JObject [(''chat_id'', JString (chatID r)), (''text'', JString (formatMessage w))] in
      if \<not> NewRequest_ok cl url then (Some ''telegramrelay: build sendMessage request'', s)
      else
        (case Do cl \<lparr>po_URL = url, po_Body = body\<rparr> s of
           (Inl e, s1) \<Rightarrow> (Some (''telegramrelay: sendMessage request: '' @ e), s1)
         | (Inr (status, snippet), s1) \<Rightarrow>
             if go_quot status 100 \<noteq> 2 then (Some (''telegramrelay: sendMessage returned '' @ snippet), s1) else (None, s1)))"

text \<open>The handler: the status of its reply, what it logs, and the calls of \<^verbatim>\<open>IncError\<close>.\<close>

definition AlertHandler :: "'w http_client \<Rightarrow> relay \<Rightarrow> frame \<Rightarrow> nat \<times> 'w \<Rightarrow> nat \<times> string list \<times> nat \<times> 'w" where
  "AlertHandler cl r body = (\<lambda>(errors, s).
     case decode_webhook body of
       None \<Rightarrow> (400, [''telegramrelay: decode webhook body failed''], errors, s)
     | Some w \<Rightarrow>
         (case Notify cl r w s of
            (Some e, s1) \<Rightarrow> (200, [''telegramrelay: notify failed'', e], Suc errors, s1)
          | (None, s1) \<Rightarrow> (200, [], errors, s1)))"

section \<open>Lemmas\<close>

lemma char_of_l [simp]: "char_of (108 :: nat) = CHR ''l''"
  by code_simp

lemma alert_keys [simp]:
  "same_key ''status'' f = (f = ''status'')" "same_key ''labels'' f = (f = ''labels'')"
  "same_key ''annotations'' f = (f = ''annotations'')" "same_key ''alerts'' f = (f = ''alerts'')"
  "same_key ''groupLabels'' f = (f = ''grouplabels'')"
  by (auto simp: same_key_def lower_def)

text \<open>The lines of a text.\<close>

fun text_lines :: "string \<Rightarrow> string list" where
  "text_lines [] = ['''']"
| "text_lines (c # cs) = (if c = CHR 0x0A then '''' # text_lines cs
     else (case text_lines cs of [] \<Rightarrow> [[c]] | l # ls \<Rightarrow> (c # l) # ls))"

lemma text_lines_not_Nil [simp]: "text_lines s \<noteq> []"
  by (induction s) (auto split: list.split)

lemma text_lines_one: "CHR 0x0A \<notin> set s \<Longrightarrow> text_lines s = [s]"
  by (induction s) auto

lemma text_lines_append: "CHR 0x0A \<notin> set s \<Longrightarrow> text_lines (s @ CHR 0x0A # t) = s # text_lines t"
  by (induction s) auto

lemma text_lines_join: "ss \<noteq> [] \<Longrightarrow> \<forall>s \<in> set ss. CHR 0x0A \<notin> set s \<Longrightarrow> text_lines (go_Join ss [CHR 0x0A]) = ss"
  by (induction ss "[CHR 0x0A]" rule: go_Join.induct) (auto simp: text_lines_one text_lines_append)

section \<open>Properties\<close>

definition summaries :: "alertmanager_webhook \<Rightarrow> string list" where
  "summaries w = filter (\<lambda>s. s \<noteq> '''') (map (\<lambda>a. label (al_Annotations a) ''summary'') (aw_Alerts w))"

definition one_line :: "string \<Rightarrow> bool" where
  "one_line s \<longleftrightarrow> CHR 0x0A \<notin> set s"

lemma message_lines:
  assumes "one_line (label (aw_GroupLabels w) ''alertname'')" "one_line (label (aw_GroupLabels w) ''app'')"
    and "\<forall>s \<in> set (summaries w). one_line s"
  shows "\<exists>title. text_lines (formatMessage w) = title # summaries w \<and> sublist (label (aw_GroupLabels w) ''alertname'') title"
proof -
  define icon where "icon = (if aw_Status w = ''resolved'' then [CHR 0xE2, CHR 0x9C, CHR 0x85] @ '' RESOLVED''
      else [CHR 0xF0, CHR 0x9F, CHR 0x94, CHR 0xB4] @ '' FIRING'')"
  define name where "name = label (aw_GroupLabels w) ''alertname''"
  define rest where "rest = (if label (aw_GroupLabels w) ''app'' \<noteq> '''' then '' ('' @ label (aw_GroupLabels w) ''app'' @ '')'' else '''')"
  define title where "title = icon @ '': '' @ name @ rest"
  have m: "formatMessage w = (if summaries w = [] then title else title @ CHR 0x0A # go_Join (summaries w) [CHR 0x0A])"
    by (simp add: formatMessage_def Let_def summaries_def title_def icon_def name_def rest_def)
  have t: "CHR 0x0A \<notin> set title"
    using assms(1,2) by (auto simp: title_def icon_def name_def rest_def one_line_def)
  have "title = (icon @ '': '') @ name @ rest" by (simp add: title_def)
  then have "sublist name title" unfolding sublist_def by blast
  with m t assms(3) show ?thesis
    by (auto simp: name_def one_line_def text_lines_one text_lines_append text_lines_join)
qed

text \<open>C37: Every alert is answered, and handed on at most once. A body that is not an alert is refused
  with 400 and nothing else happens. Any other is answered with 200, so that the caller does not send it again:
  exactly one message goes to the Bot API, to the chat of the configuration, unless no request can be built for
  its address; its first line names the alert, and the summaries of the alerts, when they are single
  lines, follow in their order, one per line. A failure is counted once and logged, and there is a failure exactly
  when the message was not accepted with a status of the two hundreds.\<close>

theorem alerts_are_relayed:
  assumes "AlertHandler cl r body (n, s) = (status, logs, n', s')"
  shows "(decode_webhook body = None \<longrightarrow> status = 400 \<and> n' = n \<and> s' = s)
    \<and> (\<forall>w. decode_webhook body = Some w \<longrightarrow> status = 200
        \<and> (if NewRequest_ok cl (sendMessage_url r)
           then (\<exists>answer. Do cl \<lparr>po_URL = sendMessage_url r,
               po_Body = JObject [(''chat_id'', JString (chatID r)), (''text'', JString (formatMessage w))]\<rparr> s = (answer, s')
             \<and> n' = n + (if \<exists>code snippet. answer = Inr (code, snippet) \<and> go_quot code 100 = 2 then 0 else 1))
           else n' = n + 1 \<and> s' = s)
        \<and> (logs \<noteq> [] \<longleftrightarrow> n' = n + 1)
        \<and> (one_line (label (aw_GroupLabels w) ''alertname'') \<and> one_line (label (aw_GroupLabels w) ''app'')
             \<and> (\<forall>x \<in> set (summaries w). one_line x) \<longrightarrow>
           (\<exists>title. text_lines (formatMessage w) = title # summaries w \<and> sublist (label (aw_GroupLabels w) ''alertname'') title)))"
proof (cases "decode_webhook body")
  case None
  with assms show ?thesis by (simp add: AlertHandler_def)
next
  case (Some w)
  let ?post = "\<lparr>po_URL = sendMessage_url r, po_Body = JObject [(''chat_id'', JString (chatID r)), (''text'', JString (formatMessage w))]\<rparr>"
  obtain answer s1 where d: "Do cl ?post s = (answer, s1)" by fastforce
  have "status = 200 \<and> (if NewRequest_ok cl (sendMessage_url r)
      then s' = s1 \<and> n' = n + (if \<exists>code snippet. answer = Inr (code, snippet) \<and> go_quot code 100 = 2 then 0 else 1)
      else n' = n + 1 \<and> s' = s) \<and> (logs \<noteq> [] \<longleftrightarrow> n' = n + 1)"
    using assms Some d by (auto simp: AlertHandler_def Notify_def Let_def split: sum.splits prod.splits if_splits)
  with Some d message_lines [of w] show ?thesis by (auto split: if_splits)
qed

text \<open>A firing alert, and a Bot API that refuses it.\<close>

definition demo_alert :: frame where
  "demo_alert = Some (JObject [(''status'', JString ''firing''),
     (''groupLabels'', JObject [(''alertname'', JString ''HighLag''), (''app'', JString ''consumer'')]),
     (''alerts'', JArray [JObject [(''annotations'', JObject [(''summary'', JString ''lag is high'')])]])])"

definition refusing :: "nat http_client" where
  "refusing = \<lparr>NewRequest_ok = (\<lambda>_. True), Do = (\<lambda>_ k. (Inr (403, ''forbidden''), Suc k))\<rparr>"

lemma decode_demo_alert: "decode_webhook demo_alert = Some \<lparr>aw_Status = ''firing'',
    aw_GroupLabels = [(''alertname'', ''HighLag''), (''app'', ''consumer'')],
    aw_Alerts = [\<lparr>al_Status = '''', al_Labels = [], al_Annotations = [(''summary'', ''lag is high'')]\<rparr>]\<rparr>"
  by (simp add: decode_webhook_def demo_alert_def decode_struct_def webhook_member_def alert_member_def same_key_def lower_def)

theorem alerts_are_relayed_witness:
  "let (status, logs, n, sent) = AlertHandler refusing (NewRelay ''token'' ''42'') demo_alert (0, 0)
   in status = 200 \<and> n = 1 \<and> sent = 1 \<and> logs \<noteq> []"
proof -
  obtain status logs n sent where h: "AlertHandler refusing (NewRelay ''token'' ''42'') demo_alert (0, 0) = (status, logs, n, sent)"
    by (metis surj_pair)
  from alerts_are_relayed [OF h] have "status = 200 \<and> n = 1 \<and> sent = 1 \<and> logs \<noteq> []"
    by (simp add: decode_demo_alert refusing_def go_quot_def)
  with h show ?thesis by simp
qed

text \<open>The errors of Go's HTTP client quote the URL of the request, and this one contains the bot's token: a
  call that fails writes the token to the log.\<close>

lemma token_in_log:
  assumes "decode_webhook body = Some w" "NewRequest_ok cl (sendMessage_url r)"
    and "\<And>p s. fst (Do cl p s) = Inl (''Post '' @ po_URL p @ '': timeout'')"
  shows "\<exists>e \<in> set (fst (snd (AlertHandler cl r body (n, s)))). sublist (botToken r) e"
proof -
  let ?post = "\<lparr>po_URL = sendMessage_url r, po_Body = JObject [(''chat_id'', JString (chatID r)), (''text'', JString (formatMessage w))]\<rparr>"
  obtain s1 where "Do cl ?post s = (Inl (''Post '' @ sendMessage_url r @ '': timeout''), s1)"
    using assms(3) [of ?post s] by (cases "Do cl ?post s") auto
  with assms(1,2) have l: "fst (snd (AlertHandler cl r body (n, s))) = [''telegramrelay: notify failed'',
      (''telegramrelay: sendMessage request: Post '' @ baseURL r @ ''/bot'') @ botToken r @ ''/sendMessage: timeout'']"
    by (simp add: AlertHandler_def Notify_def Let_def sendMessage_url_def)
  have "sublist (botToken r) ((''telegramrelay: sendMessage request: Post '' @ baseURL r @ ''/bot'') @ botToken r @ ''/sendMessage: timeout'')"
    unfolding sublist_def by blast
  with l show ?thesis by simp
qed

end
