(* ===== verification/Trace_Headers.thy ===== *)
theory Trace_Headers
  imports Aviron_Prelude
begin

text \<open>
  The headers a trace travels in: \<^verbatim>\<open>HeaderCarrier\<close> over the headers of a Kafka message
  (\<^verbatim>\<open>internal/kafka/producer.go\<close>), \<^verbatim>\<open>natsHeaderCarrier\<close> over those of a NATS message
  (\<^verbatim>\<open>internal/roomrelay/bus.go\<close>), and the trace attributes of a log line
  (\<^verbatim>\<open>internal/tracing/logattrs.go\<close>). The locale \<open>text_map_carrier\<close> is what OpenTelemetry's
  propagators ask of a carrier; both carriers are shown to give it.
\<close>

section \<open>The contract\<close>

locale text_map_carrier =
  fixes get :: "'c \<Rightarrow> string \<Rightarrow> string" and put :: "string \<Rightarrow> string \<Rightarrow> 'c \<Rightarrow> 'c" and keys :: "'c \<Rightarrow> string set"
  assumes get_put: "get (put k v c) k' = (if k' = k then v else get c k')"
    and keys_put: "keys (put k v c) = insert k (keys c)"
    and get_missing: "k \<notin> keys c \<Longrightarrow> get c k = ''''"
begin

text \<open>A propagator writes its fields one after the other.\<close>

lemma get_inject:
  "distinct (map fst fields) \<Longrightarrow>
   get (fold (\<lambda>(k, v). put k v) fields c) k = (case map_of fields k of None \<Rightarrow> get c k | Some v \<Rightarrow> v)"
proof (induction fields arbitrary: c)
  case (Cons f fields)
  then show ?case by (cases f) (auto simp: get_put map_of_eq_None_iff image_iff split: option.split dest: map_of_SomeD)
qed simp

lemma keys_inject: "keys (fold (\<lambda>(k, v). put k v) fields c) = keys c \<union> set (map fst fields)"
  by (induction fields arbitrary: c) (auto simp: keys_put)

end

section \<open>Kafka\<close>

record kafka_header =
  kh_Key :: string
  kh_Value :: string

fun HeaderCarrier_Get :: "kafka_header list \<Rightarrow> string \<Rightarrow> string" where
  "HeaderCarrier_Get [] key = ''''"
| "HeaderCarrier_Get (h # hs) key = (if kh_Key h = key then kh_Value h else HeaderCarrier_Get hs key)"

fun HeaderCarrier_Set :: "string \<Rightarrow> string \<Rightarrow> kafka_header list \<Rightarrow> kafka_header list" where
  "HeaderCarrier_Set key v [] = [\<lparr>kh_Key = key, kh_Value = v\<rparr>]"
| "HeaderCarrier_Set key v (h # hs) =
     (if kh_Key h = key then h\<lparr>kh_Value := v\<rparr> # hs else h # HeaderCarrier_Set key v hs)"

definition HeaderCarrier_Keys :: "kafka_header list \<Rightarrow> string list" where
  "HeaderCarrier_Keys hs = map kh_Key hs"

lemma HeaderCarrier_Get_Set: "HeaderCarrier_Get (HeaderCarrier_Set k v hs) k' = (if k' = k then v else HeaderCarrier_Get hs k')"
  by (induction hs) auto

lemma HeaderCarrier_Keys_Set: "set (HeaderCarrier_Keys (HeaderCarrier_Set k v hs)) = insert k (set (HeaderCarrier_Keys hs))"
  by (induction hs) (auto simp: HeaderCarrier_Keys_def)

interpretation kafka_carrier: text_map_carrier HeaderCarrier_Get HeaderCarrier_Set "\<lambda>hs. set (HeaderCarrier_Keys hs)"
proof
  fix k hs assume "k \<notin> set (HeaderCarrier_Keys hs)"
  then show "HeaderCarrier_Get hs k = ''''" by (induction hs) (auto simp: HeaderCarrier_Keys_def)
qed (rule HeaderCarrier_Get_Set HeaderCarrier_Keys_Set)+

text \<open>A header that is set is there once.\<close>

lemma HeaderCarrier_distinct: "distinct (HeaderCarrier_Keys hs) \<Longrightarrow> distinct (HeaderCarrier_Keys (HeaderCarrier_Set k v hs))"
proof (induction hs)
  case (Cons h hs)
  then show ?case using HeaderCarrier_Keys_Set [of k v hs] by (auto simp: HeaderCarrier_Keys_def)
qed (simp add: HeaderCarrier_Keys_def)

section \<open>NATS\<close>

type_synonym nats_header = "(string \<times> string list) list"

definition natsHeaderCarrier_Get :: "nats_header \<Rightarrow> string \<Rightarrow> string" where
  "natsHeaderCarrier_Get c key = (case mget c key of None \<Rightarrow> '''' | Some vs \<Rightarrow> (if vs = [] then '''' else hd vs))"

definition natsHeaderCarrier_Set :: "string \<Rightarrow> string \<Rightarrow> nats_header \<Rightarrow> nats_header" where
  "natsHeaderCarrier_Set key v c = mput key [v] c"

text \<open>The order of the keys is the order of the map's iteration.\<close>

definition natsHeaderCarrier_Keys :: "nats_header \<Rightarrow> string list" where
  "natsHeaderCarrier_Keys c = map fst c"

lemma natsHeaderCarrier_Keys_dom: "set (natsHeaderCarrier_Keys c) = dom (mget c)"
  by (simp add: natsHeaderCarrier_Keys_def dom_map_of_conv_image_fst)

interpretation nats_carrier: text_map_carrier natsHeaderCarrier_Get natsHeaderCarrier_Set "\<lambda>c. set (natsHeaderCarrier_Keys c)"
  by unfold_locales
    (auto simp: natsHeaderCarrier_Get_def natsHeaderCarrier_Set_def natsHeaderCarrier_Keys_dom dom_mput split: option.split)

section \<open>Log lines\<close>

record span_context =
  sc_TraceID :: string
  sc_SpanID :: string

text \<open>\<open>None\<close>: the context carries no valid span context.\<close>

definition LogAttrs :: "span_context option \<Rightarrow> (string \<times> string) list" where
  "LogAttrs sc = (case sc of None \<Rightarrow> [] | Some s \<Rightarrow> [(''trace_id'', sc_TraceID s), (''span_id'', sc_SpanID s)])"

end
