(* ===== verification/Room_Events.thy ===== *)
theory Room_Events
  imports Gateway Event_Log
begin

text \<open>
  The notifications of \<^verbatim>\<open>room:events\<close> from their publication to the gateway: the JSON of a
  \<^verbatim>\<open>RoomEvent\<close> and \<^verbatim>\<open>SubscribeRoomEvents\<close> with its goroutine
  (\<^verbatim>\<open>internal/roomlocator/locator.go\<close>), composed with \<^verbatim>\<open>WatchRoomEvents\<close>. What Redis hands to
  the subscription is a list of inputs; it may lose messages and keeps their order.
\<close>

section \<open>The payload\<close>

fun event_type_text :: "room_event_type \<Rightarrow> string" where
  "event_type_text RoomEventCreated = ''created''"
| "event_type_text RoomEventRemoved = ''removed''"
| "event_type_text (RoomEventOther s) = s"

definition event_type_of :: "string \<Rightarrow> room_event_type" where
  "event_type_of s = (if s = ''created'' then RoomEventCreated else if s = ''removed'' then RoomEventRemoved else RoomEventOther s)"

definition roomEvent_json :: "room_event_json \<Rightarrow> json" where
  "roomEvent_json ev = JObject [(''type'', JString (event_type_text (re_Type ev))), (''race_id'', JString (re_RaceID ev)),
     (''instance_id'', JString (re_InstanceID ev))]"

definition room_event_member :: "string \<Rightarrow> json \<Rightarrow> room_event_json \<Rightarrow> room_event_json option" where
  "room_event_member k v m =
     (if same_key k ''type'' then map_option (\<lambda>x. m\<lparr>re_Type := event_type_of x\<rparr>) (string_field v (event_type_text (re_Type m)))
      else if same_key k ''race_id'' then map_option (\<lambda>x. m\<lparr>re_RaceID := x\<rparr>) (string_field v (re_RaceID m))
      else if same_key k ''instance_id'' then map_option (\<lambda>x. m\<lparr>re_InstanceID := x\<rparr>) (string_field v (re_InstanceID m))
      else Some m)"

definition decode_room_event :: "frame \<Rightarrow> room_event_json option" where
  "decode_room_event data = Option.bind data (decode_struct room_event_member
     \<lparr>re_Type = RoomEventOther '''', re_RaceID = '''', re_InstanceID = ''''\<rparr>)"

section \<open>The subscription\<close>

text \<open>What the goroutine's selects choose, one after the other: a payload, together with whether the
  receiver takes the event or the context is done first; the end of the library's channel; the end of the
  context.\<close>

datatype feed_input = Payload frame bool | ChannelClosed | ContextDone

fun room_event_loop :: "feed_input list \<Rightarrow> room_event_json list" where
  "room_event_loop [] = []"
| "room_event_loop (Payload data taken # is) =
     (case decode_room_event data of
        None \<Rightarrow> room_event_loop is
      | Some ev \<Rightarrow> if taken then ev # room_event_loop is else [])"
| "room_event_loop (ChannelClosed # is) = []"
| "room_event_loop (ContextDone # is) = []"

definition SubscribeRoomEvents :: "go_error option \<Rightarrow> feed_input list \<Rightarrow> go_error + room_event_json list" where
  "SubscribeRoomEvents receive is =
     (case receive of Some _ \<Rightarrow> Inl (ErrOther ''roomlocator: subscribe room events'') | None \<Rightarrow> Inr (room_event_loop is))"

text \<open>The gateway's watcher over the subscription, each event with the instant it is handled at.\<close>

definition watch_subscription :: "go_error + room_event_json list \<Rightarrow> time list \<Rightarrow> gateway \<Rightarrow> gateway" where
  "watch_subscription sub instants = WatchRoomEvents (case sub of Inl e \<Rightarrow> Inl e | Inr evs \<Rightarrow> Inr (zip instants evs))"

section \<open>Lemmas\<close>

lemma room_event_keys [simp]:
  "same_key ''instance_id'' f = (f = ''instance_id'')" "same_key ''type'' f = (f = ''type'')"
  by (auto simp: same_key_def lower_def)

definition proper_room_event :: "room_event_json \<Rightarrow> bool" where
  "proper_room_event ev \<longleftrightarrow> event_type_of (event_type_text (re_Type ev)) = re_Type ev"

lemma room_event_roundtrip: "proper_room_event ev \<Longrightarrow> decode_room_event (Some (roomEvent_json ev)) = Some ev"
  by (cases ev)
    (simp add: decode_room_event_def decode_struct_def roomEvent_json_def room_event_member_def proper_room_event_def)

lemma published_are_proper: "re_Type ev \<in> {RoomEventCreated, RoomEventRemoved} \<Longrightarrow> proper_room_event ev"
  by (auto simp: proper_room_event_def event_type_of_def)

text \<open>What comes out of the subscription are payloads that came in, in their order.\<close>

lemma room_event_loop_append:
  "\<forall>i \<in> set is. \<exists>data. i = Payload data True \<Longrightarrow> room_event_loop (is @ js) = room_event_loop is @ room_event_loop js"
  by (induction "is") (auto split: option.split)

text \<open>A subscription that hands on everything delivers the published events, whatever else is on the channel.\<close>

lemma feed_delivers:
  assumes "\<forall>ev \<in> set evs. proper_room_event ev"
  shows "room_event_loop (map (\<lambda>ev. Payload (Some (roomEvent_json ev)) True) evs) = evs"
  using assms by (induction evs) (simp_all add: room_event_roundtrip)

lemma feed_skips_malformed:
  "decode_room_event data = None \<Longrightarrow> room_event_loop (Payload data taken # is) = room_event_loop is"
  by simp

end
