(* ===== verification/Room_Routes.thy ===== *)
theory Room_Routes
  imports Room_Events
begin

text \<open>
  The routes of a gateway against the owners in Redis: instances that claim, refresh and release rooms
  (\<^verbatim>\<open>internal/roomlocator\<close>), the notifications they publish, and a gateway that hears them
  (\<^verbatim>\<open>WatchRoomEvents\<close>) and fills its cache on its own (\<^verbatim>\<open>resolveTarget\<close>), whose lookup and
  store are two steps here: the code holds no lock between them. The claims are refreshed in time, so
  none expires; every notification arrives.
\<close>

section \<open>The system\<close>

text \<open>\<open>rt_handled\<close>: the notifications the gateway has handled; \<open>rt_lookups\<close>: the owners that
  requests have found and not yet stored. \<open>rt_late\<close> and \<open>rt_claimed\<close> record what has happened: a
  store after the owner had changed, and every claim that was granted.\<close>

record routes =
  rt_redis :: mem_redis
  rt_handled :: nat
  rt_gw :: gateway
  rt_lookups :: "(race_id \<times> string) list"
  rt_late :: bool
  rt_claimed :: "(race_id \<times> string) set"

definition start_routes :: "time \<Rightarrow> duration \<Rightarrow> routes" where
  "start_routes now ttl = \<lparr>rt_redis = empty_redis\<lparr>mem_now := now\<rparr>, rt_handled = 0, rt_gw = NewGateway ttl, rt_lookups = [],
     rt_late = False, rt_claimed = {}\<rparr>"

definition instance_locator :: "string \<Rightarrow> mem_redis locator" where
  "instance_locator inst = \<lparr>client = mem_client, instanceID = inst\<rparr>"

definition owner_of :: "mem_redis \<Rightarrow> race_id \<Rightarrow> string option" where
  "owner_of m i = map_option (\<lambda>v. go_TrimPrefix v ''instance:'') (mem_live m (roomKey i))"

definition unheard :: "routes \<Rightarrow> room_event_json list" where
  "unheard s = map snd (drop (rt_handled s) (published (rt_redis s)))"

definition rt_claim :: "string \<Rightarrow> bool \<Rightarrow> race_id \<Rightarrow> routes \<Rightarrow> routes" where
  "rt_claim inst ctx i s =
     (case Claim (instance_locator inst) ctx i (rt_redis s) of ((claimed, _), m) \<Rightarrow>
       s\<lparr>rt_redis := m, rt_claimed := (if claimed then insert (i, inst) (rt_claimed s) else rt_claimed s)\<rparr>)"

definition rt_release :: "string \<Rightarrow> bool \<Rightarrow> race_id \<Rightarrow> routes \<Rightarrow> routes" where
  "rt_release inst ctx i s = s\<lparr>rt_redis := snd (Release (instance_locator inst) ctx i (rt_redis s))\<rparr>"

definition rt_refresh :: "string \<Rightarrow> bool \<Rightarrow> race_id \<Rightarrow> routes \<Rightarrow> routes" where
  "rt_refresh inst ctx i s = s\<lparr>rt_redis := snd (Refresh (instance_locator inst) ctx i (rt_redis s))\<rparr>"

text \<open>One notification: its JSON through the subscription and the watcher.\<close>

definition rt_hear :: "time \<Rightarrow> room_event_json \<Rightarrow> routes \<Rightarrow> routes" where
  "rt_hear now ev s = s\<lparr>rt_handled := Suc (rt_handled s),
     rt_gw := watch_subscription (SubscribeRoomEvents None [Payload (Some (roomEvent_json ev)) True]) [now] (rt_gw s)\<rparr>"

text \<open>The two halves of \<^verbatim>\<open>resolveTarget\<close> on a miss.\<close>

definition rt_lookup :: "race_id \<Rightarrow> string \<Rightarrow> routes \<Rightarrow> routes" where
  "rt_lookup i inst s = s\<lparr>rt_lookups := rt_lookups s @ [(i, inst)]\<rparr>"

definition rt_store :: "time \<Rightarrow> race_id \<Rightarrow> string \<Rightarrow> routes \<Rightarrow> routes" where
  "rt_store now i inst s = s\<lparr>rt_gw := (rt_gw s)\<lparr>cache := mput i (inst, now + cacheTTL (rt_gw s)) (cache (rt_gw s))\<rparr>,
     rt_lookups := remove1 (i, inst) (rt_lookups s), rt_late := (rt_late s \<or> owner_of (rt_redis s) i \<noteq> Some inst)\<rparr>"

inductive route_step :: "routes \<Rightarrow> routes \<Rightarrow> bool" where
  claim: "route_step s (rt_claim inst ctx i s)"
| release: "route_step s (rt_release inst ctx i s)"
| refresh: "route_step s (rt_refresh inst ctx i s)"
| hear: "unheard s = ev # evs \<Longrightarrow> route_step s (rt_hear now ev s)"
| lookup: "fst (Owner (instance_locator g) False i (rt_redis s)) = Inr (Some inst) \<Longrightarrow> route_step s (rt_lookup i inst s)"
| store: "(i, inst) \<in> set (rt_lookups s) \<Longrightarrow> route_step s (rt_store now i inst s)"

inductive reachable_routes :: "routes \<Rightarrow> bool" where
  start: "reachable_routes (start_routes now ttl)"
| step: "reachable_routes s \<Longrightarrow> route_step s s' \<Longrightarrow> reachable_routes s'"

text \<open>Both halves together, on a miss, are \<^verbatim>\<open>resolveTarget\<close>.\<close>

lemma resolve_halves:
  assumes "mget (cache (rt_gw s)) i = None" "fst (Owner l ctx i (rt_redis s)) = Inr (Some inst)"
  shows "fst (resolveTarget l now later ctx i (rt_gw s, rt_redis s)) = Inr (Some inst)
    \<and> fst (snd (resolveTarget l now later ctx i (rt_gw s, rt_redis s))) = rt_gw (rt_store later i inst (rt_lookup i inst s))"
  using assms by (auto simp: resolveTarget_def rt_store_def rt_lookup_def Let_def split: sum.split prod.split option.split)

section \<open>What the commands leave in Redis\<close>

definition word :: "room_event_json \<Rightarrow> string option" where
  "word ev = (if re_Type ev = RoomEventCreated then Some (re_InstanceID ev) else None)"

lemma roomKey_eq [simp]: "roomKey i = roomKey j \<longleftrightarrow> i = j"
  by (simp add: roomKey_def)

lemma instance_prefix: "go_TrimPrefix (''instance:'' @ inst) ''instance:'' = inst"
  by (rule go_TrimPrefix_append)

lemma live_strs [simp]: "mem_live (m\<lparr>published := p\<rparr>) = mem_live m"
  "mem_live (m\<lparr>strs := mput k (v, t) (strs m)\<rparr>) k' = (if k' = k then if mem_now m < t then Some v else None else mem_live m k')"
  "mem_live (m\<lparr>strs := mdel k (strs m)\<rparr>) k' = (if k' = k then None else mem_live m k')"
  by (auto simp: mem_live_def fun_eq_iff split: option.split)

lemmas commands = Claim_def Release_def Refresh_def Owner_def publish_def instance_locator_def mem_client_def claimTTL_def

lemma claim_redis:
  "snd (Claim (instance_locator inst) ctx i m) = m \<and> \<not> fst (fst (Claim (instance_locator inst) ctx i m))
   \<or> fst (fst (Claim (instance_locator inst) ctx i m))
     \<and> owner_of (snd (Claim (instance_locator inst) ctx i m)) = (owner_of m)(i \<mapsto> inst)
     \<and> published (snd (Claim (instance_locator inst) ctx i m))
       = published m @ [(roomEventsChannel, \<lparr>re_Type = RoomEventCreated, re_RaceID = i, re_InstanceID = inst\<rparr>)]"
  using instance_prefix [of inst] by (auto simp: commands owner_of_def fun_eq_iff)

lemma release_redis:
  "snd (Release (instance_locator inst) ctx i m) = m
   \<or> owner_of (snd (Release (instance_locator inst) ctx i m)) = (owner_of m)(i := None)
     \<and> published (snd (Release (instance_locator inst) ctx i m))
       = published m @ [(roomEventsChannel, \<lparr>re_Type = RoomEventRemoved, re_RaceID = i, re_InstanceID = inst\<rparr>)]"
  by (auto simp: commands owner_of_def fun_eq_iff)

lemma refresh_redis:
  "owner_of (snd (Refresh (instance_locator inst) ctx i m)) = owner_of m"
  "published (snd (Refresh (instance_locator inst) ctx i m)) = published m"
  by (auto simp: commands owner_of_def fun_eq_iff split: option.split)

lemma owner_redis: "Owner (instance_locator g) False i m = (Inr (owner_of m i), m)"
  by (simp add: commands owner_of_def split: option.split)

section \<open>What a step does to the view\<close>

definition cached :: "routes \<Rightarrow> race_id \<Rightarrow> string option" where
  "cached s i = map_option fst (mget (cache (rt_gw s)) i)"

definition pending_of :: "routes \<Rightarrow> race_id \<Rightarrow> room_event_json list" where
  "pending_of s i = List.filter (\<lambda>ev. re_RaceID ev = i) (unheard s)"

definition announcement :: "room_event_json \<Rightarrow> bool" where
  "announcement ev \<longleftrightarrow> re_Type ev \<in> {RoomEventCreated, RoomEventRemoved}"

lemma hear_view:
  assumes "unheard s = ev # evs" "announcement ev"
  shows "unheard (rt_hear now ev s) = evs"
    "cached (rt_hear now ev s) i = (if re_RaceID ev = i then word ev else cached s i)"
    "rt_handled (rt_hear now ev s) \<le> length (published (rt_redis (rt_hear now ev s)))"
proof -
  show "unheard (rt_hear now ev s) = evs"
    using arg_cong [OF assms(1), of tl] by (simp add: unheard_def rt_hear_def drop_Suc flip: tl_drop map_tl)
  show "cached (rt_hear now ev s) i = (if re_RaceID ev = i then word ev else cached s i)"
    using assms(2) by (auto simp: cached_def rt_hear_def watch_subscription_def SubscribeRoomEvents_def WatchRoomEvents_def
        announcement_def word_def room_event_roundtrip [OF published_are_proper] watch_event_cache known_event_def)
  have "rt_handled s < length (published (rt_redis s))" using arg_cong [OF assms(1), of length] by (simp add: unheard_def)
  then show "rt_handled (rt_hear now ev s) \<le> length (published (rt_redis (rt_hear now ev s)))" by (simp add: rt_hear_def)
qed

text \<open>A command on Redis either changes nothing the gateway could see or changes one owner and announces it.\<close>

definition same_view :: "routes \<Rightarrow> routes \<Rightarrow> bool" where
  "same_view s s' \<longleftrightarrow> owner_of (rt_redis s') = owner_of (rt_redis s) \<and> published (rt_redis s') = published (rt_redis s)
     \<and> rt_handled s' = rt_handled s \<and> rt_gw s' = rt_gw s \<and> rt_late s' = rt_late s"

definition announces :: "room_event_json \<Rightarrow> routes \<Rightarrow> routes \<Rightarrow> bool" where
  "announces ev s s' \<longleftrightarrow> announcement ev \<and> owner_of (rt_redis s') = (owner_of (rt_redis s))(re_RaceID ev := word ev)
     \<and> (\<exists>c. published (rt_redis s') = published (rt_redis s) @ [(c, ev)])
     \<and> rt_handled s' = rt_handled s \<and> rt_gw s' = rt_gw s \<and> rt_late s' = rt_late s"

lemma claim_view_step:
  "same_view s (rt_claim inst ctx i s) \<and> rt_claimed (rt_claim inst ctx i s) = rt_claimed s
   \<or> announces \<lparr>re_Type = RoomEventCreated, re_RaceID = i, re_InstanceID = inst\<rparr> s (rt_claim inst ctx i s)
     \<and> rt_claimed (rt_claim inst ctx i s) = insert (i, inst) (rt_claimed s)"
  using claim_redis [of inst ctx i "rt_redis s"]
  by (auto simp: rt_claim_def same_view_def announces_def announcement_def word_def split: prod.splits)

lemma release_view_step:
  "same_view s (rt_release inst ctx i s)
   \<or> announces \<lparr>re_Type = RoomEventRemoved, re_RaceID = i, re_InstanceID = inst\<rparr> s (rt_release inst ctx i s)"
  using release_redis [of inst ctx i "rt_redis s"]
  by (auto simp: rt_release_def same_view_def announces_def announcement_def word_def)

lemma silent_steps:
  "same_view s (rt_refresh inst ctx i s)" "same_view s (rt_lookup i inst s)"
  by (simp_all add: rt_refresh_def rt_lookup_def same_view_def refresh_redis)

lemma pending_view:
  "same_view s s' \<Longrightarrow> unheard s' = unheard s"
  "announces ev s s' \<Longrightarrow> rt_handled s \<le> length (published (rt_redis s)) \<Longrightarrow> unheard s' = unheard s @ [ev]"
  by (auto simp: same_view_def announces_def unheard_def)

section \<open>The invariant\<close>

text \<open>The last notification that is on its way about a race says who owns it; when none is on its way
  the cache does, unless an owner was stored late.\<close>

definition routes_ok :: "routes \<Rightarrow> bool" where
  "routes_ok s \<longleftrightarrow> rt_handled s \<le> length (published (rt_redis s)) \<and> (\<forall>ev \<in> set (unheard s). announcement ev)
     \<and> (\<forall>i. (pending_of s i \<noteq> [] \<longrightarrow> word (last (pending_of s i)) = owner_of (rt_redis s) i)
          \<and> (pending_of s i = [] \<longrightarrow> \<not> rt_late s \<longrightarrow> cached s i \<in> {None, owner_of (rt_redis s) i}))"

lemma routes_ok_same: "same_view s s' \<Longrightarrow> routes_ok s \<Longrightarrow> routes_ok s'"
  by (simp add: routes_ok_def pending_of_def pending_view(1)) (simp add: same_view_def cached_def)

lemma routes_ok_announces:
  assumes "announces ev s s'" "routes_ok s"
  shows "routes_ok s'"
proof -
  have u: "unheard s' = unheard s @ [ev]" using assms pending_view(2) by (auto simp: routes_ok_def)
  have "rt_handled s' \<le> length (published (rt_redis s'))" using assms by (auto simp: routes_ok_def announces_def)
  moreover have "\<forall>ev \<in> set (unheard s'). announcement ev" using assms u by (auto simp: routes_ok_def announces_def)
  ultimately show ?thesis
    using assms u unfolding routes_ok_def by (auto simp: pending_of_def announces_def cached_def)
qed

lemma routes_ok_hear:
  assumes "unheard s = ev # evs" "routes_ok s"
  shows "routes_ok (rt_hear now ev s)"
proof -
  have "announcement ev" using assms by (simp add: routes_ok_def)
  note v = hear_view [OF assms(1) this, of now]
  have r: "rt_redis (rt_hear now ev s) = rt_redis s" "rt_late (rt_hear now ev s) = rt_late s" by (simp_all add: rt_hear_def)
  have "(pending_of (rt_hear now ev s) i \<noteq> [] \<longrightarrow> word (last (pending_of (rt_hear now ev s) i)) = owner_of (rt_redis s) i)
      \<and> (pending_of (rt_hear now ev s) i = [] \<longrightarrow> \<not> rt_late s \<longrightarrow> cached (rt_hear now ev s) i \<in> {None, owner_of (rt_redis s) i})" for i
  proof -
    have "(pending_of s i \<noteq> [] \<longrightarrow> word (last (pending_of s i)) = owner_of (rt_redis s) i)
      \<and> (pending_of s i = [] \<longrightarrow> \<not> rt_late s \<longrightarrow> cached s i \<in> {None, owner_of (rt_redis s) i})"
      using assms(2) by (simp add: routes_ok_def)
    moreover have "pending_of s i = (if re_RaceID ev = i then [ev] else []) @ pending_of (rt_hear now ev s) i"
      using assms(1) v(1) by (simp add: pending_of_def)
    ultimately show ?thesis using v(2) [of i] by (auto split: if_splits)
  qed
  then show ?thesis using v assms r by (simp add: routes_ok_def)
qed

lemma store_view:
  "unheard (rt_store now i inst s) = unheard s" "pending_of (rt_store now i inst s) j = pending_of s j"
  "cached (rt_store now i inst s) j = (if j = i then Some inst else cached s j)"
  "rt_redis (rt_store now i inst s) = rt_redis s" "rt_handled (rt_store now i inst s) = rt_handled s"
  "rt_late (rt_store now i inst s) \<longleftrightarrow> rt_late s \<or> owner_of (rt_redis s) i \<noteq> Some inst"
  by (simp_all add: rt_store_def unheard_def pending_of_def cached_def)

lemma routes_ok_store: "routes_ok s \<Longrightarrow> routes_ok (rt_store now i inst s)"
  by (auto simp: routes_ok_def store_view)

lemma reachable_routes_ok: "reachable_routes s \<Longrightarrow> routes_ok s"
proof (induction rule: reachable_routes.induct)
  case (start now ttl)
  show ?case by (simp add: routes_ok_def start_routes_def unheard_def pending_of_def cached_def empty_redis_def NewGateway_def)
next
  case (step s s')
  from step.hyps(2) step.IH show ?case
  proof (cases rule: route_step.cases)
    case (claim inst ctx i)
    with claim_view_step [of s inst ctx i] step.IH show ?thesis by (auto intro: routes_ok_same routes_ok_announces)
  next
    case (release inst ctx i)
    with release_view_step [of s inst ctx i] step.IH show ?thesis by (auto intro: routes_ok_same routes_ok_announces)
  qed (auto intro: routes_ok_same silent_steps routes_ok_hear routes_ok_store)
qed

section \<open>Every route was claimed\<close>

definition mentioned :: "routes \<Rightarrow> race_id \<Rightarrow> string \<Rightarrow> bool" where
  "mentioned s i inst \<longleftrightarrow> owner_of (rt_redis s) i = Some inst \<or> cached s i = Some inst \<or> (i, inst) \<in> set (rt_lookups s)
     \<or> (\<exists>ev \<in> set (unheard s). re_RaceID ev = i \<and> word ev = Some inst)"

definition routes_claimed :: "routes \<Rightarrow> bool" where
  "routes_claimed s \<longleftrightarrow> (\<forall>i inst. mentioned s i inst \<longrightarrow> (i, inst) \<in> rt_claimed s)"

lemma mentioned_same: "same_view s s' \<Longrightarrow> set (rt_lookups s') \<subseteq> set (rt_lookups s) \<Longrightarrow> mentioned s' i inst \<Longrightarrow> mentioned s i inst"
  unfolding mentioned_def pending_view(1) by (auto simp: same_view_def cached_def)

lemma mentioned_announces:
  assumes "announces ev s s'" "routes_ok s" "rt_lookups s' = rt_lookups s" "mentioned s' i inst"
  shows "mentioned s i inst \<or> re_RaceID ev = i \<and> word ev = Some inst"
proof -
  have "unheard s' = unheard s @ [ev]" using assms pending_view(2) by (auto simp: routes_ok_def)
  with assms show ?thesis unfolding mentioned_def by (auto simp: announces_def cached_def split: if_splits)
qed

lemma mentioned_hear:
  assumes "unheard s = ev # evs" "announcement ev" "mentioned (rt_hear now ev s) i inst"
  shows "mentioned s i inst"
proof -
  have "rt_redis (rt_hear now ev s) = rt_redis s" "rt_lookups (rt_hear now ev s) = rt_lookups s" by (simp_all add: rt_hear_def)
  with assms(1,3) hear_view(1,2) [OF assms(1,2), of now] show ?thesis
    unfolding mentioned_def by (auto split: if_splits)
qed

lemma mentioned_store: "(i, inst) \<in> set (rt_lookups s) \<Longrightarrow> mentioned (rt_store now i inst s) j v \<Longrightarrow> mentioned s j v"
  unfolding mentioned_def store_view by (auto simp: rt_store_def split: if_splits dest: notin_set_remove1)

lemma mentioned_lookup:
  "owner_of (rt_redis s) i = Some inst \<Longrightarrow> mentioned (rt_lookup i inst s) j v \<Longrightarrow> mentioned s j v"
  unfolding mentioned_def by (auto simp: rt_lookup_def cached_def unheard_def)

lemma reachable_routes_claimed: "reachable_routes s \<Longrightarrow> routes_claimed s"
proof (induction rule: reachable_routes.induct)
  case (start now ttl)
  show ?case
    by (simp add: routes_claimed_def mentioned_def start_routes_def unheard_def cached_def empty_redis_def NewGateway_def
        owner_of_def mem_live_def)
next
  case (step s s')
  have ok: "routes_ok s" using step.hyps(1) by (rule reachable_routes_ok)
  from step.hyps(2) step.IH show ?case
  proof (cases rule: route_step.cases)
    case (claim inst ctx i)
    have "rt_lookups s' = rt_lookups s" unfolding claim by (simp add: rt_claim_def split: prod.split)
    with claim claim_view_step [of s inst ctx i] step.IH show ?thesis
      unfolding routes_claimed_def by (auto dest: mentioned_same mentioned_announces [OF _ ok] simp: word_def)
  next
    case (release inst ctx i)
    have "rt_lookups s' = rt_lookups s" "rt_claimed s' = rt_claimed s" unfolding release by (simp_all add: rt_release_def)
    with release release_view_step [of s inst ctx i] step.IH show ?thesis
      unfolding routes_claimed_def by (auto dest: mentioned_same mentioned_announces [OF _ ok] simp: word_def)
  next
    case (refresh inst ctx i)
    then show ?thesis
      using step.IH silent_steps(1) [of s inst ctx i] unfolding routes_claimed_def
      by (auto dest: mentioned_same simp: rt_refresh_def)
  next
    case (hear ev evs now)
    then have "announcement ev" using ok by (simp add: routes_ok_def)
    with hear step.IH show ?thesis unfolding routes_claimed_def by (auto dest: mentioned_hear simp: rt_hear_def)
  next
    case (lookup g i inst)
    with step.IH show ?thesis unfolding routes_claimed_def
      by (auto dest: mentioned_lookup simp: owner_redis) (auto dest: mentioned_lookup simp: rt_lookup_def)
  next
    case (store i inst now)
    with step.IH show ?thesis unfolding routes_claimed_def by (auto dest: mentioned_store simp: rt_store_def)
  qed
qed

section \<open>Properties\<close>


abbreviation demo_created :: room_event_json where
  "demo_created \<equiv> \<lparr>re_Type = RoomEventCreated, re_RaceID = ''r1'', re_InstanceID = ''i1''\<rparr>"

abbreviation demo_removed :: room_event_json where
  "demo_removed \<equiv> \<lparr>re_Type = RoomEventRemoved, re_RaceID = ''r1'', re_InstanceID = ''i1''\<rparr>"

lemmas demo_steps = start_routes_def rt_claim_def rt_release_def rt_hear_def rt_lookup_def rt_store_def unheard_def commands
  mem_live_def empty_redis_def NewGateway_def go_TrimPrefix_def go_HasPrefix_def

text \<open>A room that is claimed and announced.\<close>

abbreviation demo_claimed :: routes where
  "demo_claimed \<equiv> rt_claim ''i1'' False ''r1'' (start_routes 0 30)"

lemma demo_claimed_reachable: "reachable_routes demo_claimed"
  by (rule reachable_routes.intros(2) [OF reachable_routes.start claim])

lemma demo_claimed_unheard: "unheard demo_claimed = [demo_created]"
  by (simp add: demo_steps)


section \<open>An owner that is stored late\<close>

text \<open>Between the lookup and the store the room can end and its removal be heard: the store then brings
  the old owner back, and the gateway proxies to it, although Redis knows no owner and nothing is on
  its way, until the entry expires.\<close>

abbreviation demo_released :: routes where
  "demo_released \<equiv> rt_release ''i1'' False ''r1'' (rt_lookup ''r1'' ''i1'' (rt_hear 5 demo_created demo_claimed))"

abbreviation demo_late :: routes where
  "demo_late \<equiv> rt_store 8 ''r1'' ''i1'' (rt_hear 7 demo_removed demo_released)"

lemma demo_released_facts:
  "reachable_routes demo_released" "unheard demo_released = [demo_removed]" "(''r1'', ''i1'') \<in> set (rt_lookups demo_released)"
  "owner_of (rt_redis demo_released) ''r1'' = None"
proof -
  have "fst (Owner (instance_locator ''g'') False ''r1'' (rt_redis (rt_hear 5 demo_created demo_claimed))) = Inr (Some ''i1'')"
    by (simp add: demo_steps)
  then show "reachable_routes demo_released"
    by (intro reachable_routes.step [OF _ release] reachable_routes.step [OF _ lookup]
        reachable_routes.step [OF demo_claimed_reachable hear [OF demo_claimed_unheard]])
qed (simp_all add: demo_steps owner_of_def)

lemma late_store_is_stale:
  "reachable_routes demo_late \<and> unheard demo_late = []
   \<and> fst (Owner (instance_locator ''g'') False ''r1'' (rt_redis demo_late)) = Inr None
   \<and> fst (resolveTarget (instance_locator ''g'') 9 9 False ''r1'' (rt_gw demo_late, rt_redis demo_late)) = Inr (Some ''i1'')"
proof -
  let ?h = "rt_hear 7 demo_removed demo_released"
  have u: "unheard ?h = []"
    using hear_view(1) [OF demo_released_facts(2), of 7] by (simp add: announcement_def)
  have "rt_lookups ?h = rt_lookups demo_released" "rt_redis ?h = rt_redis demo_released" by (simp_all add: rt_hear_def)
  with demo_released_facts have "reachable_routes demo_late" "owner_of (rt_redis demo_late) ''r1'' = None"
    by (auto intro: reachable_routes.step [OF reachable_routes.step [OF _ hear] store] simp: store_view)
  moreover have "cacheTTL (rt_gw ?h) = 30"
    by (simp add: demo_steps watch_subscription_def SubscribeRoomEvents_def WatchRoomEvents_def split: option.split)
  then have "mget (cache (rt_gw demo_late)) ''r1'' = Some (''i1'', 38)" by (simp add: rt_store_def)
  ultimately show ?thesis using u by (simp add: owner_redis store_view resolveTarget_def)
qed

end
