(* ===== verification/Spec2Isabelle.thy ===== *)
theory Spec2Isabelle
  imports Frame_Path Concurrent_Joins Request_Log Kafka_Producer Room_Query Race_Hub Ws_Endpoint Room_Endings Leaderboard_Properties Sessions Race_System Http_Api_Properties Discovery Relay_Bus Server_Run Gateway_Process Binaries Metered_Consumer Gateway_Shutdown Telegram_Relay Trace_Headers Room_Routes
begin

text \<open>
  A verification library for the backend of Aviron, a platform for live rowing races
  (\<^verbatim>\<open>src/backend\<close>). Participants row on their machines, send telemetry over a WebSocket and get
  the standings back while they race; results and a leaderboard are kept in PostgreSQL.

  \<^bold>\<open>The program.\<close> Four binaries under \<^verbatim>\<open>cmd/\<close>:

    \<^item> \<^verbatim>\<open>server\<close> (the race service; several instances): the HTTP API for accounts, races and the
      leaderboard, and one actor per race (a room) that alone changes the state of a running race;
    \<^item> \<^verbatim>\<open>ws-gateway\<close>: ends the clients' WebSockets and forwards HTTP requests to the instance
      that owns the race;
    \<^item> \<^verbatim>\<open>consumer\<close>: reads the Kafka topics of samples and results into PostgreSQL;
    \<^item> \<^verbatim>\<open>telegram-relay\<close>: turns webhooks of Alertmanager into Telegram messages.

  A client's frame is read by the gateway (\<^verbatim>\<open>readLoop\<close>), published on the NATS subject
  \<^verbatim>\<open>room.ID.in\<close>, received by the instance (\<^verbatim>\<open>roombus\<close>), turned into a room event and put
  into the inbox of the actor. The actor's broadcasts go back over \<^verbatim>\<open>room.ID.out\<close> to the hub of
  the race on each gateway and from there to its connections. Redis holds which instance owns a room
  and who has been evicted, and announces both on \<^verbatim>\<open>room:events\<close>. At the end of a race the actor
  writes the results in one transaction, and publishes them to Kafka, where the consumer checks them
  against the tables once more.

  \<^bold>\<open>Conventions.\<close> A struct of the source is a record, an enumeration a datatype, an error an
  element of \<open>go_error\<close>, and a function that may fail returns \<open>go_error + 'a\<close> or an optional error
  with the new state. A Go map is an association list with distinct keys (\<open>mget\<close>, \<open>mput\<close>,
  \<open>mdel\<close>); where the code ranges over a map, the order is a parameter whose only law is that it is a
  permutation. A channel with a buffer is a list with its capacity; a select with a default is
  \<open>chan_try_send\<close>. Goroutines that share state are an \<open>inductive\<close> step relation whose steps are what
  runs between two points of synchronisation, with a predicate for the reachable states. Time is an
  \<open>int\<close> of nanoseconds, supplied to a step; timers are armed, stopped and fired explicitly. Go's
  \<^verbatim>\<open>int\<close> is \<open>int\<close> with the wrap-around written out where it matters (the offset of a page, the
  conversion of a JSON number), the atomic counter of the round robin a \<open>64 word\<close>.
  A library outside the repository is an argument: a record of functions or the outcome of a call.

  \<^bold>\<open>The theories.\<close>

    \<^item> \<open>Aviron_Prelude\<close>: types, errors, maps, channels, and the lemmas on lists they need.

    \<^item> \<open>Room_Actor\<close> (\<^verbatim>\<open>internal/room/room.go\<close>): the actor and its ten events, as the functions
      \<open>applyEvent\<close>, \<open>checkRaceFinished\<close>, \<open>finishRace\<close>, \<open>broadcastSnapshot\<close> over a record of what
      it calls. \<open>Room_Invariant\<close>: well-formedness, preserved by each event whatever the collaborators
      answer. \<open>Room_Properties\<close>: the ranking of the results and what each event does; Go's map
      iteration is the locale \<open>map_iteration\<close>. \<open>Room_Run\<close>: the goroutine \<^verbatim>\<open>Run\<close> with its inbox,
      tick and timers, the blocked senders, and the invariant of the reachable states.
      \<open>Room_Endings\<close>: how a room ends and that it stays ended, and schedules on which it does not do
      what its comments say. \<open>Room_Query\<close>: the one synchronous question to a room,
      \<^verbatim>\<open>IsEvicted\<close>, beside all that. \<open>Room_Registry\<close> (\<^verbatim>\<open>registry.go\<close>): the map of rooms, with the four
      goroutines a room is given, as an interleaving. \<open>Server_Run\<close> (\<^verbatim>\<open>cmd/server/run.go\<close>): the
      shutdown of an instance over that interleaving.

    \<^item> \<open>Race_Store\<close> (\<^verbatim>\<open>internal/postgres/race_repository.go\<close>, \<^verbatim>\<open>internal/race/race.go\<close>): the
      tables and every statement over them, with transactions, unique and foreign keys and failing
      statements. \<open>Race_Store_Properties\<close>: integrity, and the atomicity of the end of a race.
      \<open>Race_Service\<close> (\<^verbatim>\<open>internal/race\<close>): the service and its handlers.
      \<open>Race_Service_Properties\<close>: proved against the locales \<open>race_repository\<close> and
      \<open>race_service_env\<close>, which are interpreted on the PostgreSQL model. \<open>Concurrent_Joins\<close>:
      \<^verbatim>\<open>JoinRace\<close> statement by statement, in every interleaving of the requests for a race.

    \<^item> \<open>Protocol\<close> (\<^verbatim>\<open>internal/ws/protocol.go\<close>, \<^verbatim>\<open>internal/roombus/adapter.go\<close>): the client's
      frames with the field rules of encoding/json, and the way from an envelope to a room event.
      \<open>Relay_Envelopes\<close> and \<open>Relay_Bus\<close> (\<^verbatim>\<open>internal/roomrelay\<close>): the envelopes on the wire, and
      both buses with the goroutines of their subscriptions; the locale \<open>relay_bus\<close> is what
      \<^verbatim>\<open>roombus\<close> and the gateway rely on, interpreted on the NATS bus and on the in-memory one.
      \<open>Room_Events\<close>: the notifications on \<^verbatim>\<open>room:events\<close>. \<open>Room_Routes\<close>: the instances
      that claim and release rooms, the notifications on their way, and the gateway's cache of
      routes that requests and notifications fill, as an interleaving.

    \<^item> \<open>Locator\<close> (\<^verbatim>\<open>internal/roomlocator\<close>): claims and evictions over the locale \<open>redis_store\<close>.

    \<^item> \<open>Gateway\<close> (\<^verbatim>\<open>internal/wsgateway/gateway.go\<close>, \<^verbatim>\<open>sessiontoken.go\<close>, \<^verbatim>\<open>healthz.go\<close>): the
      cache of routes, the admission of a WebSocket, the probes. \<open>Discovery\<close>: the pool of instances
      from the configuration or from Kubernetes. \<open>Ws_Endpoint\<close> and \<open>Race_Hub\<close> (\<^verbatim>\<open>endpoint.go\<close>,
      \<^verbatim>\<open>racehub.go\<close>): the reader and the fan-out. \<open>Gateway_Process\<close>: the gateway in front of
      the instances. \<open>Gateway_Shutdown\<close> (\<^verbatim>\<open>cmd/ws-gateway/run.go\<close>): its end, over the interleaving
      of the hubs and the connections. \<open>Frame_Path\<close>: a frame from the admission of its connection
      to the actor.

    \<^item> \<open>Event_Log\<close> (\<^verbatim>\<open>internal/kafka\<close>, \<^verbatim>\<open>internal/consumer/decode.go\<close>): the messages and their
      keys. \<open>Kafka_Producer\<close>: the asynchronous writer, its partitions and its end. \<open>Consumer\<close>, \<open>Consumer_Properties\<close>, \<open>Consumer_Run\<close> (\<^verbatim>\<open>internal/consumer\<close>): both loops,
      what crashes and restarts leave of the log, and \<^verbatim>\<open>Run\<close> with its two goroutines.
      \<open>Race_System\<close>: the end of a race from the actor over Postgres and the log to the consumer.

    \<^item> \<open>Tokens\<close>, \<open>Auth_Service\<close>, \<open>Auth_Properties\<close>, \<open>Sessions\<close> (\<^verbatim>\<open>internal/auth\<close>,
      \<^verbatim>\<open>internal/middleware/auth.go\<close>): accounts and the two kinds of token. \<open>Leaderboard\<close>,
      \<open>Leaderboard_Properties\<close> (\<^verbatim>\<open>internal/leaderboard\<close>): the queries, paging and both references.
      \<open>Http_Api\<close>, \<open>Http_Api_Properties\<close> (\<^verbatim>\<open>internal/httpserver\<close>, \<^verbatim>\<open>internal/middleware\<close>): the
      routes, the middleware and the replies. \<open>Request_Log\<close>: the log line as the wrapped response
      writer and the cell in the context make it. \<open>Configuration\<close> (\<^verbatim>\<open>internal/config\<close>): the
      environment of the binaries.

    \<^item> \<open>Metrics_Registry\<close>, \<open>Metered_Consumer\<close> (\<^verbatim>\<open>internal/metrics\<close>): the registries over the locale
      \<open>prometheus_registry\<close>, and the consumer with its counters. \<open>Trace_Headers\<close>
      (\<^verbatim>\<open>internal/tracing\<close> and the carriers): the headers a trace travels in. \<open>Telegram_Relay\<close>
      (\<^verbatim>\<open>internal/telegramrelay\<close>). \<open>Binaries\<close> (\<^verbatim>\<open>cmd/*/run.go\<close>): each binary from its first call
      to its deferred ones, on every outcome of the libraries.

  \<^bold>\<open>What is shown.\<close> Of a room: every interleaving keeps the invariant, a lobby always has its expiry
  before it, progress is not taken back, the results have one rank per participant and finishers
  first, and an ended room never acts again. Of the data: the end of a race is all or nothing, the
  tables keep their keys, the all-time table equals the aggregate over the finished races, pages do
  not overlap. Of the log: the events of a race keep their order, what is committed is stored or was
  dead-lettered, over any crashes, what is encoded is decoded, and the whole chain from the actor to the consumer leaves the actor's
  results. Of the entry: who may join, start or connect, how far joins at the same
  time can overfill a race, which requests change anything, which
  replies there are, and that a token of one kind is none of the other. Of the gateway: a request has
  the reply the owner gives, the cached routes agree with Redis, frames speak for their sender, broadcasts come in order with the losses
  counted. Of the processes: they start when their services are there, close what they opened, and
  stop. Where the code does something else than it says, a lemma runs it on a schedule that shows it.

  \<^bold>\<open>Bounds.\<close> The capacities are those of the code: an inbox of 64, a broadcast buffer of 16, 8
  messages per connection, 64 per NATS subscription (16 in the in-memory bus), batches of 200
  samples. The loops of the consumer are
  functions of the number of iterations or of the list of what is fetched, so a statement about a
  run holds for every number; the steps that remain to a stopping consumer and to a subscription
  that is closed are bounded by a measure. For the two shutdowns it is shown that the process can
  always go on to its return.

  \<^bold>\<open>Not modelled.\<close> \<^verbatim>\<open>docs/docs.go\<close> is generated. Of the libraries only what the code relies on is
  there: PostgreSQL's statements as this code uses them (apart from joins, requests do not
  interleave inside a handler), Redis' commands, NATS (order within a subject; messages may be lost), Kafka (keys,
  partitions, batches and offsets; a consumer's loop reads one partition), bcrypt, JWT, the HTTP client and server, ReverseProxy, Prometheus,
  client-go. Left out are spans and trace attributes, most logging, the options of connections, the
  cleaning of paths by ServeMux, wildcards in NATS subjects, strings outside ASCII where case or space
  matters, the overflow of an INT column, the rounding of NUMERIC and of floating point (distances
  and paces are exact), NaN and infinities.
\<close>

end
